(* ===== verification/Esm_Prelude.thy ===== *)
theory Esm_Prelude
  imports
    Main
    "HOL-Library.AList"
    "HOL-Library.Multiset"
    "HOL-Library.Sublist"
    "HOL-Library.Char_ord"
    "HOL-Library.List_Lexorder"
begin

text \<open>
  Shared vocabulary of the development.

  \<^item> Go maps and \<^verbatim>\<open>sync.Map\<close>s are association lists with distinct keys
    (\<open>go_map\<close>), so that every operation computes. The order of the list stands for
    nothing: wherever the source iterates over a map, the model takes the visiting
    order as an argument and the theorems hold for every one (\<open>visits\<close>).
  \<^item> A call that does not return normally is a value of \<open>fault\<close>: a goroutine that
    waits for a mutex it holds itself, or a panic.
  \<^item> The functions of Go's \<^verbatim>\<open>strings\<close> package that the source calls.
  \<^item> Times and durations are integers (nanoseconds), as \<^verbatim>\<open>time.Duration\<close> is.
  \<^item> Two interfaces: the map interface, and inductive invariants of a step relation.
\<close>

named_theorems go_map_simps "rewrite rules of the Go map operations"
named_theorems res_simps "rewrite rules of fallible computations"


subsection \<open>Go maps\<close>

type_synonym ('k, 'v) go_map = "('k \<times> 'v) list"

definition gm_load :: "('k, 'v) go_map \<Rightarrow> 'k \<Rightarrow> 'v option" where
  "gm_load m k = map_of m k"

definition gm_store :: "'k \<Rightarrow> 'v \<Rightarrow> ('k, 'v) go_map \<Rightarrow> ('k, 'v) go_map" where
  "gm_store k v m = AList.update k v m"

definition gm_delete :: "'k \<Rightarrow> ('k, 'v) go_map \<Rightarrow> ('k, 'v) go_map" where
  "gm_delete k m = AList.delete k m"

definition gm_mem :: "'k \<Rightarrow> ('k, 'v) go_map \<Rightarrow> bool" where
  "gm_mem k m \<longleftrightarrow> gm_load m k \<noteq> None"

definition gm_ok :: "('k, 'v) go_map \<Rightarrow> bool" where
  "gm_ok m \<longleftrightarrow> distinct (map fst m)"

text \<open>
  The order in which \<^verbatim>\<open>range\<close> (or \<^verbatim>\<open>sync.Map.Range\<close>) visits a map is a function of
  the map that the language leaves open: it visits every entry exactly once.
\<close>

definition visits :: "(('k, 'v) go_map \<Rightarrow> ('k, 'v) go_map) \<Rightarrow> bool" where
  "visits ord \<longleftrightarrow> (\<forall>m. mset (ord m) = mset m)"


subsection \<open>Computations that may not return\<close>

datatype fault = MutexBlocked | IndexPanic | TypePanic | NilPanic

type_synonym 'a res = "fault + 'a"

definition bindR :: "'a res \<Rightarrow> ('a \<Rightarrow> 'b res) \<Rightarrow> 'b res" where
  "bindR r f = (case r of Inl e \<Rightarrow> Inl e | Inr x \<Rightarrow> f x)"

fun foldR :: "('x \<Rightarrow> 's \<Rightarrow> 's res) \<Rightarrow> 'x list \<Rightarrow> 's \<Rightarrow> 's res" where
  "foldR f [] s = Inr s"
| "foldR f (x # xs) s = bindR (f x s) (foldR f xs)"


subsection \<open>Strings\<close>

definition Contains :: "string \<Rightarrow> string \<Rightarrow> bool" where
  "Contains s t \<longleftrightarrow> sublist t s"

definition TrimPrefix :: "string \<Rightarrow> string \<Rightarrow> string" where
  "TrimPrefix s p = (if prefix p s then drop (length p) s else s)"

definition HasSuffix :: "string \<Rightarrow> string \<Rightarrow> bool" where
  "HasSuffix s t \<longleftrightarrow> suffix t s"

definition ToLower_char :: "char \<Rightarrow> char" where
  "ToLower_char c = (if of_char c \<ge> (65 :: nat) \<and> of_char c \<le> (90 :: nat)
     then char_of (of_char c + (32 :: nat)) else c)"

text \<open>\<^verbatim>\<open>strings.ToLower\<close> on the ASCII letters, the only ones the source compares with.\<close>

definition ToLower :: "string \<Rightarrow> string" where
  "ToLower s = map ToLower_char s"

fun Join :: "string list \<Rightarrow> string \<Rightarrow> string" where
  "Join [] sep = ''''"
| "Join [x] sep = x"
| "Join (x # y # xs) sep = x @ sep @ Join (y # xs) sep"


subsection \<open>Time\<close>

abbreviation Millisecond :: int where "Millisecond \<equiv> 1000000"
abbreviation Second :: int where "Second \<equiv> 1000 * Millisecond"
abbreviation Minute :: int where "Minute \<equiv> 60 * Second"
abbreviation Hour :: int where "Hour \<equiv> 60 * Minute"


subsection \<open>Reachable states of a step relation\<close>

inductive reach :: "('s \<Rightarrow> bool) \<Rightarrow> ('s \<Rightarrow> 's \<Rightarrow> bool) \<Rightarrow> 's \<Rightarrow> bool"
  for init :: "'s \<Rightarrow> bool" and step :: "'s \<Rightarrow> 's \<Rightarrow> bool" where
  reach_init: "init s \<Longrightarrow> reach init step s"
| reach_step: "reach init step s \<Longrightarrow> step s t \<Longrightarrow> reach init step t"


subsection \<open>The map interface\<close>

text \<open>
  What the components rely on when they use a Go map: a lookup after an insertion or a
  deletion, and that both keep the representation invariant.
\<close>

locale map_interface =
  fixes empty :: 'm
    and load :: "'m \<Rightarrow> 'k \<Rightarrow> 'v option"
    and store :: "'k \<Rightarrow> 'v \<Rightarrow> 'm \<Rightarrow> 'm"
    and delete :: "'k \<Rightarrow> 'm \<Rightarrow> 'm"
    and ok :: "'m \<Rightarrow> bool"
  assumes load_empty: "load empty k = None"
    and load_store: "load (store k v m) k' = (if k' = k then Some v else load m k')"
    and load_delete: "ok m \<Longrightarrow> load (delete k m) k' = (if k' = k then None else load m k')"
    and ok_empty: "ok empty"
    and ok_store: "ok m \<Longrightarrow> ok (store k v m)"
    and ok_delete: "ok m \<Longrightarrow> ok (delete k m)"
begin

lemma store_store: "load (store k v (store k v' m)) = load (store k v m)"
  by (rule ext) (simp add: load_store)

lemma store_delete: "ok m \<Longrightarrow> load (store k v (delete k m)) = load (store k v m)"
  by (rule ext) (simp add: load_store load_delete)

lemma ok_fold_delete: "ok m \<Longrightarrow> ok (fold delete ks m)"
  by (induction ks arbitrary: m) (auto simp: ok_delete)

lemma load_fold_delete:
  "ok m \<Longrightarrow> load (fold delete ks m) k = (if k \<in> set ks then None else load m k)"
proof (induction ks arbitrary: m)
  case (Cons a ks)
  then show ?case using Cons.IH [of "delete a m"] by (simp add: load_delete ok_delete)
qed simp

lemma ok_fold_store: "ok m \<Longrightarrow> ok (fold (\<lambda>x. store (f x) (g x)) xs m)"
  by (induction xs arbitrary: m) (auto simp: ok_store)

lemma load_fold_store_other:
  "k \<notin> f ` set xs \<Longrightarrow> load (fold (\<lambda>x. store (f x) (g x)) xs m) k = load m k"
  by (induction xs arbitrary: m) (auto simp: load_store)

lemma load_fold_store:
  assumes "inj_on f (set xs)" and "x \<in> set xs"
  shows "load (fold (\<lambda>x. store (f x) (g x)) xs m) (f x) = Some (g x)"
  using assms
proof (induction xs arbitrary: m)
  case (Cons a xs)
  show ?case
  proof (cases "x \<in> set xs")
    case True
    with Cons show ?thesis by (simp add: inj_on_insert)
  next
    case False
    with Cons.prems have xa: "x = a" by simp
    with False Cons.prems(1) have "f a \<notin> f ` set xs" by (auto simp: inj_on_def)
    then show ?thesis using xa by (simp add: load_fold_store_other load_store)
  qed
qed simp

end

interpretation gm: map_interface "[]" gm_load gm_store gm_delete gm_ok
proof unfold_locales
  fix m :: "('k, 'v) go_map" and k k' :: 'k and v :: 'v
  show "gm_load ([] :: ('k, 'v) go_map) k = None" by (simp add: gm_load_def)
  show "gm_load (gm_store k v m) k' = (if k' = k then Some v else gm_load m k')"
    by (simp add: gm_load_def gm_store_def update_conv')
  show "gm_ok m \<Longrightarrow> gm_load (gm_delete k m) k' = (if k' = k then None else gm_load m k')"
    by (simp add: gm_load_def gm_delete_def delete_conv')
  show "gm_ok ([] :: ('k, 'v) go_map)" by (simp add: gm_ok_def)
  show "gm_ok m \<Longrightarrow> gm_ok (gm_store k v m)"
    by (simp add: gm_ok_def gm_store_def distinct_update)
  show "gm_ok m \<Longrightarrow> gm_ok (gm_delete k m)"
    by (simp add: gm_ok_def gm_delete_def distinct_delete)
qed

lemmas gm_load_simps [simp, go_map_simps] = gm.load_empty gm.load_store
lemmas gm_ok_intros [simp, intro] = gm.ok_empty gm.ok_store gm.ok_delete

lemma gm_load_delete [simp, go_map_simps]:
  "gm_load (gm_delete k m) k' = (if k' = k then None else gm_load m k')"
  by (simp add: gm_load_def gm_delete_def delete_conv')

lemma gm_load_map_of: "gm_load m = map_of m"
  by (rule ext) (simp add: gm_load_def)

lemma finite_dom_gm [simp]: "finite (dom (gm_load m))"
  by (simp add: gm_load_map_of finite_dom_map_of)

lemma dom_gm_load: "dom (gm_load m) = fst ` set m"
  by (simp add: gm_load_map_of dom_map_of_conv_image_fst)

lemma gm_load_store_fun: "gm_load (gm_store k v m) = (gm_load m)(k \<mapsto> v)"
  by (rule ext) simp

lemma gm_load_delete_fun: "gm_load (gm_delete k m) = (gm_load m)(k := None)"
  by (rule ext) simp

lemma dom_gm_store [simp]: "dom (gm_load (gm_store k v m)) = insert k (dom (gm_load m))"
  by (simp add: gm_load_store_fun)

lemma dom_gm_delete [simp]: "dom (gm_load (gm_delete k m)) = dom (gm_load m) - {k}"
  by (simp add: gm_load_delete_fun)

lemma gm_load_eq_SomeD: "gm_load m k = Some v \<Longrightarrow> (k, v) \<in> set m"
  by (simp add: gm_load_def map_of_SomeD)

lemma gm_load_mem_iff: "gm_ok m \<Longrightarrow> gm_load m k = Some v \<longleftrightarrow> (k, v) \<in> set m"
  by (simp add: gm_load_def gm_ok_def)

lemma gm_load_None_iff: "gm_load m k = None \<longleftrightarrow> k \<notin> fst ` set m"
  by (simp add: gm_load_def map_of_eq_None_iff)

lemma gm_mem_iff: "gm_mem k m \<longleftrightarrow> k \<in> fst ` set m"
  by (simp add: gm_mem_def gm_load_def map_of_eq_None_iff)

lemma fst_set_gm_store [simp]: "fst ` set (gm_store k v m) = insert k (fst ` set m)"
  by (simp add: gm_store_def dom_update)

lemma gm_store_neq_Nil [simp]: "gm_store k v m \<noteq> []"
  by (cases m) (auto simp: gm_store_def)

lemma length_gm_store:
  "length (gm_store k v m) = (if gm_mem k m then length m else Suc (length m))"
  by (induction m) (auto simp: gm_store_def gm_mem_iff image_iff)

lemma set_gm_store_subset: "set (gm_store k v m) \<subseteq> insert (k, v) (set m)"
  by (induction m) (auto simp: gm_store_def)

lemma set_visits: "visits ord \<Longrightarrow> set (ord m) = set m"
  unfolding visits_def by (metis set_mset_mset)

lemma length_visits: "visits ord \<Longrightarrow> length (ord m) = length m"
  unfolding visits_def by (metis size_mset)

lemma distinct_visits: "visits ord \<Longrightarrow> gm_ok m \<Longrightarrow> distinct (map fst (ord m))"
  unfolding visits_def gm_ok_def
  by (metis mset_map mset_eq_imp_distinct_iff)

lemma visits_id: "visits (\<lambda>m. m)"
  by (simp add: visits_def)

lemma visits_rev: "visits rev"
  by (simp add: visits_def)


lemma ran_upd_inj:
  assumes "\<forall>h h' i. m h = Some i \<longrightarrow> m h' = Some i \<longrightarrow> h = h'"
  shows "ran (m(h \<mapsto> n)) = insert n (ran m - {i. m h = Some i})"
  using assms unfolding ran_def fun_upd_apply by (auto split: if_splits)

lemma ran_del_inj:
  assumes "\<forall>h h' i. m h = Some i \<longrightarrow> m h' = Some i \<longrightarrow> h = h'"
  shows "ran (m(h := None)) = ran m - {i. m h = Some i}"
  using assms unfolding ran_def fun_upd_apply by (auto split: if_splits)


subsection \<open>Fallible computations\<close>

lemma bindR_simps [simp, res_simps]: "bindR (Inr x) f = f x" "bindR (Inl e) f = Inl e"
  by (simp_all add: bindR_def)

lemma bindR_eq_Inr: "bindR r f = Inr y \<longleftrightarrow> (\<exists>x. r = Inr x \<and> f x = Inr y)"
  by (cases r) auto

lemma bindR_eq_Inl: "bindR r f = Inl e \<longleftrightarrow> r = Inl e \<or> (\<exists>x. r = Inr x \<and> f x = Inl e)"
  by (cases r) auto

lemma foldR_append: "foldR f (xs @ ys) s = bindR (foldR f xs s) (foldR f ys)"
proof (induction xs arbitrary: s)
  case (Cons x xs)
  then show ?case by (cases "f x s") simp_all
qed simp

text \<open>A property that every step keeps (where it returns) holds after the fold.\<close>

lemma foldR_invariant:
  assumes "foldR f xs s = Inr t" and "P s"
    and "\<And>x s t. x \<in> set xs \<Longrightarrow> P s \<Longrightarrow> f x s = Inr t \<Longrightarrow> P t"
  shows "P t"
  using assms
proof (induction xs arbitrary: s)
  case (Cons x xs)
  from Cons.prems(1) obtain u where u: "f x s = Inr u" and rest: "foldR f xs u = Inr t"
    by (auto simp: bindR_eq_Inr)
  have "P u" by (rule Cons.prems(3) [OF _ Cons.prems(2) u]) simp
  then show ?case by (rule Cons.IH [OF rest]) (auto intro: Cons.prems(3))
qed simp

text \<open>A fold returns when every step returns from a state with the invariant.\<close>

lemma foldR_returns:
  assumes "P s"
    and "\<And>x s. x \<in> set xs \<Longrightarrow> P s \<Longrightarrow> \<exists>t. f x s = Inr t \<and> P t"
  shows "\<exists>t. foldR f xs s = Inr t \<and> P t"
  using assms
proof (induction xs arbitrary: s)
  case (Cons x xs)
  from Cons.prems obtain u where "f x s = Inr u" and "P u" by fastforce
  with Cons show ?case by simp
qed simp


subsection \<open>Strings\<close>

lemma TrimPrefix_append [simp]: "TrimPrefix (p @ s) p = s"
  by (simp add: TrimPrefix_def)

lemma TrimPrefix_id: "\<not> prefix p s \<Longrightarrow> TrimPrefix s p = s"
  by (simp add: TrimPrefix_def)

lemma Contains_self [simp]: "Contains s s"
  by (simp add: Contains_def)

text \<open>Two strings without the separator are recovered from their concatenation with it.\<close>

lemma append_sep_inject:
  assumes "c \<notin> set a" and "c \<notin> set a'"
  shows "a @ c # b = a' @ c # b' \<longleftrightarrow> a = a' \<and> b = b'"
  using assms
proof (induction a arbitrary: a')
  case Nil
  then show ?case by (cases a') auto
next
  case (Cons x a)
  then show ?case by (cases a') auto
qed


subsection \<open>Invariants of step relations\<close>

lemma reach_steps: "step\<^sup>*\<^sup>* st st' \<Longrightarrow> reach init step st \<Longrightarrow> reach init step st'"
  by (induction rule: rtranclp_induct) (auto intro: reach_step)

locale inductive_invariant =
  fixes init :: "'s \<Rightarrow> bool" and step :: "'s \<Rightarrow> 's \<Rightarrow> bool" and inv :: "'s \<Rightarrow> bool"
  assumes inv_init: "init s \<Longrightarrow> inv s"
    and inv_step: "inv s \<Longrightarrow> step s t \<Longrightarrow> inv t"
begin

lemma inv_reach: "reach init step s \<Longrightarrow> inv s"
  by (induction rule: reach.induct) (auto intro: inv_init inv_step)

lemma inv_reach_step: "reach init step s \<Longrightarrow> step s t \<Longrightarrow> inv s \<and> inv t"
  by (auto intro: inv_step dest: inv_reach)

end

end
