(* ===== verification/Consul_Api.thy ===== *)
theory Consul_Api
  imports Esm_Prelude
begin

text \<open>
  The data of \<^verbatim>\<open>github.com/hashicorp/consul/api\<close> that the source reads and writes: one
  record per struct with the fields the source names, one constructor per verb. The
  package itself is not part of the repository, so its calls are parameters: a record of
  functions over an arbitrary state \<open>'w\<close> of the Consul servers, each of which returns the
  call's result and the new state. An error is the text of the Go error.
\<close>

abbreviation HealthAny :: string where "HealthAny \<equiv> ''any''"
abbreviation HealthPassing :: string where "HealthPassing \<equiv> ''passing''"
abbreviation HealthCritical :: string where "HealthCritical \<equiv> ''critical''"

record HealthCheckDefinition =
  def_HTTP :: string
  def_Header :: "(string, string list option) go_map" \<comment> \<open>\<open>None\<close> is the nil slice\<close>
  def_Method :: string
  def_TLSServerName :: string
  def_TLSSkipVerify :: bool
  def_TCP :: string
  def_GRPC :: string
  def_GRPCUseTLS :: bool
  def_IntervalDuration :: int
  def_TimeoutDuration :: int
  def_DeregisterCriticalServiceAfter :: int
  def_DeregisterCriticalServiceAfterDuration :: int

record HealthCheck =
  hc_Node :: string
  hc_CheckID :: string
  hc_Name :: string
  hc_Status :: string
  hc_Output :: string
  hc_ServiceID :: string
  hc_Namespace :: string
  hc_Partition :: string
  hc_Definition :: HealthCheckDefinition
  hc_ModifyIndex :: nat

record api_node =
  nd_ID :: string
  nd_Node :: string
  nd_Address :: string
  nd_Meta :: "(string, string) go_map option"
  nd_ModifyIndex :: nat

record AgentService =
  svc_ID :: string
  svc_Service :: string
  svc_Meta :: "(string, string) go_map"
  svc_Tags :: "string list"

record ServiceEntry =
  se_Service :: AgentService

record CatalogService =
  cs_ServiceID :: string
  cs_ServiceMeta :: "(string, string) go_map"

record KVPair =
  kp_Key :: string
  kp_Value :: string
  kp_ModifyIndex :: nat

datatype KVOp = KVSet | KVDeleteCAS | KVDeleteTree

record KVTxnOp =
  kv_Verb :: KVOp
  kv_Key :: string
  kv_Value :: string
  kv_Index :: nat
  kv_Partition :: string

datatype CheckOp = CheckSet | CheckCAS

datatype NodeOp = NodeDeleteCAS

datatype TxnOp =
    TxnKV KVTxnOp
  | TxnCheck CheckOp HealthCheck
  | TxnNode NodeOp string nat \<comment> \<open>the node's name and its \<^verbatim>\<open>ModifyIndex\<close>\<close>

record TxnError =
  te_OpIndex :: int
  te_What :: string

record QueryOptions =
  qo_Namespace :: string
  qo_Partition :: string
  qo_RequireConsistent :: bool
  qo_AllowStale :: bool
  qo_NodeMeta :: "(string, string) go_map"
  qo_WaitIndex :: nat
  qo_WaitTime :: int

text \<open>The zero values of Go's structs, from which the literals of the source start.\<close>

definition zero_definition :: HealthCheckDefinition where
  "zero_definition = \<lparr>def_HTTP = '''', def_Header = [], def_Method = '''',
     def_TLSServerName = '''', def_TLSSkipVerify = False, def_TCP = '''', def_GRPC = '''',
     def_GRPCUseTLS = False, def_IntervalDuration = 0, def_TimeoutDuration = 0,
     def_DeregisterCriticalServiceAfter = 0, def_DeregisterCriticalServiceAfterDuration = 0\<rparr>"

definition zero_check :: HealthCheck where
  "zero_check = \<lparr>hc_Node = '''', hc_CheckID = '''', hc_Name = '''', hc_Status = '''',
     hc_Output = '''', hc_ServiceID = '''', hc_Namespace = '''', hc_Partition = '''',
     hc_Definition = zero_definition, hc_ModifyIndex = 0\<rparr>"

definition zero_opts :: QueryOptions where
  "zero_opts = \<lparr>qo_Namespace = '''', qo_Partition = '''', qo_RequireConsistent = False,
     qo_AllowStale = False, qo_NodeMeta = [], qo_WaitIndex = 0, qo_WaitTime = 0\<rparr>"

text \<open>What the check runner calls of the client.\<close>

record 'w check_client =
  Health_Node :: "string \<Rightarrow> QueryOptions \<Rightarrow> 'w \<Rightarrow> (string + HealthCheck list) \<times> 'w"
  Txn_Txn :: "TxnOp list \<Rightarrow> QueryOptions option \<Rightarrow> 'w \<Rightarrow> (string + bool \<times> TxnError list) \<times> 'w"
  Catalog_Deregister :: "string \<Rightarrow> string \<Rightarrow> 'w \<Rightarrow> string option \<times> 'w"

end
