(* ===== verification/Batcher.thy ===== *)
theory Batcher
  imports Consul_Api
begin

text \<open>
  \<^verbatim>\<open>src/batcher.go\<close>: the queue that collects check updates in agentless mode.

  The batcher's state is a record; its mutex makes every operation's locked section one
  step (\<open>Add_locked\<close>, \<open>drainLocked\<close>), after which the drained updates go to the callback
  outside the lock. The callback \<open>processFunc\<close> is an argument over any state \<open>'s\<close>. The
  pending timer is the duration it was started with.

  The interface \<open>coalescing_queue\<close> says what the check runner may rely on: one pending
  update per key, the latest one; a drain hands over all of them. Its laws are discharged
  for the batcher at the end, for every order in which Go may iterate over the map.
\<close>

definition maxTxnOps :: int where
  "maxTxnOps = 64"

record pendingCheckUpdate =
  pu_check :: HealthCheck
  pu_status :: string
  pu_output :: string
  pu_oldStatus :: string
  pu_oldOutput :: string

record CheckUpdateBatcher =
  maxBatchSize :: int
  flushInterval :: int
  pendingUpdates :: "(string, pendingCheckUpdate) go_map"
  flushTimer :: "int option"

type_synonym 'v range_order = "(string, 'v) go_map \<Rightarrow> (string, 'v) go_map"

definition makeCheckKey :: "string \<Rightarrow> string \<Rightarrow> string" where
  "makeCheckKey node checkID = node @ ''/'' @ checkID"

definition NewCheckUpdateBatcher :: "int \<Rightarrow> int \<Rightarrow> CheckUpdateBatcher" where
  "NewCheckUpdateBatcher MaxBatchSize FlushInterval =
     \<lparr>maxBatchSize = (if MaxBatchSize = 0 then maxTxnOps else MaxBatchSize),
      flushInterval = FlushInterval, pendingUpdates = [], flushTimer = None\<rparr>"

definition drainLocked :: "pendingCheckUpdate range_order \<Rightarrow> CheckUpdateBatcher \<Rightarrow>
    pendingCheckUpdate list \<times> CheckUpdateBatcher" where
  "drainLocked ord b =
     (let b1 = (case flushTimer b of Some _ \<Rightarrow> b\<lparr>flushTimer := None\<rparr> | None \<Rightarrow> b) in
      if pendingUpdates b1 = [] then ([], b1)
      else (map snd (ord (pendingUpdates b1)), b1\<lparr>pendingUpdates := []\<rparr>))"

definition processUpdates :: "(pendingCheckUpdate list \<Rightarrow> 's \<Rightarrow> 's res) option \<Rightarrow>
    pendingCheckUpdate list \<Rightarrow> 's \<Rightarrow> 's res" where
  "processUpdates processFunc updates s =
     (case processFunc of
        Some f \<Rightarrow> if length updates > 0 then f updates s else Inr s
      | None \<Rightarrow> Inr s)"

text \<open>The part of \<^verbatim>\<open>Add\<close> under the lock: the updates to process after unlocking (none
  unless the batch is full) and the batcher.\<close>

definition Add_locked :: "pendingCheckUpdate range_order \<Rightarrow> pendingCheckUpdate \<Rightarrow>
    CheckUpdateBatcher \<Rightarrow> pendingCheckUpdate list \<times> CheckUpdateBatcher" where
  "Add_locked ord u b =
     (let checkKey = makeCheckKey (hc_Node (pu_check u)) (hc_CheckID (pu_check u));
          b1 = b\<lparr>pendingUpdates := gm_store checkKey u (pendingUpdates b)\<rparr> in
      if int (length (pendingUpdates b1)) \<ge> maxBatchSize b1 then drainLocked ord b1
      else if flushTimer b1 = None then ([], b1\<lparr>flushTimer := Some (flushInterval b1)\<rparr>)
      else ([], b1))"

definition Add :: "pendingCheckUpdate range_order \<Rightarrow>
    (pendingCheckUpdate list \<Rightarrow> 's \<Rightarrow> 's res) option \<Rightarrow>
    HealthCheck \<Rightarrow> string \<Rightarrow> string \<Rightarrow> string \<Rightarrow> string \<Rightarrow>
    CheckUpdateBatcher \<times> 's \<Rightarrow> (CheckUpdateBatcher \<times> 's) res" where
  "Add ord processFunc check status output oldStatus oldOutput st =
     (case Add_locked ord \<lparr>pu_check = check, pu_status = status, pu_output = output,
             pu_oldStatus = oldStatus, pu_oldOutput = oldOutput\<rparr> (fst st) of
        (updates, b) \<Rightarrow>
          bindR (processUpdates processFunc updates (snd st)) (\<lambda>s. Inr (b, s)))"

definition Flush :: "pendingCheckUpdate range_order \<Rightarrow>
    (pendingCheckUpdate list \<Rightarrow> 's \<Rightarrow> 's res) option \<Rightarrow>
    CheckUpdateBatcher \<times> 's \<Rightarrow> (CheckUpdateBatcher \<times> 's) res" where
  "Flush ord processFunc st =
     (case drainLocked ord (fst st) of (updates, b) \<Rightarrow>
        bindR (processUpdates processFunc updates (snd st)) (\<lambda>s. Inr (b, s)))"

definition Stop :: "pendingCheckUpdate range_order \<Rightarrow>
    (pendingCheckUpdate list \<Rightarrow> 's \<Rightarrow> 's res) option \<Rightarrow>
    CheckUpdateBatcher \<times> 's \<Rightarrow> (CheckUpdateBatcher \<times> 's) res" where
  "Stop ord processFunc st =
     (case drainLocked ord (fst st) of (updates, b) \<Rightarrow>
        bindR (processUpdates processFunc updates (snd st)) (\<lambda>s. Inr (b, s)))"


subsection \<open>Invariant and abstract state\<close>

definition update_key :: "pendingCheckUpdate \<Rightarrow> string" where
  "update_key u = makeCheckKey (hc_Node (pu_check u)) (hc_CheckID (pu_check u))"

text \<open>
  Keys are distinct and belong to their updates; a timer is armed exactly when something
  is pending, so no update waits without a flush to come; the batch is never full between
  two operations.
\<close>

definition batcher_inv :: "CheckUpdateBatcher \<Rightarrow> bool" where
  "batcher_inv b \<longleftrightarrow>
     gm_ok (pendingUpdates b) \<and>
     (\<forall>(k, u) \<in> set (pendingUpdates b). k = update_key u) \<and>
     (flushTimer b = None \<longleftrightarrow> pendingUpdates b = []) \<and>
     (pendingUpdates b = [] \<or> int (length (pendingUpdates b)) < maxBatchSize b)"

definition pending :: "CheckUpdateBatcher \<Rightarrow> string \<Rightarrow> pendingCheckUpdate option" where
  "pending b = gm_load (pendingUpdates b)"

text \<open>The values of a finite map, as a multiset.\<close>

definition ran_mset :: "('k \<Rightarrow> 'v option) \<Rightarrow> 'v multiset" where
  "ran_mset m = image_mset (\<lambda>k. the (m k)) (mset_set (dom m))"

text \<open>Operations of a queue in the order in which they happen, and their run: the queue
  and the batches handed over, in order.\<close>

datatype ('o, 'u) queue_op = Put 'o 'u | Drain 'o

fun queue_run :: "('o \<Rightarrow> 'u \<Rightarrow> 'b \<Rightarrow> 'u list \<times> 'b) \<Rightarrow> ('o \<Rightarrow> 'b \<Rightarrow> 'u list \<times> 'b) \<Rightarrow>
    ('o, 'u) queue_op list \<Rightarrow> 'b \<times> 'u list list \<Rightarrow> 'b \<times> 'u list list" where
  "queue_run put drain [] s = s"
| "queue_run put drain (Put ord u # ops) (b, out) =
     (let (us, b') = put ord u b in
      queue_run put drain ops (b', if us = [] then out else out @ [us]))"
| "queue_run put drain (Drain ord # ops) (b, out) =
     (let (us, b') = drain ord b in
      queue_run put drain ops (b', if us = [] then out else out @ [us]))"

fun op_order :: "('o, 'u) queue_op \<Rightarrow> 'o" where
  "op_order (Put ord u) = ord"
| "op_order (Drain ord) = ord"

fun puts :: "('o, 'u) queue_op list \<Rightarrow> 'u list" where
  "puts [] = []"
| "puts (Put ord u # ops) = u # puts ops"
| "puts (Drain ord # ops) = puts ops"


lemma queue_run_append:
  "queue_run put drain (ops @ ops') s = queue_run put drain ops' (queue_run put drain ops s)"
  by (induction put drain ops s rule: queue_run.induct) (auto split: prod.splits)


subsection \<open>The interface of a coalescing queue\<close>

locale coalescing_queue =
  fixes put :: "'o \<Rightarrow> 'u \<Rightarrow> 'b \<Rightarrow> 'u list \<times> 'b"
    and drain :: "'o \<Rightarrow> 'b \<Rightarrow> 'u list \<times> 'b"
    and pend :: "'b \<Rightarrow> 'k \<Rightarrow> 'u option"
    and key :: "'u \<Rightarrow> 'k"
    and ok :: "'b \<Rightarrow> bool"
    and valid :: "'o \<Rightarrow> bool"
  assumes finite_pend: "ok b \<Longrightarrow> finite (dom (pend b))"
    and pend_key: "ok b \<Longrightarrow> pend b k = Some u \<Longrightarrow> key u = k"
    and put_cases: "ok b \<Longrightarrow> valid ord \<Longrightarrow> put ord u b = (us, b') \<Longrightarrow>
      us = [] \<and> pend b' = (pend b)(key u \<mapsto> u) \<or>
      pend b' = Map.empty \<and> mset us = ran_mset ((pend b)(key u \<mapsto> u))"
    and put_ok: "ok b \<Longrightarrow> valid ord \<Longrightarrow> put ord u b = (us, b') \<Longrightarrow> ok b'"
    and drain_pend: "ok b \<Longrightarrow> valid ord \<Longrightarrow> drain ord b = (us, b') \<Longrightarrow>
      pend b' = Map.empty \<and> mset us = ran_mset (pend b)"
    and drain_ok: "ok b \<Longrightarrow> valid ord \<Longrightarrow> drain ord b = (us, b') \<Longrightarrow> ok b'"
begin

lemma set_ran_mset: "finite (dom m) \<Longrightarrow> set_mset (ran_mset m) = ran m"
  by (force simp: ran_mset_def ran_def dom_def)

lemma put_set:
  assumes "ok b" and "valid ord" and "put ord u b = (us, b')"
  shows "set us \<union> ran (pend b') = ran ((pend b)(key u \<mapsto> u))"
proof -
  have fin: "finite (dom ((pend b)(key u \<mapsto> u)))"
    using finite_pend [OF assms(1)] by simp
  from put_cases [OF assms] show ?thesis
  proof
    assume "us = [] \<and> pend b' = (pend b)(key u \<mapsto> u)"
    then show ?thesis by simp
  next
    assume h: "pend b' = Map.empty \<and> mset us = ran_mset ((pend b)(key u \<mapsto> u))"
    then have "set us = ran ((pend b)(key u \<mapsto> u))"
      using set_ran_mset [OF fin] by (metis set_mset_mset)
    with h show ?thesis by simp
  qed
qed

lemma drain_set:
  assumes "ok b" and "valid ord" and "drain ord b = (us, b')"
  shows "set us = ran (pend b)" and "pend b' = Map.empty"
  using drain_pend [OF assms] set_ran_mset [OF finite_pend [OF assms(1)]]
  by (metis set_mset_mset, simp)

text \<open>What has been handed over stays handed over.\<close>

lemma queue_run_out_mono:
  "x \<in> set (concat out) \<Longrightarrow> x \<in> set (concat (snd (queue_run put drain ops (b, out))))"
  by (induction put drain ops "(b, out)" arbitrary: b out rule: queue_run.induct)
    (auto split: prod.splits)

lemma queue_run_delivered:
  "u \<in> set us \<Longrightarrow>
   u \<in> set (concat (snd (queue_run put drain ops (b, if us = [] then out else out @ [us]))))"
  by (rule queue_run_out_mono) auto

lemma queue_run_ok:
  "ok b \<Longrightarrow> \<forall>p \<in> set ops. valid (op_order p) \<Longrightarrow> ok (fst (queue_run put drain ops (b, out)))"
proof (induction ops arbitrary: b out)
  case (Cons p ops)
  then show ?case
    by (cases p) (auto split: prod.splits intro: put_ok drain_ok)
qed simp

text \<open>
  A pending update is handed over, or stays pending, or is replaced by a later update of
  the same key.
\<close>

lemma queue_run_pending:
  assumes "ok b" and "\<forall>p \<in> set ops. valid (op_order p)" and "pend b k = Some u"
    and "k \<notin> key ` set (puts ops)"
  shows "pend (fst (queue_run put drain ops (b, out))) k = Some u \<or>
    u \<in> set (concat (snd (queue_run put drain ops (b, out))))"
  using assms
proof (induction ops arbitrary: b out)
  case (Cons p ops)
  show ?case
  proof (cases p)
    case (Put ord v)
    obtain us b' where pb: "put ord v b = (us, b')" by fastforce
    from Cons.prems Put have v: "valid ord" and kv: "k \<noteq> key v" by auto
    have ok': "ok b'" by (rule put_ok [OF Cons.prems(1) v pb])
    from Cons.prems(3) kv have old: "((pend b)(key v \<mapsto> v)) k = Some u" by simp
    from put_set [OF Cons.prems(1) v pb] old have "u \<in> set us \<or> u \<in> ran (pend b')"
      by (auto simp: ran_def)
    then show ?thesis
    proof
      assume "u \<in> set us"
      from queue_run_delivered [OF this, of ops b' out] Put pb show ?thesis by simp
    next
      assume "u \<in> ran (pend b')"
      then obtain k' where k': "pend b' k' = Some u" by (auto simp: ran_def)
      with pend_key ok' have "k' = key u" by auto
      moreover from pend_key Cons.prems(1,3) have "k = key u" by auto
      ultimately have "pend b' k = Some u" using k' by simp
      with Cons.IH [OF ok'] Cons.prems Put pb show ?thesis by auto
    qed
  next
    case (Drain ord)
    obtain us b' where db: "drain ord b = (us, b')" by fastforce
    from Cons.prems Drain have v: "valid ord" by auto
    from drain_set(1) [OF Cons.prems(1) v db] Cons.prems(3) have "u \<in> set us"
      by (auto simp: ran_def)
    from queue_run_delivered [OF this, of ops b' out] Drain db show ?thesis by simp
  qed
qed simp

lemma queue_run_last_put:
  assumes "ok b" and "\<forall>p \<in> set (Put ord u # ops). valid (op_order p)"
    and "key u \<notin> key ` set (puts ops)"
  shows "pend (fst (queue_run put drain (Put ord u # ops) (b, out))) (key u) = Some u \<or>
    u \<in> set (concat (snd (queue_run put drain (Put ord u # ops) (b, out))))"
proof -
  obtain us b' where pb: "put ord u b = (us, b')" by fastforce
  from assms have v: "valid ord" by simp
  have ok': "ok b'" by (rule put_ok [OF assms(1) v pb])
  have "u \<in> ran ((pend b)(key u \<mapsto> u))" by (auto simp: ran_def)
  with put_set [OF assms(1) v pb] have "u \<in> set us \<or> u \<in> ran (pend b')" by auto
  then show ?thesis
  proof
    assume "u \<in> set us"
    from queue_run_delivered [OF this, of ops b' out] pb show ?thesis by simp
  next
    assume "u \<in> ran (pend b')"
    then obtain k' where "pend b' k' = Some u" by (auto simp: ran_def)
    with pend_key [OF ok'] have "pend b' (key u) = Some u" by auto
    from queue_run_pending [OF ok' _ this] assms pb show ?thesis by auto
  qed
qed

end


subsection \<open>The batcher implements the interface\<close>

lemma ran_mset_gm: "gm_ok m \<Longrightarrow> ran_mset (gm_load m) = mset (map snd m)"
proof (induction m)
  case Nil
  then show ?case by (simp add: ran_mset_def gm_load_def)
next
  case (Cons kv m)
  obtain k v where kv: "kv = (k, v)" by fastforce
  from Cons.prems kv have km: "k \<notin> fst ` set m" and ok: "gm_ok m" by (auto simp: gm_ok_def)
  have dom: "dom (gm_load ((k, v) # m)) = insert k (dom (gm_load m))"
    by (auto simp: gm_load_def)
  have fin: "finite (dom (gm_load m))" by simp
  have nk: "k \<notin> dom (gm_load m)" using km by (simp add: dom_gm_load)
  have same: "image_mset (\<lambda>k'. the (gm_load ((k, v) # m) k')) (mset_set (dom (gm_load m)))
      = image_mset (\<lambda>k'. the (gm_load m k')) (mset_set (dom (gm_load m)))"
    using nk fin by (intro image_mset_cong) (auto simp: gm_load_def)
  have "ran_mset (gm_load ((k, v) # m)) = add_mset v (ran_mset (gm_load m))"
    unfolding ran_mset_def dom by (simp add: fin nk same) (simp add: gm_load_def)
  with Cons.IH [OF ok] kv show ?case by simp
qed

lemma drainLocked_simp:
  "drainLocked ord b =
     ((if pendingUpdates b = [] then [] else map snd (ord (pendingUpdates b))),
      b\<lparr>flushTimer := None, pendingUpdates := []\<rparr>)"
  by (cases b) (auto simp: drainLocked_def split: option.splits)

lemma batcher_inv_drained: "batcher_inv (b\<lparr>flushTimer := None, pendingUpdates := []\<rparr>)"
  by (simp add: batcher_inv_def)

lemma batcher_inv_New: "batcher_inv (NewCheckUpdateBatcher n i)"
  by (simp add: batcher_inv_def NewCheckUpdateBatcher_def)

lemma drainLocked_inv: "drainLocked ord b = (us, b') \<Longrightarrow> batcher_inv b'"
  by (auto simp: drainLocked_simp batcher_inv_drained)

lemma batcher_inv_stored:
  assumes "batcher_inv b"
  shows "gm_ok (gm_store (update_key u) u (pendingUpdates b))"
    and "\<forall>(k, v) \<in> set (gm_store (update_key u) u (pendingUpdates b)). k = update_key v"
  using assms set_gm_store_subset [of "update_key u" u "pendingUpdates b"]
  by (auto simp: batcher_inv_def)

lemma Add_locked_inv: "batcher_inv b \<Longrightarrow> Add_locked ord u b = (us, b') \<Longrightarrow> batcher_inv b'"
  using batcher_inv_stored [of b u]
  by (auto simp: Add_locked_def Let_def drainLocked_simp batcher_inv_drained
      update_key_def [symmetric] batcher_inv_def split: if_splits)

lemma Add_locked_full:
  "int (length (gm_store (update_key u) u (pendingUpdates b))) \<ge> maxBatchSize b \<Longrightarrow>
   Add_locked ord u b = (map snd (ord (gm_store (update_key u) u (pendingUpdates b))),
     b\<lparr>flushTimer := None, pendingUpdates := []\<rparr>)"
  by (simp add: Add_locked_def Let_def drainLocked_simp update_key_def [symmetric])

lemma Add_locked_queued:
  "int (length (gm_store (update_key u) u (pendingUpdates b))) < maxBatchSize b \<Longrightarrow>
   Add_locked ord u b = ([], b\<lparr>pendingUpdates := gm_store (update_key u) u (pendingUpdates b),
     flushTimer := (case flushTimer b of None \<Rightarrow> Some (flushInterval b) | Some t \<Rightarrow> Some t)\<rparr>)"
  by (cases b) (auto simp: Add_locked_def Let_def update_key_def [symmetric] split: option.splits)

lemma mset_map_snd_visits: "visits ord \<Longrightarrow> mset (map snd (ord m)) = mset (map snd m)"
  unfolding visits_def by (metis mset_map)

lemma drainLocked_mset:
  assumes "gm_ok (pendingUpdates b)" and "visits ord" and "drainLocked ord b = (us, b')"
  shows "pending b' = Map.empty \<and> mset us = ran_mset (pending b)"
proof -
  have "mset us = mset (map snd (pendingUpdates b))"
    using assms(2,3) mset_map_snd_visits [OF assms(2), of "pendingUpdates b"]
    by (auto simp: drainLocked_simp split: if_splits)
  with assms show ?thesis
    by (auto simp: drainLocked_simp pending_def ran_mset_gm)
qed

lemma Add_locked_cases:
  assumes inv: "batcher_inv b" and ord: "visits ord" and add: "Add_locked ord u b = (us, b')"
  shows "us = [] \<and> pending b' = (pending b)(update_key u \<mapsto> u) \<or>
    pending b' = Map.empty \<and> mset us = ran_mset ((pending b)(update_key u \<mapsto> u))"
proof -
  let ?m = "gm_store (update_key u) u (pendingUpdates b)"
  have load: "gm_load ?m = (pending b)(update_key u \<mapsto> u)"
    by (auto simp: pending_def)
  show ?thesis
  proof (cases "int (length ?m) \<ge> maxBatchSize b")
    case True
    with add have us: "us = map snd (ord ?m)"
      and b': "b' = b\<lparr>flushTimer := None, pendingUpdates := []\<rparr>"
      by (auto simp: Add_locked_full)
    have "mset us = ran_mset (gm_load ?m)"
      unfolding us mset_map_snd_visits [OF ord]
      by (rule ran_mset_gm [symmetric]) (rule batcher_inv_stored(1) [OF inv])
    with b' show ?thesis unfolding load by (auto simp: pending_def)
  next
    case False
    with add have "us = []" and "pendingUpdates b' = ?m"
      by (auto simp: Add_locked_queued split: option.splits)
    then show ?thesis unfolding load [symmetric] by (simp add: pending_def)
  qed
qed

interpretation bq: coalescing_queue Add_locked drainLocked pending update_key batcher_inv visits
proof unfold_locales
  fix b b' :: CheckUpdateBatcher and ord and u and us and k
  show "batcher_inv b \<Longrightarrow> finite (dom (pending b))"
    by (simp add: pending_def)
  show "batcher_inv b \<Longrightarrow> pending b k = Some u \<Longrightarrow> update_key u = k"
    by (auto simp: batcher_inv_def pending_def dest: gm_load_eq_SomeD)
  show "batcher_inv b \<Longrightarrow> visits ord \<Longrightarrow> Add_locked ord u b = (us, b') \<Longrightarrow>
      us = [] \<and> pending b' = (pending b)(update_key u \<mapsto> u) \<or>
      pending b' = Map.empty \<and> mset us = ran_mset ((pending b)(update_key u \<mapsto> u))"
    by (rule Add_locked_cases)
  show "batcher_inv b \<Longrightarrow> visits ord \<Longrightarrow> Add_locked ord u b = (us, b') \<Longrightarrow> batcher_inv b'"
    by (rule Add_locked_inv)
  show "batcher_inv b \<Longrightarrow> visits ord \<Longrightarrow> drainLocked ord b = (us, b') \<Longrightarrow>
      pending b' = Map.empty \<and> mset us = ran_mset (pending b)"
    by (rule drainLocked_mset) (simp_all add: batcher_inv_def)
  show "batcher_inv b \<Longrightarrow> visits ord \<Longrightarrow> drainLocked ord b = (us, b') \<Longrightarrow> batcher_inv b'"
    by (rule drainLocked_inv)
qed

subsection \<open>Properties\<close>

definition batch_wf :: "int \<Rightarrow> pendingCheckUpdate list \<Rightarrow> bool" where
  "batch_wf n us \<longleftrightarrow> us \<noteq> [] \<and> int (length us) \<le> n \<and> distinct (map update_key us)"

lemma keys_of_updates:
  "\<forall>(k, u) \<in> set m. k = update_key u \<Longrightarrow> map update_key (map snd m) = map fst m"
  by (induction m) auto

lemma batch_wf_visit:
  assumes "gm_ok m" and "\<forall>(k, u) \<in> set m. k = update_key u" and "m \<noteq> []"
    and "int (length m) \<le> n" and "visits ord"
  shows "batch_wf n (map snd (ord m))"
proof -
  have "\<forall>(k, u) \<in> set (ord m). k = update_key u" using assms(2) set_visits [OF assms(5)] by auto
  from keys_of_updates [OF this] distinct_visits [OF assms(5,1)] length_visits [OF assms(5), of m] assms(3,4)
  show ?thesis by (auto simp: batch_wf_def simp del: map_map)
qed

lemma drainLocked_wf:
  assumes "batcher_inv b" and "visits ord" and "drainLocked ord b = (us, b')" and "us \<noteq> []"
  shows "batch_wf (maxBatchSize b) us"
  using assms batch_wf_visit [of "pendingUpdates b" "maxBatchSize b" ord]
  by (auto simp: drainLocked_simp batcher_inv_def split: if_splits)

lemma Add_locked_wf:
  assumes "batcher_inv b" and "visits ord" and "Add_locked ord u b = (us, b')" and "us \<noteq> []"
    and "1 \<le> maxBatchSize b"
  shows "batch_wf (maxBatchSize b) us"
proof -
  let ?m = "gm_store (update_key u) u (pendingUpdates b)"
  have full: "int (length ?m) \<ge> maxBatchSize b"
    using assms(3,4) Add_locked_queued [of u b ord] by (cases "int (length ?m) < maxBatchSize b") auto
  have "int (length ?m) \<le> maxBatchSize b"
    using assms(1,5) by (auto simp: batcher_inv_def length_gm_store split: if_splits)
  moreover have "us = map snd (ord ?m)" using Add_locked_full [OF full, of ord] assms(3) by simp
  ultimately show ?thesis using batch_wf_visit [OF batcher_inv_stored [OF assms(1)] _ _ assms(2)] by simp
qed

lemma maxBatchSize_kept:
  "Add_locked ord u b = (us, b') \<Longrightarrow> maxBatchSize b' = maxBatchSize b"
  "drainLocked ord b = (us, b') \<Longrightarrow> maxBatchSize b' = maxBatchSize b"
  by (auto simp: Add_locked_def drainLocked_def Let_def split: if_splits option.splits)

lemma queue_run_wf:
  assumes "batcher_inv b" and "\<forall>p \<in> set ops. visits (op_order p)" and "1 \<le> maxBatchSize b"
    and "\<forall>us \<in> set out. batch_wf (maxBatchSize b) us"
  shows "\<forall>us \<in> set (snd (queue_run Add_locked drainLocked ops (b, out))). batch_wf (maxBatchSize b) us"
  using assms
proof (induction ops arbitrary: b out)
  case (Cons p ops)
  show ?case
  proof (cases p)
    case (Put ord u)
    obtain us b' where 1: "Add_locked ord u b = (us, b')" by fastforce
    from Cons.prems Put have v: "visits ord" "\<forall>p \<in> set ops. visits (op_order p)" by simp_all
    have "\<forall>us' \<in> set (if us = [] then out else out @ [us]). batch_wf (maxBatchSize b') us'"
      using Cons.prems(4) Add_locked_wf [OF Cons.prems(1) v(1) 1 _ Cons.prems(3)]
      by (simp add: maxBatchSize_kept(1) [OF 1])
    from Cons.IH [OF Add_locked_inv [OF Cons.prems(1) 1] v(2) _ this] Cons.prems(3)
    show ?thesis by (simp add: Put 1 maxBatchSize_kept(1) [OF 1])
  next
    case (Drain ord)
    obtain us b' where 1: "drainLocked ord b = (us, b')" by fastforce
    from Cons.prems Drain have v: "visits ord" "\<forall>p \<in> set ops. visits (op_order p)" by simp_all
    have "\<forall>us' \<in> set (if us = [] then out else out @ [us]). batch_wf (maxBatchSize b') us'"
      using Cons.prems(4) drainLocked_wf [OF Cons.prems(1) v(1) 1]
      by (simp add: maxBatchSize_kept(2) [OF 1])
    from Cons.IH [OF drainLocked_inv [OF 1] v(2) _ this] Cons.prems(3)
    show ?thesis by (simp add: Drain 1 maxBatchSize_kept(2) [OF 1])
  qed
qed simp

text \<open>C15. Whatever sequence of additions and flushes a batcher sees: its invariant holds at the end
  (a flush timer is armed exactly when something is pending, and the batch is not full), and
  every batch it hands over is non-empty, no larger than the configured size, and has at
  most one update per check.\<close>

theorem batcher_batches_wellformed:
  assumes "\<forall>p \<in> set ops. visits (op_order p)" and "0 \<le> n"
    and "queue_run Add_locked drainLocked ops (NewCheckUpdateBatcher n i, []) = (b, out)"
  shows "batcher_inv b \<and>
    (\<forall>us \<in> set out. us \<noteq> [] \<and> int (length us) \<le> (if n = 0 then 64 else n) \<and> distinct (map update_key us))"
proof -
  let ?b = "NewCheckUpdateBatcher n i"
  have m: "maxBatchSize ?b = (if n = 0 then 64 else n)"
    by (simp add: NewCheckUpdateBatcher_def maxTxnOps_def)
  have "batcher_inv b"
    using bq.queue_run_ok [where out = "[]", OF batcher_inv_New assms(1)] assms(3) by (metis fst_conv)
  moreover have "\<forall>us \<in> set out. batch_wf (maxBatchSize ?b) us"
    using queue_run_wf [OF batcher_inv_New assms(1), of n i "[]"] assms(2,3) m by (simp split: if_splits)
  ultimately show ?thesis unfolding m by (auto simp: batch_wf_def)
qed

definition two_updates :: "pendingCheckUpdate list" where
  "two_updates = map (\<lambda>i. \<lparr>pu_check = zero_check\<lparr>hc_Node := ''n'', hc_CheckID := i\<rparr>,
     pu_status = HealthCritical, pu_output = '''', pu_oldStatus = HealthPassing, pu_oldOutput = ''''\<rparr>)
     [''a'', ''b'']"

theorem batcher_batches_wellformed_witness:
  "length (hd (snd (queue_run Add_locked drainLocked (map (Put rev) two_updates)
     (NewCheckUpdateBatcher 2 1, [])))) = 2 \<and>
   distinct (map update_key (hd (snd (queue_run Add_locked drainLocked (map (Put rev) two_updates)
     (NewCheckUpdateBatcher 2 1, [])))))"
proof -
  obtain b out where r: "queue_run Add_locked drainLocked (map (Put rev) two_updates)
      (NewCheckUpdateBatcher 2 1, []) = (b, out)" by fastforce
  have l: "map length (snd (queue_run Add_locked drainLocked (map (Put rev) two_updates)
      (NewCheckUpdateBatcher 2 1, []))) = [2]" by code_simp
  then obtain us where "out = [us]" "length us = 2" using r by auto
  with batcher_batches_wellformed [OF _ _ r] r show ?thesis by (simp add: visits_rev)
qed



end
