(* ===== verification/Check_Runner.thy ===== *)
theory Check_Runner
  imports Batcher
begin

text \<open>
  \<^verbatim>\<open>src/check.go\<close>, first part: the check runner's state and \<^verbatim>\<open>UpdateChecks\<close>, which makes the
  set of running health checks match the catalog.

  \<^verbatim>\<open>checks\<close> maps a check's hash to a pointer: \<^verbatim>\<open>UpdateChecks\<close> allocates a fresh
  \<^verbatim>\<open>esmHealthCheck\<close> for every check it keeps, while timers and batches hold on to the old
  one, so the objects live in an explicit \<open>heap\<close>. The checkers of
  \<^verbatim>\<open>consul/agent/checks\<close> are outside the repository; what the runner does to them is the
  sequence of their starts and stops (\<open>events\<close>), by the identity each one gets when it
  is started.
\<close>

definition externalCheckName :: string where
  "externalCheckName = ''externalNodeHealth''"

definition defaultInterval :: int where
  "defaultInterval = 30 * Second"

definition defaultBatchFlushInterval :: int where
  "defaultBatchFlushInterval = 500 * Millisecond"

record tls_config =
  tls_InsecureSkipVerify :: bool
  tls_ServerName :: string

text \<open>Thresholds given to \<^verbatim>\<open>NewStatusHandler\<close>: passing, warning, critical.\<close>

type_synonym status_handler = "int \<times> int \<times> int"

record CheckHTTP =
  http_ref :: nat
  http_HTTP :: string
  http_Header :: "(string, string list option) go_map"
  http_Method :: string
  http_Interval :: int
  http_Timeout :: int
  http_TLSClientConfig :: tls_config
  http_StatusHandler :: status_handler

record CheckTCP =
  tcp_ref :: nat
  tcp_TCP :: string
  tcp_Interval :: int
  tcp_Timeout :: int
  tcp_StatusHandler :: status_handler

record CheckGRPC =
  grpc_ref :: nat
  grpc_GRPC :: string
  grpc_Interval :: int
  grpc_Timeout :: int
  grpc_TLSClientConfig :: "tls_config option"
  grpc_StatusHandler :: status_handler

record esmHealthCheck =
  esm_mu :: bool \<comment> \<open>the mutex is held\<close>
  esm_check :: HealthCheck
  failureCounter :: int
  successCounter :: int

text \<open>The timer of a deferred sync, with what its closure captured.\<close>

record deferTimer =
  dt_check :: nat
  dt_status :: string
  dt_output :: string
  dt_intv :: int

datatype checker_event = Started nat | Stopped nat

record CheckRunner =
  checks :: "(string, nat) go_map"
  checksHTTP :: "(string, CheckHTTP) go_map"
  checksTCP :: "(string, CheckTCP) go_map"
  checksGRPC :: "(string, CheckGRPC) go_map"
  checksCritical :: "(string, int) go_map"
  deferCheck :: "(string, deferTimer) go_map"
  batcher :: "CheckUpdateBatcher option"
  CheckUpdateInterval :: int
  MinimumInterval :: int
  tlsConfig :: tls_config
  PassingThreshold :: int
  CriticalThreshold :: int
  isAgentless :: bool
  heap :: "nat \<Rightarrow> esmHealthCheck"
  next_ref :: nat
  events :: "checker_event list"

type_synonym checkIDSet = "(string, bool) go_map"

definition zero_esm :: esmHealthCheck where
  "zero_esm = \<lparr>esm_mu = False, esm_check = zero_check, failureCounter = 0, successCounter = 0\<rparr>"

definition NewCheckRunner :: "int \<Rightarrow> int \<Rightarrow> tls_config \<Rightarrow> int \<Rightarrow> int \<Rightarrow> bool \<Rightarrow> int \<Rightarrow> CheckRunner" where
  "NewCheckRunner updateInterval minimumInterval tls passingThreshold criticalThreshold
     agentless batchFlushInterval =
     \<lparr>checks = [], checksHTTP = [], checksTCP = [], checksGRPC = [], checksCritical = [],
      deferCheck = [],
      batcher =
        (if agentless then
           (if batchFlushInterval = 0 then None
            else Some (NewCheckUpdateBatcher maxTxnOps
              (if batchFlushInterval < 0 then defaultBatchFlushInterval else batchFlushInterval)))
         else None),
      CheckUpdateInterval = updateInterval, MinimumInterval = minimumInterval, tlsConfig = tls,
      PassingThreshold = passingThreshold, CriticalThreshold = criticalThreshold,
      isAgentless = agentless, heap = (\<lambda>_. zero_esm), next_ref = 0, events = []\<rparr>"

definition hashCheck :: "HealthCheck \<Rightarrow> string" where
  "hashCheck check =
     (if hc_ServiceID check \<noteq> ''''
      then hc_Node check @ ''/'' @ hc_ServiceID check @ ''/'' @ hc_CheckID check
      else hc_Node check @ ''/'' @ hc_CheckID check)"

definition stop_checker :: "nat \<Rightarrow> CheckRunner \<Rightarrow> CheckRunner" where
  "stop_checker i r = r\<lparr>events := events r @ [Stopped i]\<rparr>"

definition stopExistingChecks ::
    "HealthCheckDefinition \<Rightarrow> string \<Rightarrow> CheckRunner \<Rightarrow> bool \<times> CheckRunner" where
  "stopExistingChecks definition checkHash c =
     (case gm_load (checksHTTP c) checkHash of
        Some httpCheck \<Rightarrow>
          (let c1 = stop_checker (http_ref httpCheck) c in
           (True, if def_HTTP definition = ''''
                  then c1\<lparr>checksHTTP := gm_delete checkHash (checksHTTP c1)\<rparr> else c1))
      | None \<Rightarrow>
        (case gm_load (checksTCP c) checkHash of
           Some tcpCheck \<Rightarrow>
             (let c1 = stop_checker (tcp_ref tcpCheck) c in
              (True, if def_TCP definition = ''''
                     then c1\<lparr>checksTCP := gm_delete checkHash (checksTCP c1)\<rparr> else c1))
         | None \<Rightarrow>
           (case gm_load (checksGRPC c) checkHash of
              Some grpcCheck \<Rightarrow>
                (let c1 = stop_checker (grpc_ref grpcCheck) c in
                 (True, if def_GRPC definition = ''''
                        then c1\<lparr>checksGRPC := gm_delete checkHash (checksGRPC c1)\<rparr> else c1))
            | None \<Rightarrow> (False, c))))"

definition headersAlmostEqual :: "(string, string list option) go_map \<Rightarrow>
    (string, string list option) go_map \<Rightarrow> bool" where
  "headersAlmostEqual h1 h2 =
     list_all (\<lambda>(k1, v1). k1 \<in> {''User-Agent'', ''Accept''} \<or>
        v1 = (case gm_load h2 k1 of None \<Rightarrow> None | Some v2 \<Rightarrow> v2)) h1"

definition tlsConfigsEqual :: "tls_config option \<Rightarrow> tls_config option \<Rightarrow> bool" where
  "tlsConfigsEqual c1 c2 =
     (c1 = None \<and> c2 = None \<or>
      (case (c1, c2) of
         (Some t1, Some t2) \<Rightarrow>
           tls_InsecureSkipVerify t1 = tls_InsecureSkipVerify t2 \<and>
           tls_ServerName t1 = tls_ServerName t2
       | _ \<Rightarrow> False))"

text \<open>The three checkers built from a definition, with the identity they start under.\<close>

definition clone_tls :: "CheckRunner \<Rightarrow> HealthCheckDefinition \<Rightarrow> tls_config" where
  "clone_tls c definition = (tlsConfig c)\<lparr>tls_InsecureSkipVerify := def_TLSSkipVerify definition,
     tls_ServerName := def_TLSServerName definition\<rparr>"

definition mkHTTP :: "CheckRunner \<Rightarrow> HealthCheckDefinition \<Rightarrow> CheckHTTP" where
  "mkHTTP c definition = \<lparr>http_ref = next_ref c, http_HTTP = def_HTTP definition,
     http_Header = def_Header definition, http_Method = def_Method definition,
     http_Interval = def_IntervalDuration definition,
     http_Timeout = def_TimeoutDuration definition,
     http_TLSClientConfig = clone_tls c definition,
     http_StatusHandler = (PassingThreshold c, CriticalThreshold c, CriticalThreshold c)\<rparr>"

definition mkTCP :: "CheckRunner \<Rightarrow> HealthCheckDefinition \<Rightarrow> CheckTCP" where
  "mkTCP c definition = \<lparr>tcp_ref = next_ref c, tcp_TCP = def_TCP definition,
     tcp_Interval = def_IntervalDuration definition,
     tcp_Timeout = def_TimeoutDuration definition,
     tcp_StatusHandler = (PassingThreshold c, CriticalThreshold c, CriticalThreshold c)\<rparr>"

definition mkGRPC :: "CheckRunner \<Rightarrow> HealthCheckDefinition \<Rightarrow> CheckGRPC" where
  "mkGRPC c definition = \<lparr>grpc_ref = next_ref c, grpc_GRPC = def_GRPC definition,
     grpc_Interval = def_IntervalDuration definition,
     grpc_Timeout = def_TimeoutDuration definition,
     grpc_TLSClientConfig =
       (if def_GRPCUseTLS definition then Some (clone_tls c definition) else None),
     grpc_StatusHandler = (PassingThreshold c, CriticalThreshold c, CriticalThreshold c)\<rparr>"

text \<open>The conditions under which a running checker is left alone.\<close>

definition unchangedHTTP :: "esmHealthCheck \<Rightarrow> CheckHTTP \<Rightarrow> CheckHTTP \<Rightarrow>
    HealthCheckDefinition \<Rightarrow> bool" where
  "unchangedHTTP check httpCheck http definition \<longleftrightarrow>
     http_HTTP httpCheck = http_HTTP http \<and>
     headersAlmostEqual (http_Header httpCheck) (http_Header http) \<and>
     http_Method httpCheck = http_Method http \<and>
     tls_InsecureSkipVerify (http_TLSClientConfig httpCheck) =
       tls_InsecureSkipVerify (http_TLSClientConfig http) \<and>
     tls_ServerName (http_TLSClientConfig httpCheck) = tls_ServerName (http_TLSClientConfig http) \<and>
     http_Interval httpCheck = http_Interval http \<and>
     http_Timeout httpCheck = http_Timeout http \<and>
     def_DeregisterCriticalServiceAfter (hc_Definition (esm_check check)) =
       def_DeregisterCriticalServiceAfter definition"

definition unchangedTCP :: "esmHealthCheck \<Rightarrow> CheckTCP \<Rightarrow> CheckTCP \<Rightarrow>
    HealthCheckDefinition \<Rightarrow> bool" where
  "unchangedTCP check tcpCheck tcp definition \<longleftrightarrow>
     tcp_TCP tcpCheck = tcp_TCP tcp \<and>
     tcp_Interval tcpCheck = tcp_Interval tcp \<and>
     tcp_Timeout tcpCheck = tcp_Timeout tcp \<and>
     def_DeregisterCriticalServiceAfter (hc_Definition (esm_check check)) =
       def_DeregisterCriticalServiceAfter definition"

definition unchangedGRPC :: "esmHealthCheck \<Rightarrow> CheckGRPC \<Rightarrow> CheckGRPC \<Rightarrow>
    HealthCheckDefinition \<Rightarrow> bool" where
  "unchangedGRPC check grpcCheck grpc definition \<longleftrightarrow>
     grpc_GRPC grpcCheck = grpc_GRPC grpc \<and>
     tlsConfigsEqual (grpc_TLSClientConfig grpcCheck) (grpc_TLSClientConfig grpc) \<and>
     grpc_Interval grpcCheck = grpc_Interval grpc \<and>
     grpc_Timeout grpcCheck = grpc_Timeout grpc \<and>
     def_GRPCUseTLS (hc_Definition (esm_check check)) = def_GRPCUseTLS definition \<and>
     def_DeregisterCriticalServiceAfter (hc_Definition (esm_check check)) =
       def_DeregisterCriticalServiceAfter definition"

definition startHTTP :: "CheckHTTP \<Rightarrow> string \<Rightarrow> CheckRunner \<Rightarrow> CheckRunner" where
  "startHTTP http checkHash c = c\<lparr>events := events c @ [Started (http_ref http)],
     next_ref := Suc (next_ref c), checksHTTP := gm_store checkHash http (checksHTTP c)\<rparr>"

definition startTCP :: "CheckTCP \<Rightarrow> string \<Rightarrow> CheckRunner \<Rightarrow> CheckRunner" where
  "startTCP tcp checkHash c = c\<lparr>events := events c @ [Started (tcp_ref tcp)],
     next_ref := Suc (next_ref c), checksTCP := gm_store checkHash tcp (checksTCP c)\<rparr>"

definition startGRPC :: "CheckGRPC \<Rightarrow> string \<Rightarrow> CheckRunner \<Rightarrow> CheckRunner" where
  "startGRPC grpc checkHash c = c\<lparr>events := events c @ [Started (grpc_ref grpc)],
     next_ref := Suc (next_ref c), checksGRPC := gm_store checkHash grpc (checksGRPC c)\<rparr>"

text \<open>The results are the returned flag, the runner, and the sets \<^verbatim>\<open>updated\<close>, \<^verbatim>\<open>added\<close>.\<close>

definition updateCheckHTTP :: "string \<Rightarrow> HealthCheckDefinition \<Rightarrow>
    CheckRunner \<times> checkIDSet \<times> checkIDSet \<Rightarrow>
    bool \<times> CheckRunner \<times> checkIDSet \<times> checkIDSet" where
  "updateCheckHTTP checkHash definition st =
     (case st of (c, updated, added) \<Rightarrow>
      (let http = mkHTTP c definition in
       case gm_load (checks c) checkHash of
         Some check \<Rightarrow>
           (if (case gm_load (checksHTTP c) checkHash of
                  Some httpCheck \<Rightarrow> unchangedHTTP (heap c check) httpCheck http definition
                | None \<Rightarrow> False)
            then (False, c, updated, added)
            else (case stopExistingChecks definition checkHash c of
                    (False, c1) \<Rightarrow> (False, c1, updated, added)
                  | (True, c1) \<Rightarrow>
                      (True, startHTTP http checkHash c1, gm_store checkHash True updated, added)))
       | None \<Rightarrow> (True, startHTTP http checkHash c, updated, gm_store checkHash True added)))"

definition updateCheckTCP :: "string \<Rightarrow> HealthCheckDefinition \<Rightarrow>
    CheckRunner \<times> checkIDSet \<times> checkIDSet \<Rightarrow>
    bool \<times> CheckRunner \<times> checkIDSet \<times> checkIDSet" where
  "updateCheckTCP checkHash definition st =
     (case st of (c, updated, added) \<Rightarrow>
      (let tcp = mkTCP c definition in
       case gm_load (checks c) checkHash of
         Some check \<Rightarrow>
           (if (case gm_load (checksTCP c) checkHash of
                  Some tcpCheck \<Rightarrow> unchangedTCP (heap c check) tcpCheck tcp definition
                | None \<Rightarrow> False)
            then (False, c, updated, added)
            else (case stopExistingChecks definition checkHash c of
                    (False, c1) \<Rightarrow> (False, c1, updated, added)
                  | (True, c1) \<Rightarrow>
                      (True, startTCP tcp checkHash c1, gm_store checkHash True updated, added)))
       | None \<Rightarrow> (True, startTCP tcp checkHash c, updated, gm_store checkHash True added)))"

definition updateCheckGRPC :: "string \<Rightarrow> HealthCheckDefinition \<Rightarrow>
    CheckRunner \<times> checkIDSet \<times> checkIDSet \<Rightarrow>
    bool \<times> CheckRunner \<times> checkIDSet \<times> checkIDSet" where
  "updateCheckGRPC checkHash definition st =
     (case st of (c, updated, added) \<Rightarrow>
      (let grpc = mkGRPC c definition in
       case gm_load (checks c) checkHash of
         Some check \<Rightarrow>
           (if (case gm_load (checksGRPC c) checkHash of
                  Some grpcCheck \<Rightarrow> unchangedGRPC (heap c check) grpcCheck grpc definition
                | None \<Rightarrow> False)
            then (False, c, updated, added)
            else (case stopExistingChecks definition checkHash c of
                    (False, c1) \<Rightarrow> (False, c1, updated, added)
                  | (True, c1) \<Rightarrow>
                      (True, startGRPC grpc checkHash c1, gm_store checkHash True updated, added)))
       | None \<Rightarrow> (True, startGRPC grpc checkHash c, updated, gm_store checkHash True added)))"

text \<open>The definition with its interval fixed up: the default for zero, never below the minimum.\<close>

definition fixInterval :: "CheckRunner \<Rightarrow> HealthCheckDefinition \<Rightarrow> HealthCheckDefinition" where
  "fixInterval c definition =
     (let d1 = (if def_IntervalDuration definition = 0
                then definition\<lparr>def_IntervalDuration := defaultInterval\<rparr> else definition) in
      if def_IntervalDuration d1 < MinimumInterval c
      then d1\<lparr>def_IntervalDuration := MinimumInterval c\<rparr> else d1)"

text \<open>Replacing the stored check by a fresh object that keeps the counters.\<close>

definition storeCheck :: "HealthCheck \<Rightarrow> string \<Rightarrow> CheckRunner \<Rightarrow> CheckRunner" where
  "storeCheck check checkHash c =
     (let a = next_ref c;
          fresh = \<lparr>esm_mu = False, esm_check = check, failureCounter = 0, successCounter = 0\<rparr>;
          updatedCheck =
            (case gm_load (checks c) checkHash of
               Some previousCheck \<Rightarrow>
                 fresh\<lparr>failureCounter := failureCounter (heap c previousCheck),
                       successCounter := successCounter (heap c previousCheck)\<rparr>
             | None \<Rightarrow> fresh) in
      c\<lparr>checks := gm_store checkHash a (gm_delete checkHash (checks c)),
        heap := (heap c)(a := updatedCheck), next_ref := Suc a\<rparr>)"

text \<open>One round of the first loop of \<^verbatim>\<open>UpdateChecks\<close>, with the set \<^verbatim>\<open>found\<close>.\<close>

definition updateOne :: "HealthCheck \<Rightarrow>
    CheckRunner \<times> checkIDSet \<times> checkIDSet \<times> checkIDSet \<Rightarrow>
    CheckRunner \<times> checkIDSet \<times> checkIDSet \<times> checkIDSet" where
  "updateOne check st =
     (case st of (c, found, updated, added) \<Rightarrow>
      (if hc_CheckID check = externalCheckName then st
       else
         (let checkHash = hashCheck check;
              definition = fixInterval c (hc_Definition check);
              keep = (\<lambda>(anyUpdates, c1, updated1, added1).
                (storeCheck check checkHash c1, gm_store checkHash True found, updated1, added1)) in
          if def_HTTP definition \<noteq> '''' then keep (updateCheckHTTP checkHash definition (c, updated, added))
          else if def_TCP definition \<noteq> '''' then keep (updateCheckTCP checkHash definition (c, updated, added))
          else if def_GRPC definition \<noteq> '''' then keep (updateCheckGRPC checkHash definition (c, updated, added))
          else st)))"

text \<open>One round of the loop over \<^verbatim>\<open>c.checks\<close> that removes what was not found.\<close>

definition removeOne :: "checkIDSet \<Rightarrow> string \<times> nat \<Rightarrow>
    CheckRunner \<times> checkIDSet \<Rightarrow> CheckRunner \<times> checkIDSet" where
  "removeOne found entry st =
     (case st of (c, removed) \<Rightarrow>
      (let checkHash = hashCheck (esm_check (heap c (snd entry))) in
       if gm_mem checkHash found then st
       else
         (let c1 = c\<lparr>checks := gm_delete checkHash (checks c),
                     checksCritical := gm_delete checkHash (checksCritical c)\<rparr>;
              c2 = (case gm_load (checksHTTP c1) checkHash of
                      Some httpCheck \<Rightarrow> (stop_checker (http_ref httpCheck) c1)
                        \<lparr>checksHTTP := gm_delete checkHash (checksHTTP c1)\<rparr>
                    | None \<Rightarrow> c1);
              c3 = (case gm_load (checksTCP c2) checkHash of
                      Some tcpCheck \<Rightarrow> (stop_checker (tcp_ref tcpCheck) c2)
                        \<lparr>checksTCP := gm_delete checkHash (checksTCP c2)\<rparr>
                    | None \<Rightarrow> c2);
              c4 = (case gm_load (checksGRPC c3) checkHash of
                      Some grpcCheck \<Rightarrow> (stop_checker (grpc_ref grpcCheck) c3)
                        \<lparr>checksGRPC := gm_delete checkHash (checksGRPC c3)\<rparr>
                    | None \<Rightarrow> c3) in
          (c4, gm_store checkHash True removed))))"

text \<open>The runner after \<^verbatim>\<open>UpdateChecks\<close>, and the sets found, added, updated, removed that it
  logs. \<open>ord\<close> is the order in which \<^verbatim>\<open>sync.Map.Range\<close> visits the checks.\<close>

definition UpdateChecks :: "nat range_order \<Rightarrow> HealthCheck list \<Rightarrow> CheckRunner \<Rightarrow>
    CheckRunner \<times> checkIDSet \<times> checkIDSet \<times> checkIDSet \<times> checkIDSet" where
  "UpdateChecks ord cs c =
     (case fold updateOne cs (c, [], [], []) of
        (c1, found, updated, added) \<Rightarrow>
          (case fold (removeOne found) (ord (checks c1)) (c1, []) of
             (c2, removed) \<Rightarrow> (c2, found, added, updated, removed)))"

definition ServiceExists :: "string \<Rightarrow> bool" where
  "ServiceExists serviceID = False"

end
