(* ===== verification/Check_Sync.thy ===== *)
theory Check_Sync
  imports Check_Runner
begin

text \<open>
  What \<^verbatim>\<open>UpdateChecks\<close> guarantees. The invariant \<open>runner_inv\<close> ties the four maps, the heap
  and the started checkers together; it is kept for every list of definitions that each
  name one protocol. On top of it: the watched checks are those of the catalog, each has
  one running checker with the parameters of its definition, nothing else runs, and a
  catalog that did not change restarts nothing.
\<close>

subsection \<open>Running checkers\<close>

definition apply_event :: "checker_event \<Rightarrow> nat set \<Rightarrow> nat set" where
  "apply_event e S = (case e of Started i \<Rightarrow> insert i S | Stopped i \<Rightarrow> S - {i})"

definition running :: "CheckRunner \<Rightarrow> nat set" where
  "running c = fold apply_event (events c) {}"

text \<open>The identity of the checker that serves a hash.\<close>

definition ref_at :: "CheckRunner \<Rightarrow> string \<Rightarrow> nat option" where
  "ref_at c h =
     (case gm_load (checksHTTP c) h of
        Some k \<Rightarrow> Some (http_ref k)
      | None \<Rightarrow> (case gm_load (checksTCP c) h of
          Some k \<Rightarrow> Some (tcp_ref k)
        | None \<Rightarrow> (case gm_load (checksGRPC c) h of
            Some k \<Rightarrow> Some (grpc_ref k)
          | None \<Rightarrow> None)))"

definition one_protocol :: "CheckRunner \<Rightarrow> bool" where
  "one_protocol c \<longleftrightarrow> (\<forall>h.
     (gm_load (checksHTTP c) h \<noteq> None \<longrightarrow> gm_load (checksTCP c) h = None \<and> gm_load (checksGRPC c) h = None) \<and>
     (gm_load (checksTCP c) h \<noteq> None \<longrightarrow> gm_load (checksGRPC c) h = None))"

definition refs_inv :: "CheckRunner \<Rightarrow> bool" where
  "refs_inv c \<longleftrightarrow>
     (\<forall>h i. ref_at c h = Some i \<longrightarrow> i < next_ref c) \<and>
     (\<forall>h h' i. ref_at c h = Some i \<longrightarrow> ref_at c h' = Some i \<longrightarrow> h = h') \<and>
     running c = ran (ref_at c)"

definition checks_inv :: "CheckRunner \<Rightarrow> bool" where
  "checks_inv c \<longleftrightarrow>
     gm_ok (checks c) \<and>
     (\<forall>h a. gm_load (checks c) h = Some a \<longrightarrow>
        a < next_ref c \<and> hashCheck (esm_check (heap c a)) = h) \<and>
     (\<forall>h h' a. gm_load (checks c) h = Some a \<longrightarrow> gm_load (checks c) h' = Some a \<longrightarrow> h = h')"

definition runner_inv :: "CheckRunner \<Rightarrow> bool" where
  "runner_inv c \<longleftrightarrow> one_protocol c \<and> refs_inv c \<and> checks_inv c \<and>
     dom (ref_at c) = dom (gm_load (checks c)) \<and>
     dom (gm_load (checksCritical c)) \<subseteq> dom (gm_load (checks c))"

text \<open>Definitions that name at most one protocol (header keys are distinct, as in any map).\<close>

definition single_protocol :: "HealthCheckDefinition \<Rightarrow> bool" where
  "single_protocol d \<longleftrightarrow> gm_ok (def_Header d) \<and>
     (def_HTTP d \<noteq> '''' \<longrightarrow> def_TCP d = '''' \<and> def_GRPC d = '''') \<and>
     (def_TCP d \<noteq> '''' \<longrightarrow> def_GRPC d = '''')"

text \<open>The checks of the catalog that the runner takes on.\<close>

definition runnable :: "HealthCheck \<Rightarrow> bool" where
  "runnable k \<longleftrightarrow> hc_CheckID k \<noteq> externalCheckName \<and>
     (def_HTTP (hc_Definition k) \<noteq> '''' \<or> def_TCP (hc_Definition k) \<noteq> '''' \<or>
      def_GRPC (hc_Definition k) \<noteq> '''')"

lemma running_append [simp]:
  "running (c\<lparr>events := events c @ es\<rparr>) = fold apply_event es (running c)"
  by (simp add: running_def)

lemma apply_event_simps [simp]:
  "apply_event (Started i) S = insert i S" "apply_event (Stopped i) S = S - {i}"
  by (simp_all add: apply_event_def)

lemma running_cong: "events c' = events c \<Longrightarrow> running c' = running c"
  by (simp add: running_def)

lemma ref_at_local:
  "gm_load (checksHTTP c') h = gm_load (checksHTTP c) h \<Longrightarrow>
   gm_load (checksTCP c') h = gm_load (checksTCP c) h \<Longrightarrow>
   gm_load (checksGRPC c') h = gm_load (checksGRPC c) h \<Longrightarrow> ref_at c' h = ref_at c h"
  unfolding ref_at_def by (simp only:)

lemma ref_at_cong:
  "checksHTTP c' = checksHTTP c \<Longrightarrow> checksTCP c' = checksTCP c \<Longrightarrow> checksGRPC c' = checksGRPC c
   \<Longrightarrow> ref_at c' = ref_at c"
  unfolding ref_at_def by (rule ext) (simp only:)


subsection \<open>One checker is started or replaced\<close>

text \<open>
  The effect of the three update functions on what runs: nothing, or the checker of one
  hash is replaced by a fresh one. Everything but the checkers is left alone.
\<close>

definition same_rest :: "CheckRunner \<Rightarrow> CheckRunner \<Rightarrow> bool" where
  "same_rest c c' \<longleftrightarrow> checks c' = checks c \<and> heap c' = heap c \<and>
     checksCritical c' = checksCritical c \<and> deferCheck c' = deferCheck c \<and>
     batcher c' = batcher c \<and> MinimumInterval c' = MinimumInterval c \<and>
     PassingThreshold c' = PassingThreshold c \<and> CriticalThreshold c' = CriticalThreshold c \<and>
     tlsConfig c' = tlsConfig c"

definition replaced :: "string \<Rightarrow> CheckRunner \<Rightarrow> CheckRunner \<Rightarrow> bool" where
  "replaced h c c' \<longleftrightarrow> next_ref c' = Suc (next_ref c) \<and>
     ref_at c' = (ref_at c)(h \<mapsto> next_ref c) \<and>
     running c' = insert (next_ref c) (running c - {i. ref_at c h = Some i}) \<and>
     (\<forall>h'. h' \<noteq> h \<longrightarrow> gm_load (checksHTTP c') h' = gm_load (checksHTTP c) h' \<and>
        gm_load (checksTCP c') h' = gm_load (checksTCP c) h' \<and>
        gm_load (checksGRPC c') h' = gm_load (checksGRPC c) h') \<and>
     one_protocol c'"

lemma same_rest_refl [simp]: "same_rest c c"
  by (simp add: same_rest_def)

lemma stopExistingChecks_rest:
  "stopExistingChecks d h c = (b, c') \<Longrightarrow> same_rest c c' \<and> next_ref c' = next_ref c"
  by (auto simp: stopExistingChecks_def stop_checker_def same_rest_def Let_def
      split: option.splits if_splits)

lemma stopExistingChecks_True:
  "ref_at c h \<noteq> None \<Longrightarrow> fst (stopExistingChecks d h c)"
  by (auto simp: stopExistingChecks_def ref_at_def Let_def split: option.splits)

lemma stopExistingChecks_running:
  "stopExistingChecks d h c = (b, c') \<Longrightarrow>
   running c' = running c - {i. ref_at c h = Some i}"
  by (auto simp: stopExistingChecks_def ref_at_def stop_checker_def running_def Let_def
      split: option.splits if_splits)

text \<open>After stopping, only the map of the definition's own protocol may still have the hash.\<close>

lemma stopExistingChecks_maps:
  assumes "stopExistingChecks d h c = (b, c')" and "one_protocol c"
  shows "gm_load (checksHTTP c') h' =
      (if h' = h \<and> def_HTTP d = '''' then None else gm_load (checksHTTP c) h')"
    and "gm_load (checksTCP c') h' =
      (if h' = h \<and> def_TCP d = '''' then None else gm_load (checksTCP c) h')"
    and "gm_load (checksGRPC c') h' =
      (if h' = h \<and> def_GRPC d = '''' then None else gm_load (checksGRPC c) h')"
proof -
  have p: "(gm_load (checksHTTP c) h \<noteq> None \<longrightarrow>
       gm_load (checksTCP c) h = None \<and> gm_load (checksGRPC c) h = None) \<and>
     (gm_load (checksTCP c) h \<noteq> None \<longrightarrow> gm_load (checksGRPC c) h = None)"
    using assms(2) unfolding one_protocol_def by blast
  show "gm_load (checksHTTP c') h' =
      (if h' = h \<and> def_HTTP d = '''' then None else gm_load (checksHTTP c) h')"
    "gm_load (checksTCP c') h' =
      (if h' = h \<and> def_TCP d = '''' then None else gm_load (checksTCP c) h')"
    "gm_load (checksGRPC c') h' =
      (if h' = h \<and> def_GRPC d = '''' then None else gm_load (checksGRPC c) h')"
    using assms(1) p
    by (auto simp: stopExistingChecks_def stop_checker_def Let_def split: option.splits if_splits)
qed

lemma startHTTP_replaced:
  assumes st: "stopExistingChecks d h c = (b, c')" and p: "one_protocol c"
    and s: "single_protocol d" "def_HTTP d \<noteq> ''''" and k: "http_ref k = next_ref c"
  shows "replaced h c (startHTTP k h c') \<and> same_rest c (startHTTP k h c')"
  using stopExistingChecks_rest [OF st] stopExistingChecks_running [OF st] p s k
  by (auto simp: replaced_def same_rest_def startHTTP_def ref_at_def fun_eq_iff running_def
      one_protocol_def single_protocol_def stopExistingChecks_maps [OF st p] split: option.splits)

lemma startTCP_replaced:
  assumes st: "stopExistingChecks d h c = (b, c')" and p: "one_protocol c"
    and s: "single_protocol d" "def_HTTP d = ''''" "def_TCP d \<noteq> ''''" and k: "tcp_ref k = next_ref c"
  shows "replaced h c (startTCP k h c') \<and> same_rest c (startTCP k h c')"
  using stopExistingChecks_rest [OF st] stopExistingChecks_running [OF st] p s k
  by (auto simp: replaced_def same_rest_def startTCP_def ref_at_def fun_eq_iff running_def
      one_protocol_def single_protocol_def stopExistingChecks_maps [OF st p] split: option.splits)

lemma startGRPC_replaced:
  assumes st: "stopExistingChecks d h c = (b, c')" and p: "one_protocol c"
    and s: "def_HTTP d = ''''" "def_TCP d = ''''" "def_GRPC d \<noteq> ''''" and k: "grpc_ref k = next_ref c"
  shows "replaced h c (startGRPC k h c') \<and> same_rest c (startGRPC k h c')"
  using stopExistingChecks_rest [OF st] stopExistingChecks_running [OF st] p s k
  by (auto simp: replaced_def same_rest_def startGRPC_def ref_at_def fun_eq_iff running_def
      one_protocol_def stopExistingChecks_maps [OF st p] split: option.splits)

text \<open>The stored check and the checkers of one hash, and a checker that has the parameters a
  definition asks for.\<close>

definition view :: "CheckRunner \<Rightarrow> string \<Rightarrow>
    esmHealthCheck option \<times> CheckHTTP option \<times> CheckTCP option \<times> CheckGRPC option" where
  "view c h = (map_option (heap c) (gm_load (checks c) h), gm_load (checksHTTP c) h,
     gm_load (checksTCP c) h, gm_load (checksGRPC c) h)"

definition serves :: "CheckRunner \<Rightarrow> string \<Rightarrow> HealthCheckDefinition \<Rightarrow> bool" where
  "serves c h d \<longleftrightarrow>
     (if def_HTTP d \<noteq> '''' then
        (\<exists>k. gm_load (checksHTTP c) h = Some k \<and> http_HTTP k = def_HTTP d \<and>
           headersAlmostEqual (http_Header k) (def_Header d) \<and> http_Method k = def_Method d \<and>
           http_Interval k = def_IntervalDuration d \<and> http_Timeout k = def_TimeoutDuration d \<and>
           tls_InsecureSkipVerify (http_TLSClientConfig k) = def_TLSSkipVerify d \<and>
           tls_ServerName (http_TLSClientConfig k) = def_TLSServerName d)
      else if def_TCP d \<noteq> '''' then
        (\<exists>k. gm_load (checksTCP c) h = Some k \<and> tcp_TCP k = def_TCP d \<and>
           tcp_Interval k = def_IntervalDuration d \<and> tcp_Timeout k = def_TimeoutDuration d)
      else
        (\<exists>k. gm_load (checksGRPC c) h = Some k \<and> grpc_GRPC k = def_GRPC d \<and>
           grpc_Interval k = def_IntervalDuration d \<and> grpc_Timeout k = def_TimeoutDuration d \<and>
           tlsConfigsEqual (grpc_TLSClientConfig k)
             (if def_GRPCUseTLS d then Some (clone_tls c d) else None)))"

lemma headersAlmostEqual_refl: "gm_ok h \<Longrightarrow> headersAlmostEqual h h"
  by (auto simp: headersAlmostEqual_def list_all_iff gm_load_mem_iff [symmetric] split: option.splits)

lemma tlsConfigsEqual_refl [simp]: "tlsConfigsEqual t t"
  by (cases t) (simp_all add: tlsConfigsEqual_def)

lemma stopExistingChecks_none: "ref_at c h = None \<Longrightarrow> stopExistingChecks d h c = (False, c)"
  by (auto simp: stopExistingChecks_def ref_at_def split: option.splits)

lemma stopExistingChecks_some:
  assumes "ref_at c h \<noteq> None"
  obtains c' where "stopExistingChecks d h c = (True, c')"
  using stopExistingChecks_True [OF assms, of d] by (cases "stopExistingChecks d h c") auto

lemma same_rest_clone: "same_rest c c' \<Longrightarrow> clone_tls c' d = clone_tls c d"
  by (simp add: same_rest_def clone_tls_def)

lemmas mk_simps = mkHTTP_def mkTCP_def mkGRPC_def clone_tls_def

text \<open>The common shape of the three effects: the checker is kept because it already serves
  the definition, or it is stopped and a new one is started.\<close>

definition update_effect :: "string \<Rightarrow> HealthCheckDefinition \<Rightarrow> CheckRunner \<Rightarrow> CheckRunner \<Rightarrow> bool" where
  "update_effect h d c c1 \<longleftrightarrow> same_rest c c1 \<and> serves c1 h d \<and>
     (c1 = c \<and> ref_at c h \<noteq> None \<or> replaced h c c1)"

lemma updateCheckHTTP_cases:
  assumes "updateCheckHTTP h d (c, u, a) = (b, c1, u1, a1)"
    and "dom (ref_at c) = dom (gm_load (checks c))" and "def_HTTP d \<noteq> ''''"
  shows "c1 = c \<and> ref_at c h \<noteq> None \<and> serves c h d \<or>
    (\<exists>b' c2. stopExistingChecks d h c = (b', c2) \<and> c1 = startHTTP (mkHTTP c d) h c2)"
proof (cases "ref_at c h")
  case None
  then have "gm_load (checks c) h = None" using assms(2) by blast
  with assms(1) None show ?thesis by (auto simp: updateCheckHTTP_def stopExistingChecks_none)
next
  case (Some i)
  then obtain ck where "gm_load (checks c) h = Some ck" using assms(2) by blast
  moreover obtain c2 where "stopExistingChecks d h c = (True, c2)"
    using Some stopExistingChecks_some [of c h d] by auto
  ultimately show ?thesis using assms(1,3) Some
    by (auto simp: updateCheckHTTP_def serves_def unchangedHTTP_def mk_simps Let_def
        split: option.splits if_splits)
qed

lemma updateCheckTCP_cases:
  assumes "updateCheckTCP h d (c, u, a) = (b, c1, u1, a1)"
    and "dom (ref_at c) = dom (gm_load (checks c))" and "def_HTTP d = ''''" "def_TCP d \<noteq> ''''"
  shows "c1 = c \<and> ref_at c h \<noteq> None \<and> serves c h d \<or>
    (\<exists>b' c2. stopExistingChecks d h c = (b', c2) \<and> c1 = startTCP (mkTCP c d) h c2)"
proof (cases "ref_at c h")
  case None
  then have "gm_load (checks c) h = None" using assms(2) by blast
  with assms(1) None show ?thesis by (auto simp: updateCheckTCP_def stopExistingChecks_none)
next
  case (Some i)
  then obtain ck where "gm_load (checks c) h = Some ck" using assms(2) by blast
  moreover obtain c2 where "stopExistingChecks d h c = (True, c2)"
    using Some stopExistingChecks_some [of c h d] by auto
  ultimately show ?thesis using assms(1,3,4) Some
    by (auto simp: updateCheckTCP_def serves_def unchangedTCP_def mk_simps Let_def
        split: option.splits if_splits)
qed

lemma updateCheckGRPC_cases:
  assumes "updateCheckGRPC h d (c, u, a) = (b, c1, u1, a1)"
    and "dom (ref_at c) = dom (gm_load (checks c))" and "def_HTTP d = ''''" "def_TCP d = ''''"
  shows "c1 = c \<and> ref_at c h \<noteq> None \<and> serves c h d \<or>
    (\<exists>b' c2. stopExistingChecks d h c = (b', c2) \<and> c1 = startGRPC (mkGRPC c d) h c2)"
proof (cases "ref_at c h")
  case None
  then have "gm_load (checks c) h = None" using assms(2) by blast
  with assms(1) None show ?thesis by (auto simp: updateCheckGRPC_def stopExistingChecks_none)
next
  case (Some i)
  then obtain ck where "gm_load (checks c) h = Some ck" using assms(2) by blast
  moreover obtain c2 where "stopExistingChecks d h c = (True, c2)"
    using Some stopExistingChecks_some [of c h d] by auto
  ultimately show ?thesis using assms(1,3,4) Some
    by (auto simp: updateCheckGRPC_def serves_def unchangedGRPC_def mkGRPC_def Let_def
        split: option.splits if_splits)
qed

lemma updateCheckHTTP_effect:
  assumes "updateCheckHTTP h d (c, u, a) = (b, c1, u1, a1)" and "one_protocol c"
    and "dom (ref_at c) = dom (gm_load (checks c))" and "single_protocol d" "def_HTTP d \<noteq> ''''"
  shows "update_effect h d c c1"
  using updateCheckHTTP_cases [OF assms(1,3,5)]
proof (elim disjE exE conjE)
  fix b' c2 assume stop: "stopExistingChecks d h c = (b', c2)"
    and c1: "c1 = startHTTP (mkHTTP c d) h c2"
  have "replaced h c c1 \<and> same_rest c c1"
    using startHTTP_replaced [OF stop assms(2,4,5), of "mkHTTP c d"] by (simp add: c1 mkHTTP_def)
  moreover have "serves c1 h d" using assms(4,5)
    by (simp add: serves_def c1 startHTTP_def mk_simps headersAlmostEqual_refl single_protocol_def)
  ultimately show ?thesis by (simp add: update_effect_def)
qed (simp add: update_effect_def)

lemma updateCheckTCP_effect:
  assumes "updateCheckTCP h d (c, u, a) = (b, c1, u1, a1)" and "one_protocol c"
    and "dom (ref_at c) = dom (gm_load (checks c))"
    and "single_protocol d" "def_HTTP d = ''''" "def_TCP d \<noteq> ''''"
  shows "update_effect h d c c1"
  using updateCheckTCP_cases [OF assms(1,3,5,6)]
proof (elim disjE exE conjE)
  fix b' c2 assume stop: "stopExistingChecks d h c = (b', c2)"
    and c1: "c1 = startTCP (mkTCP c d) h c2"
  have "replaced h c c1 \<and> same_rest c c1"
    using startTCP_replaced [OF stop assms(2,4,5,6), of "mkTCP c d"] by (simp add: c1 mkTCP_def)
  moreover have "serves c1 h d" using assms(5,6)
    by (simp add: serves_def c1 startTCP_def mk_simps)
  ultimately show ?thesis by (simp add: update_effect_def)
qed (simp add: update_effect_def)

lemma updateCheckGRPC_effect:
  assumes "updateCheckGRPC h d (c, u, a) = (b, c1, u1, a1)" and "one_protocol c"
    and "dom (ref_at c) = dom (gm_load (checks c))"
    and "def_HTTP d = ''''" "def_TCP d = ''''" "def_GRPC d \<noteq> ''''"
  shows "update_effect h d c c1"
  using updateCheckGRPC_cases [OF assms(1,3,4,5)]
proof (elim disjE exE conjE)
  fix b' c2 assume stop: "stopExistingChecks d h c = (b', c2)"
    and c1: "c1 = startGRPC (mkGRPC c d) h c2"
  have r: "replaced h c c1 \<and> same_rest c c1"
    using startGRPC_replaced [OF stop assms(2,4,5,6), of "mkGRPC c d"] by (simp add: c1 mkGRPC_def)
  have "clone_tls c1 d = clone_tls c d" using r by (simp add: same_rest_clone)
  then have "serves c1 h d" using assms(4,5)
    by (simp add: serves_def) (simp add: c1 startGRPC_def mkGRPC_def)
  with r show ?thesis by (simp add: update_effect_def)
qed (simp add: update_effect_def)

subsection \<open>The loop over the catalog's checks\<close>

definition config_same :: "CheckRunner \<Rightarrow> CheckRunner \<Rightarrow> bool" where
  "config_same c c' \<longleftrightarrow> MinimumInterval c' = MinimumInterval c \<and> tlsConfig c' = tlsConfig c"

lemma config_same_refl [simp]: "config_same c c"
  by (simp add: config_same_def)

lemma config_same_trans: "config_same c c' \<Longrightarrow> config_same c' c'' \<Longrightarrow> config_same c c''"
  by (simp add: config_same_def)

lemma fixInterval_simps [simp]:
  "def_HTTP (fixInterval c d) = def_HTTP d" "def_TCP (fixInterval c d) = def_TCP d"
  "def_GRPC (fixInterval c d) = def_GRPC d" "def_Header (fixInterval c d) = def_Header d"
  "def_GRPCUseTLS (fixInterval c d) = def_GRPCUseTLS d"
  "def_DeregisterCriticalServiceAfter (fixInterval c d) = def_DeregisterCriticalServiceAfter d"
  "single_protocol (fixInterval c d) = single_protocol d"
  by (simp_all add: fixInterval_def Let_def single_protocol_def)

lemma fixInterval_config: "config_same c c' \<Longrightarrow> fixInterval c' d = fixInterval c d"
  by (simp add: fixInterval_def config_same_def Let_def)

lemma serves_cong:
  "checksHTTP c' = checksHTTP c \<Longrightarrow> checksTCP c' = checksTCP c \<Longrightarrow> checksGRPC c' = checksGRPC c
   \<Longrightarrow> tlsConfig c' = tlsConfig c \<Longrightarrow> serves c' h d = serves c h d"
  unfolding serves_def clone_tls_def by (simp only:)

lemma serves_view:
  "view c' h = view c h \<Longrightarrow> config_same c c' \<Longrightarrow> serves c' h d = serves c h d"
  by (auto simp: serves_def view_def config_same_def clone_tls_def)

text \<open>Replacing one checker keeps identities distinct and the running set exact.\<close>

lemma refs_inv_replaced:
  assumes "refs_inv c" and "replaced h c c'"
  shows "refs_inv c'"
proof -
  have lt: "\<And>h i. ref_at c h = Some i \<Longrightarrow> i < next_ref c"
    and inj: "\<forall>h h' i. ref_at c h = Some i \<longrightarrow> ref_at c h' = Some i \<longrightarrow> h = h'"
    and run: "running c = ran (ref_at c)"
    using assms(1) by (auto simp: refs_inv_def)
  have "running c' = ran (ref_at c')"
    using assms(2) run ran_upd_inj [OF inj] by (simp add: replaced_def)
  moreover have "\<forall>h i. ref_at c' h = Some i \<longrightarrow> i < next_ref c'"
    using assms(2) lt by (auto simp: replaced_def less_Suc_eq)
  moreover have "\<forall>h h' i. ref_at c' h = Some i \<longrightarrow> ref_at c' h' = Some i \<longrightarrow> h = h'"
    using assms(2) lt inj by (auto simp: replaced_def)
  ultimately show ?thesis by (simp add: refs_inv_def)
qed

lemma storeCheck_simps [simp]:
  "checksHTTP (storeCheck k h c) = checksHTTP c" "checksTCP (storeCheck k h c) = checksTCP c"
  "checksGRPC (storeCheck k h c) = checksGRPC c" "events (storeCheck k h c) = events c"
  "checksCritical (storeCheck k h c) = checksCritical c"
  "deferCheck (storeCheck k h c) = deferCheck c" "batcher (storeCheck k h c) = batcher c"
  "next_ref (storeCheck k h c) = Suc (next_ref c)"
  "gm_load (checks (storeCheck k h c)) = (gm_load (checks c))(h \<mapsto> next_ref c)"
  "running (storeCheck k h c) = running c"
  "one_protocol (storeCheck k h c) = one_protocol c" "config_same c (storeCheck k h c)"
  by (auto simp: storeCheck_def Let_def running_def one_protocol_def fun_eq_iff config_same_def)

lemma ref_at_storeCheck [simp]: "ref_at (storeCheck k h c) = ref_at c"
  by (rule ref_at_cong) simp_all

lemma heap_storeCheck:
  "heap (storeCheck k h c) a =
     (if a = next_ref c
      then \<lparr>esm_mu = False, esm_check = k,
            failureCounter = (case gm_load (checks c) h of None \<Rightarrow> 0 | Some p \<Rightarrow> failureCounter (heap c p)),
            successCounter = (case gm_load (checks c) h of None \<Rightarrow> 0 | Some p \<Rightarrow> successCounter (heap c p))\<rparr>
      else heap c a)"
  by (auto simp: storeCheck_def Let_def split: option.splits)

lemma checks_inv_storeCheck:
  assumes "checks_inv c" and "hashCheck k = h"
  shows "checks_inv (storeCheck k h c)"
proof -
  have "gm_ok (checks (storeCheck k h c))"
    using assms(1) by (simp add: checks_inv_def storeCheck_def Let_def)
  then show ?thesis using assms
    by (auto simp: checks_inv_def heap_storeCheck less_Suc_eq split: if_splits)
qed

text \<open>One round for a runnable check: keep the invariant, serve the check, leave every other
  hash as it was.\<close>

lemma store_effect:
  assumes inv: "runner_inv c" and eff: "update_effect h d c c1" and k: "hashCheck k = h"
  defines "c2 \<equiv> storeCheck k h c1"
  shows "runner_inv c2" and "serves c2 h d" and "config_same c c2"
    and "dom (gm_load (checks c2)) = insert h (dom (gm_load (checks c)))"
    and "\<And>h'. h' \<noteq> h \<Longrightarrow> view c2 h' = view c h'"
    and "map_option esm_check (fst (view c2 h)) = Some k"
    and "map_option failureCounter (fst (view c2 h)) =
      Some (case fst (view c h) of None \<Rightarrow> 0 | Some p \<Rightarrow> failureCounter p)"
    and "map_option successCounter (fst (view c2 h)) =
      Some (case fst (view c h) of None \<Rightarrow> 0 | Some p \<Rightarrow> successCounter p)"
proof -
  have rest: "same_rest c c1" and serv: "serves c1 h d"
    using eff by (simp_all add: update_effect_def)
  have ch: "checks c1 = checks c" "heap c1 = heap c" "checksCritical c1 = checksCritical c"
    using rest by (simp_all add: same_rest_def)
  have cfg: "config_same c c1" using rest by (simp add: same_rest_def config_same_def)
  show cfg2: "config_same c c2" unfolding c2_def by (rule config_same_trans [OF cfg]) simp
  have le: "next_ref c \<le> next_ref c1"
    using eff by (auto simp: update_effect_def replaced_def)
  have ci1: "checks_inv c1"
    using inv le unfolding runner_inv_def checks_inv_def ch by (auto intro: less_le_trans)
  have ri1: "refs_inv c1 \<and> one_protocol c1 \<and> dom (ref_at c1) = insert h (dom (ref_at c))"
  proof (cases "replaced h c c1")
    case True
    moreover have "refs_inv c1" using refs_inv_replaced [OF _ True] inv by (simp add: runner_inv_def)
    ultimately show ?thesis by (simp add: replaced_def)
  next
    case False
    with eff inv show ?thesis by (auto simp: update_effect_def runner_inv_def simp del: domIff)
  qed
  show dom2: "dom (gm_load (checks c2)) = insert h (dom (gm_load (checks c)))"
    by (simp add: c2_def ch)
  have "refs_inv c2" using ri1 by (simp add: c2_def refs_inv_def less_Suc_eq)
  moreover have "dom (ref_at c2) = dom (gm_load (checks c2))"
    unfolding dom2 using ri1 inv by (simp add: c2_def runner_inv_def)
  moreover have "dom (gm_load (checksCritical c2)) \<subseteq> dom (gm_load (checks c2))"
    unfolding dom2 using inv by (auto simp: c2_def runner_inv_def ch)
  moreover have "one_protocol c2" "checks_inv c2"
    using ri1 checks_inv_storeCheck [OF ci1 k] by (simp_all add: c2_def)
  ultimately show "runner_inv c2" by (simp add: runner_inv_def)
  show "serves c2 h d" using serv serves_cong [of c2 c1]
    by (simp add: c2_def storeCheck_def Let_def)
  show "view c2 h' = view c h'" if "h' \<noteq> h" for h'
  proof -
    have "map_option (heap c2) (gm_load (checks c) h') = map_option (heap c) (gm_load (checks c) h')"
      using inv le by (cases "gm_load (checks c) h'")
        (fastforce simp: c2_def heap_storeCheck ch runner_inv_def checks_inv_def)+
    with that show ?thesis using eff
      by (auto simp: view_def c2_def ch update_effect_def replaced_def)
  qed
  show "map_option esm_check (fst (view c2 h)) = Some k"
    by (simp add: view_def c2_def heap_storeCheck)
  show "map_option failureCounter (fst (view c2 h)) =
      Some (case fst (view c h) of None \<Rightarrow> 0 | Some p \<Rightarrow> failureCounter p)"
    by (auto simp: view_def c2_def heap_storeCheck ch split: option.splits)
  show "map_option successCounter (fst (view c2 h)) =
      Some (case fst (view c h) of None \<Rightarrow> 0 | Some p \<Rightarrow> successCounter p)"
    by (auto simp: view_def c2_def heap_storeCheck ch split: option.splits)
qed

lemma updateOne_skip: "\<not> runnable k \<Longrightarrow> updateOne k st = st"
  by (cases st) (auto simp: updateOne_def runnable_def Let_def)

lemma updateOne_effect:
  assumes "updateOne k (c, f, u, a) = (c2, f2, u2, a2)" and "runner_inv c" and "runnable k"
    and "single_protocol (hc_Definition k)"
  obtains c1 where "update_effect (hashCheck k) (fixInterval c (hc_Definition k)) c c1"
    and "c2 = storeCheck k (hashCheck k) c1" and "f2 = gm_store (hashCheck k) True f"
proof -
  let ?h = "hashCheck k" and ?d = "fixInterval c (hc_Definition k)"
  have p: "one_protocol c" and dom: "dom (ref_at c) = dom (gm_load (checks c))"
    using assms(2) by (simp_all add: runner_inv_def)
  have s: "single_protocol ?d" using assms(4) by simp
  have ext: "hc_CheckID k \<noteq> externalCheckName" using assms(3) by (simp add: runnable_def)
  consider (http) "def_HTTP ?d \<noteq> ''''" | (tcp) "def_HTTP ?d = ''''" "def_TCP ?d \<noteq> ''''"
    | (grpc) "def_HTTP ?d = ''''" "def_TCP ?d = ''''" "def_GRPC ?d \<noteq> ''''"
    using assms(3) by (auto simp: runnable_def)
  then show ?thesis
  proof cases
    case http
    obtain b c1 u1 a1 where up: "updateCheckHTTP ?h ?d (c, u, a) = (b, c1, u1, a1)"
      using prod_cases4 by blast
    with http ext assms(1) show ?thesis
      using that [OF updateCheckHTTP_effect [OF up p dom s http]] by (simp add: updateOne_def Let_def)
  next
    case tcp
    obtain b c1 u1 a1 where up: "updateCheckTCP ?h ?d (c, u, a) = (b, c1, u1, a1)"
      using prod_cases4 by blast
    with tcp ext assms(1) show ?thesis
      using that [OF updateCheckTCP_effect [OF up p dom s tcp]] by (simp add: updateOne_def Let_def)
  next
    case grpc
    obtain b c1 u1 a1 where up: "updateCheckGRPC ?h ?d (c, u, a) = (b, c1, u1, a1)"
      using prod_cases4 by blast
    with grpc ext assms(1) show ?thesis
      using that [OF updateCheckGRPC_effect [OF up p dom grpc]] by (simp add: updateOne_def Let_def)
  qed
qed

definition hashes :: "HealthCheck list \<Rightarrow> string set" where
  "hashes cs = hashCheck ` {k \<in> set cs. runnable k}"

lemma hashes_simps [simp]:
  "hashes [] = {}"
  "hashes (k # cs) = (if runnable k then insert (hashCheck k) (hashes cs) else hashes cs)"
  "hashes (xs @ ys) = hashes xs \<union> hashes ys"
  by (auto simp: hashes_def)

lemma in_hashesI: "k \<in> set cs \<Longrightarrow> runnable k \<Longrightarrow> hashCheck k \<in> hashes cs"
  by (auto simp: hashes_def)

definition loop_effect :: "string set \<Rightarrow> CheckRunner \<times> checkIDSet \<Rightarrow> CheckRunner \<times> checkIDSet \<Rightarrow> bool" where
  "loop_effect H s s' \<longleftrightarrow> runner_inv (fst s') \<and> config_same (fst s) (fst s') \<and>
     dom (gm_load (snd s')) = dom (gm_load (snd s)) \<union> H \<and>
     dom (gm_load (checks (fst s'))) = dom (gm_load (checks (fst s))) \<union> H \<and>
     (\<forall>h. h \<notin> H \<longrightarrow> view (fst s') h = view (fst s) h)"

lemma loop_effect_trans:
  "loop_effect H s s' \<Longrightarrow> loop_effect H' s' s'' \<Longrightarrow> loop_effect (H \<union> H') s s''"
  by (auto simp: loop_effect_def config_same_def)

lemma updateOne_loop_effect:
  assumes "updateOne k (c, f, u, a) = (c2, f2, u2, a2)" and "runner_inv c"
    and "single_protocol (hc_Definition k)"
  shows "loop_effect (hashes [k]) (c, f) (c2, f2)"
proof (cases "runnable k")
  case True
  then have H: "hashes [k] = {hashCheck k}" by auto
  from updateOne_effect [OF assms(1,2) True assms(3)] obtain c1
    where eff: "update_effect (hashCheck k) (fixInterval c (hc_Definition k)) c c1"
      and c2: "c2 = storeCheck k (hashCheck k) c1" and f2: "f2 = gm_store (hashCheck k) True f" .
  note st = store_effect [OF assms(2) eff refl, folded c2]
  show ?thesis unfolding loop_effect_def H using st(1,3,4,5) by (simp add: f2 del: domIff)
next
  case False
  then have H: "hashes [k] = {}" by auto
  from updateOne_skip [OF False, of "(c, f, u, a)"] assms show ?thesis
    unfolding H by (simp add: loop_effect_def)
qed

lemma fold_updateOne_effect:
  assumes "fold updateOne cs (c, f, u, a) = (c2, f2, u2, a2)" and "runner_inv c"
    and "\<forall>k \<in> set cs. single_protocol (hc_Definition k)"
  shows "loop_effect (hashes cs) (c, f) (c2, f2)"
  using assms
proof (induction cs arbitrary: c f u a)
  case Nil
  then show ?case by (simp add: loop_effect_def)
next
  case (Cons k cs)
  obtain c1 f1 u1 a1 where up: "updateOne k (c, f, u, a) = (c1, f1, u1, a1)"
    using prod_cases4 by blast
  have 1: "loop_effect (hashes [k]) (c, f) (c1, f1)"
    using updateOne_loop_effect [OF up Cons.prems(2)] Cons.prems(3) by simp
  have 2: "loop_effect (hashes cs) (c1, f1) (c2, f2)"
    by (rule Cons.IH) (use Cons.prems up 1 in \<open>auto simp: loop_effect_def\<close>)
  from loop_effect_trans [OF 1 2] show ?case by (simp split: if_splits)
qed

text \<open>The last check of the list with its hash is stored and served after the loop.\<close>

lemma fold_updateOne_serves:
  assumes f: "fold updateOne (xs @ k # ys) (c, f, u, a) = (c2, f2, u2, a2)" and inv: "runner_inv c"
    and s: "\<forall>k' \<in> set (xs @ k # ys). single_protocol (hc_Definition k')"
    and k: "runnable k" "hashCheck k \<notin> hashes ys"
  shows "serves c2 (hashCheck k) (fixInterval c2 (hc_Definition k)) \<and>
    map_option esm_check (fst (view c2 (hashCheck k))) = Some k"
proof -
  let ?h = "hashCheck k"
  obtain c0 f0 u0 a0 where 0: "fold updateOne xs (c, f, u, a) = (c0, f0, u0, a0)"
    using prod_cases4 by blast
  obtain c1 f1 u1 a1 where 1: "updateOne k (c0, f0, u0, a0) = (c1, f1, u1, a1)"
    using prod_cases4 by blast
  have 2: "fold updateOne ys (c1, f1, u1, a1) = (c2, f2, u2, a2)" using f 0 1 by simp
  have inv0: "runner_inv c0"
    using fold_updateOne_effect [OF 0 inv] s by (simp add: loop_effect_def)
  obtain c' where eff: "update_effect ?h (fixInterval c0 (hc_Definition k)) c0 c'"
    and c1: "c1 = storeCheck k ?h c'"
    using updateOne_effect [OF 1 inv0 k(1)] s by auto
  note st = store_effect [OF inv0 eff refl, folded c1]
  have e2: "loop_effect (hashes ys) (c1, f1) (c2, f2)"
    using fold_updateOne_effect [OF 2 st(1)] s by simp
  then have cfg: "config_same c1 c2" and vw: "view c2 ?h = view c1 ?h"
    using k(2) by (auto simp: loop_effect_def)
  have "fixInterval c2 (hc_Definition k) = fixInterval c0 (hc_Definition k)"
    using fixInterval_config [OF cfg] fixInterval_config [OF st(3)] by simp
  then show ?thesis using st(2,6) serves_view [OF vw cfg] vw by simp
qed

subsection \<open>The loop that removes checks\<close>

definition forget :: "string \<Rightarrow> CheckRunner \<Rightarrow> CheckRunner \<Rightarrow> bool" where
  "forget h c c' \<longleftrightarrow> heap c' = heap c \<and> next_ref c' = next_ref c \<and> config_same c c' \<and>
     gm_ok (checks c') \<and> gm_load (checks c') = (gm_load (checks c))(h := None) \<and>
     gm_load (checksCritical c') = (gm_load (checksCritical c))(h := None) \<and>
     gm_load (checksHTTP c') = (gm_load (checksHTTP c))(h := None) \<and>
     gm_load (checksTCP c') = (gm_load (checksTCP c))(h := None) \<and>
     gm_load (checksGRPC c') = (gm_load (checksGRPC c))(h := None) \<and>
     running c' = running c - {i. ref_at c h = Some i}"

lemma removeOne_forget:
  assumes "removeOne found (h, a) (c, rem) = (c', rem')" and "one_protocol c" and "gm_ok (checks c)"
    and "hashCheck (esm_check (heap c a)) = h" and "gm_load found h = None"
  shows "forget h c c'"
proof -
  have p: "(gm_load (checksHTTP c) h \<noteq> None \<longrightarrow>
       gm_load (checksTCP c) h = None \<and> gm_load (checksGRPC c) h = None) \<and>
     (gm_load (checksTCP c) h \<noteq> None \<longrightarrow> gm_load (checksGRPC c) h = None)"
    using assms(2) unfolding one_protocol_def by blast
  note defs = removeOne_def forget_def Let_def stop_checker_def gm_mem_def running_def
    gm_load_delete_fun config_same_def ref_at_def
  consider (http) k where "gm_load (checksHTTP c) h = Some k" "gm_load (checksTCP c) h = None"
      "gm_load (checksGRPC c) h = None"
    | (tcp) k where "gm_load (checksHTTP c) h = None" "gm_load (checksTCP c) h = Some k"
      "gm_load (checksGRPC c) h = None"
    | (grpc) k where "gm_load (checksHTTP c) h = None" "gm_load (checksTCP c) h = None"
      "gm_load (checksGRPC c) h = Some k"
    | (none) "gm_load (checksHTTP c) h = None" "gm_load (checksTCP c) h = None"
      "gm_load (checksGRPC c) h = None"
    using p by fastforce
  then show ?thesis
  proof cases
    case http then show ?thesis using assms(1,3,4,5) by (auto simp: defs fun_upd_idem)
  next
    case tcp then show ?thesis using assms(1,3,4,5) by (auto simp: defs fun_upd_idem)
  next
    case grpc then show ?thesis using assms(1,3,4,5) by (auto simp: defs fun_upd_idem)
  next
    case none then show ?thesis using assms(1,3,4,5) by (auto simp: defs fun_upd_idem)
  qed
qed

lemma forget_inv:
  assumes inv: "runner_inv c" and fg: "forget h c c'"
  shows "runner_inv c'"
proof -
  have ref: "ref_at c' = (ref_at c)(h := None)"
  proof
    fix h'
    show "ref_at c' h' = ((ref_at c)(h := None)) h'"
      using fg ref_at_local [of c' h' c] by (cases "h' = h") (auto simp: forget_def ref_at_def)
  qed
  have inj: "\<forall>h h' i. ref_at c h = Some i \<longrightarrow> ref_at c h' = Some i \<longrightarrow> h = h'"
    using inv by (auto simp: runner_inv_def refs_inv_def)
  have "refs_inv c'"
    using inv fg ran_del_inj [OF inj, of h]
    by (auto simp: runner_inv_def refs_inv_def ref forget_def)
  moreover have "checks_inv c'" "one_protocol c'"
    using inv fg by (auto simp: runner_inv_def checks_inv_def one_protocol_def forget_def)
  moreover have "dom (ref_at c') = dom (gm_load (checks c'))"
    using inv fg by (simp add: ref runner_inv_def forget_def)
  moreover have "dom (gm_load (checksCritical c')) \<subseteq> dom (gm_load (checks c'))"
    using inv fg by (auto simp: runner_inv_def forget_def)
  ultimately show ?thesis by (simp add: runner_inv_def)
qed

lemma forget_view: "forget h c c' \<Longrightarrow>
    view c' h' = (if h' = h then (None, None, None, None) else view c h')"
  by (simp add: forget_def view_def)

lemma fold_removeOne:
  assumes "fold (removeOne found) es (c, rem) = (c', rem')" and "runner_inv c"
    and "\<forall>(h, a) \<in> set es. hashCheck (esm_check (heap c a)) = h"
  shows "runner_inv c' \<and> config_same c c' \<and>
    dom (gm_load (checks c')) = dom (gm_load (checks c)) - (fst ` set es - dom (gm_load found)) \<and>
    (\<forall>h. h \<in> dom (gm_load found) \<longrightarrow> view c' h = view c h) \<and>
    (fst ` set es \<subseteq> dom (gm_load found) \<longrightarrow> c' = c \<and> rem' = rem)"
  using assms
proof (induction es arbitrary: c rem)
  case (Cons e es)
  obtain h a where e: "e = (h, a)" by fastforce
  obtain c1 rem1 where r: "removeOne found (h, a) (c, rem) = (c1, rem1)" by fastforce
  have ha: "hashCheck (esm_check (heap c a)) = h" using Cons.prems(3) e by simp
  show ?case
  proof (cases "gm_load found h")
    case None
    have oc: "one_protocol c" "gm_ok (checks c)"
      using Cons.prems(2) by (simp_all add: runner_inv_def checks_inv_def)
    have fg: "forget h c c1" by (rule removeOne_forget [OF r oc ha None])
    have hp: "heap c1 = heap c" and cfg: "config_same c c1"
      and ck: "dom (gm_load (checks c1)) = dom (gm_load (checks c)) - {h}"
      using fg by (simp_all add: forget_def)
    have f1: "fold (removeOne found) es (c1, rem1) = (c', rem')" using Cons.prems(1) e r by simp
    have h1: "\<forall>(h, a) \<in> set es. hashCheck (esm_check (heap c1 a)) = h"
      using Cons.prems(3) hp by simp
    have IH: "runner_inv c' \<and> config_same c1 c' \<and>
        dom (gm_load (checks c')) = dom (gm_load (checks c1)) - (fst ` set es - dom (gm_load found)) \<and>
        (\<forall>h. h \<in> dom (gm_load found) \<longrightarrow> view c' h = view c1 h) \<and>
        (fst ` set es \<subseteq> dom (gm_load found) \<longrightarrow> c' = c1 \<and> rem' = rem1)"
      by (rule Cons.IH [OF f1 forget_inv [OF Cons.prems(2) fg] h1])
    have "h \<notin> dom (gm_load found)" using None by blast
    then show ?thesis using IH cfg ck forget_view [OF fg] e by (auto simp: config_same_def)
  next
    case (Some b)
    then have same: "c1 = c" "rem1 = rem" using r ha by (simp_all add: removeOne_def gm_mem_def Let_def)
    have f1: "fold (removeOne found) es (c, rem) = (c', rem')" using Cons.prems(1) e r same by simp
    have h1: "\<forall>(h, a) \<in> set es. hashCheck (esm_check (heap c a)) = h"
      using Cons.prems(3) by simp
    have IH: "runner_inv c' \<and> config_same c c' \<and>
        dom (gm_load (checks c')) = dom (gm_load (checks c)) - (fst ` set es - dom (gm_load found)) \<and>
        (\<forall>h. h \<in> dom (gm_load found) \<longrightarrow> view c' h = view c h) \<and>
        (fst ` set es \<subseteq> dom (gm_load found) \<longrightarrow> c' = c \<and> rem' = rem)"
      by (rule Cons.IH [OF f1 Cons.prems(2) h1])
    have "h \<in> dom (gm_load found)" using Some by blast
    then have "fst ` set (e # es) - dom (gm_load found) = fst ` set es - dom (gm_load found)"
      using e by auto
    with IH show ?thesis using \<open>h \<in> dom (gm_load found)\<close> e by simp
  qed
qed simp

end
