(* ===== verification/Check_Catalog.thy ===== *)
theory Check_Catalog
  imports Check_Sync
begin

text \<open>
  The contract of \<^verbatim>\<open>UpdateChecks\<close> as a whole: the runner matches the catalog afterwards,
  and a catalog that did not change restarts nothing.
\<close>

subsection \<open>The whole update\<close>

lemma UpdateChecks_split:
  assumes "UpdateChecks ord cs c = (c', found, added, updated, removed)"
  obtains c1 where "fold updateOne cs (c, [], [], []) = (c1, found, updated, added)"
    and "fold (removeOne found) (ord (checks c1)) (c1, []) = (c', removed)"
  using assms by (auto simp: UpdateChecks_def split: prod.splits)

lemma range_hashes:
  assumes "checks_inv c" and "visits ord"
  shows "\<forall>(h, a) \<in> set (ord (checks c)). hashCheck (esm_check (heap c a)) = h"
    and "fst ` set (ord (checks c)) = dom (gm_load (checks c))"
  using assms by (auto simp: set_visits checks_inv_def gm_load_mem_iff dom_gm_load)

lemma UpdateChecks_effect:
  assumes up: "UpdateChecks ord cs c = (c', found, added, updated, removed)"
    and inv: "runner_inv c" and ord: "visits ord"
    and s: "\<forall>k \<in> set cs. single_protocol (hc_Definition k)"
  shows "runner_inv c'" and "config_same c c'" and "dom (gm_load (checks c')) = hashes cs"
    and "dom (gm_load found) = hashes cs"
    and "\<exists>c1. fold updateOne cs (c, [], [], []) = (c1, found, updated, added) \<and>
      config_same c1 c' \<and> (\<forall>h \<in> hashes cs. view c' h = view c1 h)"
proof -
  from up obtain c1 where 1: "fold updateOne cs (c, [], [], []) = (c1, found, updated, added)"
    and 2: "fold (removeOne found) (ord (checks c1)) (c1, []) = (c', removed)"
    by (rule UpdateChecks_split)
  have e1: "loop_effect (hashes cs) (c, []) (c1, found)"
    by (rule fold_updateOne_effect [OF 1 inv s])
  have inv1: "runner_inv c1" and fnd: "dom (gm_load found) = hashes cs"
    and chk: "dom (gm_load (checks c1)) = dom (gm_load (checks c)) \<union> hashes cs"
    and cfg1: "config_same c c1"
    using e1 by (simp_all add: loop_effect_def dom_def)
  have "checks_inv c1" using inv1 by (simp add: runner_inv_def)
  note rh = range_hashes [OF this ord]
  note rm = fold_removeOne [OF 2 inv1 rh(1), unfolded rh(2) fnd]
  show "runner_inv c'" "dom (gm_load found) = hashes cs" using rm fnd by simp_all
  show "config_same c c'" using cfg1 rm by (elim conjE) (rule config_same_trans)
  have "dom (gm_load (checks c')) = dom (gm_load (checks c1)) - (dom (gm_load (checks c1)) - hashes cs)"
    using rm by (elim conjE)
  then show "dom (gm_load (checks c')) = hashes cs" unfolding chk by blast
  have "config_same c1 c'" and "\<forall>h \<in> hashes cs. view c' h = view c1 h"
    using rm by simp_all
  then show "\<exists>c1. fold updateOne cs (c, [], [], []) = (c1, found, updated, added) \<and>
      config_same c1 c' \<and> (\<forall>h \<in> hashes cs. view c' h = view c1 h)"
    using 1 by (intro exI conjI)
qed

text \<open>No two runnable checks of the list have the same hash.\<close>

definition distinct_hashes :: "HealthCheck list \<Rightarrow> bool" where
  "distinct_hashes cs \<longleftrightarrow> distinct (map hashCheck (filter runnable cs))"

lemma distinct_hashes_split:
  assumes "distinct_hashes (xs @ k # ys)" and "runnable k"
  shows "hashCheck k \<notin> hashes xs" and "hashCheck k \<notin> hashes ys"
  using assms by (auto simp: distinct_hashes_def hashes_def)

text \<open>The check is stored as the catalog has it and its checker runs as it asks.\<close>

definition settled :: "CheckRunner \<Rightarrow> HealthCheck \<Rightarrow> bool" where
  "settled c k \<longleftrightarrow> serves c (hashCheck k) (fixInterval c (hc_Definition k)) \<and>
     map_option esm_check (fst (view c (hashCheck k))) = Some k"

lemma settled_view:
  "settled c k \<Longrightarrow> view c' (hashCheck k) = view c (hashCheck k) \<Longrightarrow> config_same c c' \<Longrightarrow> settled c' k"
  unfolding settled_def using serves_view [of c' "hashCheck k" c] by (simp add: fixInterval_config)

lemma UpdateChecks_settled:
  assumes up: "UpdateChecks ord cs c = (c', found, added, updated, removed)"
    and inv: "runner_inv c" and ord: "visits ord"
    and s: "\<forall>k \<in> set cs. single_protocol (hc_Definition k)"
    and d: "distinct_hashes cs" and k: "k \<in> set cs" "runnable k"
  shows "settled c' k"
proof -
  from UpdateChecks_effect(5) [OF up inv ord s] obtain c1
    where 1: "fold updateOne cs (c, [], [], []) = (c1, found, updated, added)"
      and cfg: "config_same c1 c'" and vw: "\<forall>h \<in> hashes cs. view c' h = view c1 h" by blast
  from k(1) obtain xs ys where cs: "cs = xs @ k # ys" by (auto simp: in_set_conv_decomp)
  have "hashCheck k \<notin> hashes ys" by (rule distinct_hashes_split(2) [OF d [unfolded cs] k(2)])
  from fold_updateOne_serves [OF 1 [unfolded cs] inv s [unfolded cs] k(2) this]
  have "settled c1 k" unfolding settled_def .
  moreover have "view c' (hashCheck k) = view c1 (hashCheck k)" using vw in_hashesI [OF k] by simp
  ultimately show ?thesis using cfg by (rule settled_view)
qed

text \<open>For a settled check, a round stores the check again and starts or stops nothing.\<close>

lemma updateOne_settled:
  assumes "settled c k" and "runnable k"
  shows "updateOne k (c, f, u, a) =
    (storeCheck k (hashCheck k) c, gm_store (hashCheck k) True f, u, a)"
proof -
  let ?h = "hashCheck k" and ?d = "fixInterval c (hc_Definition k)"
  obtain ck where ck: "gm_load (checks c) ?h = Some ck" and kk: "esm_check (heap c ck) = k"
    using assms(1) by (auto simp: settled_def view_def)
  have serv: "serves c ?h ?d" using assms(1) by (simp add: settled_def)
  have ext: "hc_CheckID k \<noteq> externalCheckName" using assms(2) by (simp add: runnable_def)
  consider (http) "def_HTTP ?d \<noteq> ''''" | (tcp) "def_HTTP ?d = ''''" "def_TCP ?d \<noteq> ''''"
    | (grpc) "def_HTTP ?d = ''''" "def_TCP ?d = ''''" "def_GRPC ?d \<noteq> ''''"
    using assms(2) by (auto simp: runnable_def)
  then show ?thesis
  proof cases
    case http
    then have "updateCheckHTTP ?h ?d (c, u, a) = (False, c, u, a)"
      using serv ck kk by (auto simp: updateCheckHTTP_def serves_def unchangedHTTP_def mk_simps)
    with http ext show ?thesis by (simp add: updateOne_def Let_def)
  next
    case tcp
    then have "updateCheckTCP ?h ?d (c, u, a) = (False, c, u, a)"
      using serv ck kk by (auto simp: updateCheckTCP_def serves_def unchangedTCP_def mk_simps)
    with tcp ext show ?thesis by (simp add: updateOne_def Let_def)
  next
    case grpc
    then have "updateCheckGRPC ?h ?d (c, u, a) = (False, c, u, a)"
      using serv ck kk by (auto simp: updateCheckGRPC_def serves_def unchangedGRPC_def mkGRPC_def)
    with grpc ext show ?thesis by (simp add: updateOne_def Let_def)
  qed
qed

lemma settled_storeCheck:
  assumes "checks_inv c" and "settled c k'" and "hashCheck k' \<noteq> hashCheck k"
  shows "settled (storeCheck k (hashCheck k) c) k'"
proof (rule settled_view [OF assms(2)])
  show "view (storeCheck k (hashCheck k) c) (hashCheck k') = view c (hashCheck k')"
    using assms(1,3) by (cases "gm_load (checks c) (hashCheck k')")
      (auto simp: view_def heap_storeCheck checks_inv_def)
qed simp

lemma dom_checks_storeCheck:
  "dom (gm_load (checks (storeCheck k h c))) = insert h (dom (gm_load (checks c)))"
  by (simp only: storeCheck_simps(9) dom_fun_upd) simp

lemma fold_updateOne_settled:
  assumes "checks_inv c" and "distinct_hashes cs" and "\<forall>k \<in> set cs. runnable k \<longrightarrow> settled c k"
  shows "\<exists>c' f'. fold updateOne cs (c, f, u, a) = (c', f', u, a) \<and> events c' = events c \<and>
    checks_inv c' \<and> dom (gm_load (checks c')) = dom (gm_load (checks c)) \<union> hashes cs \<and>
    dom (gm_load f') = dom (gm_load f) \<union> hashes cs"
  using assms
proof (induction cs arbitrary: c f)
  case (Cons k cs)
  show ?case
  proof (cases "runnable k")
    case False
    then have eq: "updateOne k (c, f, u, a) = (c, f, u, a)" by (rule updateOne_skip)
    have d: "distinct_hashes cs" using False Cons.prems(2) by (simp add: distinct_hashes_def)
    have "\<forall>k \<in> set cs. runnable k \<longrightarrow> settled c k" using Cons.prems(3) by simp
    from Cons.IH [OF Cons.prems(1) d this, of f] eq False show ?thesis by simp
  next
    case True
    let ?c = "storeCheck k (hashCheck k) c"
    have eq: "updateOne k (c, f, u, a) = (?c, gm_store (hashCheck k) True f, u, a)"
      using updateOne_settled True Cons.prems(3) by simp
    have ci: "checks_inv ?c" by (rule checks_inv_storeCheck [OF Cons.prems(1) refl])
    have nk: "hashCheck k \<notin> hashes cs" and d: "distinct_hashes cs"
      using True Cons.prems(2) by (auto simp: distinct_hashes_def hashes_def)
    have "\<forall>k' \<in> set cs. runnable k' \<longrightarrow> settled ?c k'"
    proof (intro ballI impI)
      fix k' assume k': "k' \<in> set cs" "runnable k'"
      have "hashCheck k' \<noteq> hashCheck k" using in_hashesI [OF k'] nk by auto
      with settled_storeCheck [OF Cons.prems(1)] Cons.prems(3) k' show "settled ?c k'" by simp
    qed
    from Cons.IH [OF ci d this, of "gm_store (hashCheck k) True f"] obtain c' f'
      where "fold updateOne cs (?c, gm_store (hashCheck k) True f, u, a) = (c', f', u, a)"
        and "events c' = events ?c" and "checks_inv c'"
        and "dom (gm_load (checks c')) = dom (gm_load (checks ?c)) \<union> hashes cs"
        and "dom (gm_load f') = dom (gm_load (gm_store (hashCheck k) True f)) \<union> hashes cs"
      by (elim exE conjE)
    then show ?thesis using eq True
      by (intro exI [of _ c'] exI [of _ f']) (simp add: dom_checks_storeCheck del: storeCheck_simps(9))
  qed
qed simp

subsection \<open>Properties\<close>

text \<open>Concrete checks for the witnesses: a TCP check of a service, and its variants.\<close>

definition sample_def :: HealthCheckDefinition where
  "sample_def = zero_definition\<lparr>def_TCP := ''10.0.0.1:80'', def_IntervalDuration := 5 * Second\<rparr>"

definition sample_check :: HealthCheck where
  "sample_check = zero_check\<lparr>hc_Node := ''n1'', hc_CheckID := ''tcp'', hc_ServiceID := ''web'',
     hc_Status := HealthPassing, hc_Definition := sample_def\<rparr>"

definition sample_runner :: CheckRunner where
  "sample_runner = NewCheckRunner (5 * Minute) Second
     \<lparr>tls_InsecureSkipVerify = False, tls_ServerName = ''''\<rparr> 0 0 False 0"

lemmas sample_defs = sample_check_def sample_def_def sample_runner_def zero_check_def
  zero_definition_def NewCheckRunner_def

lemma runner_inv_New: "runner_inv (NewCheckRunner i m t p q ag bf)"
  by (simp add: NewCheckRunner_def runner_inv_def one_protocol_def refs_inv_def checks_inv_def
      ref_at_def running_def dom_def ran_def)

lemma single_protocol_sample: "single_protocol (hc_Definition sample_check)"
  by (simp add: sample_defs single_protocol_def)

lemma sample_runnable: "runnable sample_check"
  by (simp add: sample_defs runnable_def externalCheckName_def)

lemma sample_inv: "runner_inv sample_runner"
  unfolding sample_runner_def by (rule runner_inv_New)

lemma sample_distinct: "distinct_hashes [sample_check]"
  by (simp add: distinct_hashes_def)

lemma fold_updateOne_counters:
  assumes f: "fold updateOne (xs @ k # ys) (c, f, u, a) = (c2, f2, u2, a2)" and inv: "runner_inv c"
    and s: "\<forall>k' \<in> set (xs @ k # ys). single_protocol (hc_Definition k')"
    and k: "runnable k" "hashCheck k \<notin> hashes xs" "hashCheck k \<notin> hashes ys"
  shows "map_option failureCounter (fst (view c2 (hashCheck k))) =
      Some (case fst (view c (hashCheck k)) of None \<Rightarrow> 0 | Some p \<Rightarrow> failureCounter p) \<and>
    map_option successCounter (fst (view c2 (hashCheck k))) =
      Some (case fst (view c (hashCheck k)) of None \<Rightarrow> 0 | Some p \<Rightarrow> successCounter p)"
proof -
  let ?h = "hashCheck k"
  obtain c0 f0 u0 a0 where 0: "fold updateOne xs (c, f, u, a) = (c0, f0, u0, a0)"
    using prod_cases4 by blast
  obtain c1 f1 u1 a1 where 1: "updateOne k (c0, f0, u0, a0) = (c1, f1, u1, a1)"
    using prod_cases4 by blast
  have 2: "fold updateOne ys (c1, f1, u1, a1) = (c2, f2, u2, a2)" using f 0 1 by simp
  have inv0: "runner_inv c0" and v0: "view c0 ?h = view c ?h"
    using fold_updateOne_effect [OF 0 inv] s k(2) by (simp_all add: loop_effect_def)
  obtain c' where eff: "update_effect ?h (fixInterval c0 (hc_Definition k)) c0 c'"
    and c1: "c1 = storeCheck k ?h c'"
    using updateOne_effect [OF 1 inv0 k(1)] s by auto
  note st = store_effect [OF inv0 eff refl, folded c1]
  have "view c2 ?h = view c1 ?h"
    using fold_updateOne_effect [OF 2 st(1)] s k(3) by (simp add: loop_effect_def)
  then show ?thesis using st(7,8) v0 by simp
qed

text \<open>The anti-flapping counters survive a catalog update: a check that stays in the catalog
  keeps both counters although it gets a fresh object, and a new check starts at zero.\<close>

lemma UpdateChecks_keeps_counters:
  assumes "UpdateChecks ord cs c = (c', found, added, updated, removed)"
    and "runner_inv c" and "visits ord"
    and "\<forall>k \<in> set cs. single_protocol (hc_Definition k)" and "distinct_hashes cs"
    and "k \<in> set cs" and "runnable k"
  shows "\<exists>a'. gm_load (checks c') (hashCheck k) = Some a' \<and>
    failureCounter (heap c' a') =
      (case gm_load (checks c) (hashCheck k) of None \<Rightarrow> 0 | Some a \<Rightarrow> failureCounter (heap c a)) \<and>
    successCounter (heap c' a') =
      (case gm_load (checks c) (hashCheck k) of None \<Rightarrow> 0 | Some a \<Rightarrow> successCounter (heap c a))"
proof -
  from UpdateChecks_effect(5) [OF assms(1-4)] obtain c1
    where 1: "fold updateOne cs (c, [], [], []) = (c1, found, updated, added)"
      and vw: "\<forall>h \<in> hashes cs. view c' h = view c1 h" by blast
  from assms(6) obtain xs ys where cs: "cs = xs @ k # ys" by (auto simp: in_set_conv_decomp)
  have "view c' (hashCheck k) = view c1 (hashCheck k)" using vw in_hashesI [OF assms(6,7)] by simp
  with fold_updateOne_counters [OF 1 [unfolded cs] assms(2) assms(4) [unfolded cs] assms(7)
      distinct_hashes_split [OF assms(5) [unfolded cs] assms(7)]]
  show ?thesis by (auto simp: view_def split: option.splits)
qed






subsection \<open>Where the runner and the catalog part\<close>

text \<open>
  Three facts about inputs outside the hypotheses above. The hash has no namespace, so two
  checks that differ in nothing but their namespace share one slot; a definition with two
  protocols leaves a stopped checker behind; and headers are compared in one direction only.
\<close>

definition sample_ns :: "string \<Rightarrow> string \<Rightarrow> HealthCheck" where
  "sample_ns ns addr = sample_check\<lparr>hc_Namespace := ns,
     hc_Definition := sample_def\<lparr>def_TCP := addr\<rparr>\<rparr>"

text \<open>Two checks of one node with the same service and check IDs in different namespaces,
  which the wildcard query returns together, collide: only one of them is watched, and every
  repetition of the same catalog restarts its checker.\<close>

lemma namespace_collision:
  "let cs = [sample_ns ''a'' ''10.0.0.1:80'', sample_ns ''b'' ''10.0.0.2:80''];
       c1 = fst (UpdateChecks (\<lambda>m. m) cs sample_runner);
       c2 = fst (UpdateChecks (\<lambda>m. m) cs c1)
   in map fst (checks c1) = [''n1/web/tcp''] \<and>
      map (tcp_TCP \<circ> snd) (checksTCP c1) = [''10.0.0.2:80''] \<and>
      events c1 = [Started 0, Stopped 0, Started 2] \<and>
      events c2 = events c1 @ [Stopped 2, Started 4, Stopped 4, Started 6]"
  by code_simp

text \<open>A check that was TCP, was then given an HTTP address as well, and is TCP again ends with
  its HTTP checker still running and its TCP checker stopped.\<close>

theorem two_protocols_stale_checker:
  "let both = sample_check\<lparr>hc_Definition := sample_def\<lparr>def_HTTP := ''http://10.0.0.1''\<rparr>\<rparr>;
       c1 = fst (UpdateChecks (\<lambda>m. m) [sample_check] sample_runner);
       c2 = fst (UpdateChecks (\<lambda>m. m) [both] c1);
       c3 = fst (UpdateChecks (\<lambda>m. m) [sample_check] c2)
   in events c3 = [Started 0, Stopped 0, Started 2] \<and>
      map (http_ref \<circ> snd) (checksHTTP c3) = [2] \<and> map (tcp_ref \<circ> snd) (checksTCP c3) = [0]"
  by code_simp

text \<open>Headers that a new definition adds are not applied: when every header of the running
  checker is unchanged, \<^verbatim>\<open>updateCheckHTTP\<close> leaves it alone however many headers were added.\<close>

theorem added_headers_ignored:
  assumes "gm_load (checks c) h = Some ck" and "gm_load (checksHTTP c) h = Some k"
    and "unchangedHTTP (heap c ck) k (mkHTTP c d) d" and "gm_ok (http_Header k)"
    and "\<forall>x v. gm_load (http_Header k) x = Some v \<longrightarrow> gm_load (def_Header d) x = Some v"
    and "\<forall>x v. gm_load (def_Header d) x = Some v \<longrightarrow> gm_load hs x = Some v"
  shows "updateCheckHTTP h (d\<lparr>def_Header := hs\<rparr>) (c, u, a) = (False, c, u, a)"
proof -
  have "headersAlmostEqual (http_Header k) hs"
    using assms(4-6) by (auto simp: headersAlmostEqual_def list_all_iff gm_load_mem_iff [symmetric])
  with assms(1-3) show ?thesis
    by (simp add: updateCheckHTTP_def unchangedHTTP_def mk_simps)
qed

definition sample_http :: HealthCheckDefinition where
  "sample_http = zero_definition\<lparr>def_HTTP := ''http://10.0.0.1''\<rparr>"

theorem added_headers_ignored_witness:
  "let c = fst (UpdateChecks (\<lambda>m. m) [sample_check\<lparr>hc_Definition := sample_http\<rparr>] sample_runner);
       d = sample_http\<lparr>def_IntervalDuration := defaultInterval\<rparr>
   in updateCheckHTTP ''n1/web/tcp'' (d\<lparr>def_Header := [(''X-Token'', Some [''secret''])]\<rparr>) (c, [], [])
      = (False, c, [], [])"
proof -
  let ?c = "fst (UpdateChecks (\<lambda>m. m) [sample_check\<lparr>hc_Definition := sample_http\<rparr>] sample_runner)"
  let ?d = "sample_http\<lparr>def_IntervalDuration := defaultInterval\<rparr>"
  have ck: "gm_load (checks ?c) ''n1/web/tcp'' = Some 1" by code_simp
  obtain k where k: "gm_load (checksHTTP ?c) ''n1/web/tcp'' = Some k" and kh: "http_Header k = []"
    and un: "unchangedHTTP (heap ?c 1) k (mkHTTP ?c ?d) ?d"
  proof -
    have "case gm_load (checksHTTP ?c) ''n1/web/tcp'' of None \<Rightarrow> False | Some k \<Rightarrow>
        http_Header k = [] \<and> unchangedHTTP (heap ?c 1) k (mkHTTP ?c ?d) ?d" by code_simp
    then show ?thesis using that by (auto split: option.splits)
  qed
  have "def_Header ?d = []" by code_simp
  with added_headers_ignored [OF ck k un, of "[(''X-Token'', Some [''secret''])]"] kh
  show ?thesis by simp
qed

end
