(* ===== verification/Check_Update.thy ===== *)
theory Check_Update
  imports Check_Runner
begin

text \<open>
  \<^verbatim>\<open>src/check.go\<close>, second part: what happens to the result of a check. \<open>UpdateCheck\<close> takes a
  result, applies the anti-flapping thresholds, tracks how long the check has been critical,
  defers changes of the output only, and pushes a change of status to Consul: at once, or
  through the batcher in agentless mode, with a rollback of the local state when the batch
  fails. \<open>reapServicesInternal\<close> deregisters services that stay critical.

  A check's mutex is the flag \<open>esm_mu\<close> of its object. An operation is one goroutine; a
  \<^verbatim>\<open>Lock\<close> of a mutex it already holds never returns and is the fault \<open>MutexBlocked\<close>. The
  client is the record of functions of \<^verbatim>\<open>Consul_Api\<close> over a server state \<open>'w\<close>. The time, the
  random stagger and the map orders are arguments.
\<close>

definition decrementCounter :: "int \<Rightarrow> int" where
  "decrementCounter cnt = (if cnt = 0 then 0 else cnt - 1)"

definition modify_esm :: "nat \<Rightarrow> (esmHealthCheck \<Rightarrow> esmHealthCheck) \<Rightarrow> CheckRunner \<Rightarrow> CheckRunner" where
  "modify_esm a f c = c\<lparr>heap := (heap c)(a := f (heap c a))\<rparr>"

definition set_state :: "string \<Rightarrow> string \<Rightarrow> esmHealthCheck \<Rightarrow> esmHealthCheck" where
  "set_state status output k = k\<lparr>esm_check := (esm_check k)\<lparr>hc_Status := status, hc_Output := output\<rparr>\<rparr>"

definition mu_Lock :: "nat \<Rightarrow> CheckRunner \<Rightarrow> CheckRunner res" where
  "mu_Lock a c = (if esm_mu (heap c a) then Inl MutexBlocked
     else Inr (modify_esm a (\<lambda>k. k\<lparr>esm_mu := True\<rparr>) c))"

definition mu_Unlock :: "nat \<Rightarrow> CheckRunner \<Rightarrow> CheckRunner" where
  "mu_Unlock a c = modify_esm a (\<lambda>k. k\<lparr>esm_mu := False\<rparr>) c"


subsection \<open>Rolling back\<close>

definition revertCheckState :: "string \<Rightarrow> string \<Rightarrow> string \<Rightarrow> CheckRunner \<Rightarrow> CheckRunner res" where
  "revertCheckState checkHash oldStatus oldOutput c =
     (case gm_load (checks c) checkHash of
        None \<Rightarrow> Inr c
      | Some check \<Rightarrow>
          bindR (mu_Lock check c) (\<lambda>c1.
            Inr (mu_Unlock check (modify_esm check (set_state oldStatus oldOutput) c1))))"

definition revertUpdate :: "pendingCheckUpdate \<Rightarrow> CheckRunner \<Rightarrow> CheckRunner res" where
  "revertUpdate update c =
     (if pu_oldStatus update = '''' \<and> pu_oldOutput update = '''' then Inr c
      else revertCheckState (hashCheck (pu_check update))
             (pu_oldStatus update) (pu_oldOutput update) c)"

definition revertAllUpdates :: "pendingCheckUpdate list \<Rightarrow> CheckRunner \<Rightarrow> CheckRunner res" where
  "revertAllUpdates updates c = foldR revertUpdate updates c"


subsection \<open>Writing to Consul at once\<close>

definition node_opts :: "HealthCheck \<Rightarrow> QueryOptions" where
  "node_opts check = zero_opts\<lparr>qo_Namespace := hc_Namespace check, qo_RequireConsistent := True\<rparr>"

definition catalog_id :: "HealthCheck \<Rightarrow> string" where
  "catalog_id check = TrimPrefix (hc_CheckID check) (hc_Node check @ ''/'')"

definition cas_op :: "string \<Rightarrow> string \<Rightarrow> HealthCheck \<Rightarrow> TxnOp" where
  "cas_op status output existing =
     TxnCheck CheckCAS (existing\<lparr>hc_Status := status, hc_Output := output\<rparr>)"

definition handleCheckUpdateImmediate :: "'w check_client \<Rightarrow> nat \<Rightarrow> string \<Rightarrow> string \<Rightarrow>
    CheckRunner \<times> 'w \<Rightarrow> CheckRunner \<times> 'w" where
  "handleCheckUpdateImmediate client a status output st =
     (case st of (c, w) \<Rightarrow>
      (let check = esm_check (heap c a) in
       case Health_Node client (hc_Node check) (node_opts check) w of
         (Inl err, w1) \<Rightarrow> (c, w1)
       | (Inr cs, w1) \<Rightarrow>
           (case find (\<lambda>k. hc_CheckID k = catalog_id check) cs of
              None \<Rightarrow> (c, w1)
            | Some existing \<Rightarrow>
                (case Txn_Txn client [cas_op status output existing] None w1 of
                   (Inl err, w2) \<Rightarrow> (c, w2)
                 | (Inr (ok, errs), w2) \<Rightarrow>
                     if length errs > 0 then (c, w2)
                     else if \<not> ok then (c, w2)
                     else (modify_esm a (set_state status output) c, w2)))))"


subsection \<open>Writing to Consul in batches\<close>

definition staleIndex :: "TxnError \<Rightarrow> bool" where
  "staleIndex e = Contains (te_What e) ''index is stale''"

definition txn_opts :: "CheckRunner \<Rightarrow> QueryOptions option" where
  "txn_opts c = (if isAgentless c then Some (zero_opts\<lparr>qo_RequireConsistent := True\<rparr>) else None)"

text \<open>One round of the loop over the failed indices, each retried with fresh state.\<close>

definition retryOne :: "'w check_client \<Rightarrow> pendingCheckUpdate list \<Rightarrow> int \<times> string \<Rightarrow>
    CheckRunner \<times> 'w \<Rightarrow> (CheckRunner \<times> 'w) res" where
  "retryOne client updates entry st =
     (case st of (c, w) \<Rightarrow>
      (let idx = fst entry in
       if idx \<ge> int (length updates) then Inr (c, w)
       else if idx < 0 then Inl IndexPanic
       else
         (let update = updates ! nat idx; check = pu_check update in
          case Health_Node client (hc_Node check) (node_opts check) w of
            (Inl err, w1) \<Rightarrow> Inr (c, w1)
          | (Inr cs, w1) \<Rightarrow>
              (case find (\<lambda>k. hc_CheckID k = catalog_id check) cs of
                 None \<Rightarrow> Inr (c, w1)
               | Some existing \<Rightarrow>
                   (case Txn_Txn client [cas_op (pu_status update) (pu_output update) existing]
                           (txn_opts c) w1 of
                      (Inl err, w2) \<Rightarrow> Inr (c, w2)
                    | (Inr (ok, errs), w2) \<Rightarrow>
                        if length errs > 0 then
                          bindR (revertCheckState (hashCheck check)
                                  (pu_oldStatus update) (pu_oldOutput update) c)
                            (\<lambda>c1. Inr (c1, w2))
                        else Inr (c, w2))))))"

definition retryFailedBatchOperations :: "'w check_client \<Rightarrow>
    ((int, string) go_map \<Rightarrow> (int, string) go_map) \<Rightarrow>
    pendingCheckUpdate list \<Rightarrow> TxnError list \<Rightarrow>
    CheckRunner \<times> 'w \<Rightarrow> (CheckRunner \<times> 'w) res" where
  "retryFailedBatchOperations client ord updates errs st =
     (let failedIndices =
            fold (\<lambda>e m. if staleIndex e then gm_store (te_OpIndex e) (te_What e) m else m) errs [] in
      if failedIndices = [] then Inr st
      else foldR (retryOne client updates) (ord failedIndices) st)"

definition executeBatchTransaction :: "'w check_client \<Rightarrow>
    ((int, string) go_map \<Rightarrow> (int, string) go_map) \<Rightarrow>
    TxnOp list \<Rightarrow> pendingCheckUpdate list \<Rightarrow>
    CheckRunner \<times> 'w \<Rightarrow> (CheckRunner \<times> 'w) res" where
  "executeBatchTransaction client ord ops updates st =
     (case st of (c, w) \<Rightarrow>
      if ops = [] then Inr (c, w)
      else
        (case Txn_Txn client ops (txn_opts c) w of
           (Inl err, w1) \<Rightarrow> bindR (revertAllUpdates updates c) (\<lambda>c1. Inr (c1, w1))
         | (Inr (ok, errs), w1) \<Rightarrow>
             if length errs > 0 then
               (let staleIndexErrors = length (filter staleIndex errs) in
                if staleIndexErrors > 0 then
                  retryFailedBatchOperations client ord updates errs (c, w1)
                else bindR (revertAllUpdates updates c) (\<lambda>c1. Inr (c1, w1)))
             else if \<not> ok then bindR (revertAllUpdates updates c) (\<lambda>c1. Inr (c1, w1))
             else Inr (c, w1)))"

type_synonym node_ns = "string \<times> string"

definition nodeKey :: "pendingCheckUpdate \<Rightarrow> node_ns" where
  "nodeKey update = (hc_Node (pu_check update), hc_Namespace (pu_check update))"

text \<open>The first loop of \<^verbatim>\<open>processBatchedUpdates\<close>: the current checks of each node and namespace, and
  the pairs that could not be fetched.\<close>

type_synonym node_checks = "(node_ns, (string, HealthCheck) go_map) go_map"

definition fetchOne :: "'w check_client \<Rightarrow> pendingCheckUpdate \<Rightarrow>
    node_checks \<times> (node_ns, bool) go_map \<times> 'w \<Rightarrow>
    node_checks \<times> (node_ns, bool) go_map \<times> 'w" where
  "fetchOne client update st =
     (case st of (nodeChecks, failedKeys, w) \<Rightarrow>
      (let key = nodeKey update in
       if gm_mem key nodeChecks then st
       else
         (case Health_Node client (hc_Node (pu_check update)) (node_opts (pu_check update)) w of
            (Inl err, w1) \<Rightarrow> (nodeChecks, gm_store key True failedKeys, w1)
          | (Inr cs, w1) \<Rightarrow>
              (gm_store key (fold (\<lambda>k. gm_store (hc_CheckID k) k) cs []) nodeChecks,
               failedKeys, w1))))"

text \<open>The third loop: one operation per update whose check still exists, a transaction
  whenever \<^verbatim>\<open>maxTxnOps\<close> operations are collected.\<close>

definition buildOne :: "'w check_client \<Rightarrow>
    ((int, string) go_map \<Rightarrow> (int, string) go_map) \<Rightarrow> node_checks \<Rightarrow> pendingCheckUpdate \<Rightarrow>
    TxnOp list \<times> pendingCheckUpdate list \<times> CheckRunner \<times> 'w \<Rightarrow>
    (TxnOp list \<times> pendingCheckUpdate list \<times> CheckRunner \<times> 'w) res" where
  "buildOne client ord nodeChecks update st =
     (case st of (ops, processedChecks, cw) \<Rightarrow>
      (case gm_load nodeChecks (nodeKey update) of
         None \<Rightarrow> Inr st
       | Some nodeMap \<Rightarrow>
           (case gm_load nodeMap (catalog_id (pu_check update)) of
              None \<Rightarrow> Inr st
            | Some existing \<Rightarrow>
                (let ops1 = ops @ [cas_op (pu_status update) (pu_output update) existing];
                     processed1 = processedChecks @ [update] in
                 if int (length ops1) \<ge> maxTxnOps then
                   bindR (executeBatchTransaction client ord ops1 processed1 cw)
                     (\<lambda>cw1. Inr ([], [], cw1))
                 else Inr (ops1, processed1, cw)))))"

definition revertFailed :: "(node_ns, bool) go_map \<Rightarrow> pendingCheckUpdate \<Rightarrow> CheckRunner \<Rightarrow>
    CheckRunner res" where
  "revertFailed failedKeys update c =
     (if gm_mem (nodeKey update) failedKeys then
        (if pu_oldStatus update \<noteq> '''' \<or> pu_oldOutput update \<noteq> '''' then
           revertCheckState (hashCheck (pu_check update))
             (pu_oldStatus update) (pu_oldOutput update) c
         else Inr c)
      else Inr c)"

definition processBatchedUpdates :: "'w check_client \<Rightarrow>
    ((int, string) go_map \<Rightarrow> (int, string) go_map) \<Rightarrow> pendingCheckUpdate list \<Rightarrow>
    CheckRunner \<times> 'w \<Rightarrow> (CheckRunner \<times> 'w) res" where
  "processBatchedUpdates client ord updates st =
     (case st of (c, w) \<Rightarrow>
      if length updates = 0 then Inr (c, w)
      else
        (case fold (fetchOne client) updates ([], [], w) of
           (nodeChecks, failedKeys, w1) \<Rightarrow>
             bindR (foldR (revertFailed failedKeys) updates c) (\<lambda>c1.
             bindR (foldR (buildOne client ord nodeChecks) updates ([], [], c1, w1))
               (\<lambda>(ops, processedChecks, cw).
                 if length ops > 0 then executeBatchTransaction client ord ops processedChecks cw
                 else Inr cw))))"


subsection \<open>Handling a result\<close>

text \<open>What is open in the language and the environment of one call.\<close>

record 'w env =
  env_client :: "'w check_client"
  env_updates :: "pendingCheckUpdate range_order"
  env_failed :: "(int, string) go_map \<Rightarrow> (int, string) go_map"
  env_stagger :: "int \<Rightarrow> int"
  env_now :: int

definition processFunc :: "'w env \<Rightarrow> (pendingCheckUpdate list \<Rightarrow>
    CheckRunner \<times> 'w \<Rightarrow> (CheckRunner \<times> 'w) res) option" where
  "processFunc e = Some (processBatchedUpdates (env_client e) (env_failed e))"

definition handleCheckUpdate :: "'w env \<Rightarrow> nat \<Rightarrow> string \<Rightarrow> string \<Rightarrow> string \<Rightarrow> string \<Rightarrow>
    CheckRunner \<times> 'w \<Rightarrow> (CheckRunner \<times> 'w) res" where
  "handleCheckUpdate e a status output oldStatus oldOutput st =
     (case batcher (fst st) of
        Some b \<Rightarrow>
          bindR (Add (env_updates e) (processFunc e) (esm_check (heap (fst st) a))
                   status output oldStatus oldOutput (b, st))
            (\<lambda>(b1, c1, w1). Inr (c1\<lparr>batcher := Some b1\<rparr>, w1))
      | None \<Rightarrow> Inr (handleCheckUpdateImmediate (env_client e) a status output st))"

definition trackCritical :: "string \<Rightarrow> int \<Rightarrow> CheckRunner \<Rightarrow> CheckRunner" where
  "trackCritical checkHash now c =
     (if gm_mem checkHash (checksCritical c) then c
      else c\<lparr>checksCritical := gm_store checkHash now (checksCritical c)\<rparr>)"

text \<open>A result that passed its threshold: the counter is reset, the critical time is kept or
  dropped.\<close>

definition acceptResult :: "string \<Rightarrow> int \<Rightarrow> nat \<Rightarrow> string \<Rightarrow> CheckRunner \<Rightarrow> CheckRunner" where
  "acceptResult checkHash now a status c =
     (if status = HealthCritical
      then trackCritical checkHash now (modify_esm a (\<lambda>k. k\<lparr>failureCounter := 0\<rparr>) c)
      else (modify_esm a (\<lambda>k. k\<lparr>successCounter := 0\<rparr>) c)
             \<lparr>checksCritical := gm_delete checkHash (checksCritical c)\<rparr>)"

text \<open>The body of \<^verbatim>\<open>UpdateCheck\<close> between locking and unlocking the check's mutex.\<close>

definition UpdateCheck_locked :: "'w env \<Rightarrow> string \<Rightarrow> nat \<Rightarrow> string \<Rightarrow> string \<Rightarrow>
    CheckRunner \<times> 'w \<Rightarrow> (CheckRunner \<times> 'w) res" where
  "UpdateCheck_locked e checkHash a status output st =
     (case st of (c, w) \<Rightarrow>
      (let check = heap c a in
       if hc_Status (esm_check check) = status \<and> hc_Output (esm_check check) = output then
         (let c1 = (if status = HealthCritical then trackCritical checkHash (env_now e) c else c) in
          Inr (modify_esm a (\<lambda>k. k\<lparr>failureCounter := decrementCounter (failureCounter k),
                                   successCounter := decrementCounter (successCounter k)\<rparr>) c1, w))
       else if status = HealthCritical \<and> failureCounter check < CriticalThreshold c then
         Inr (modify_esm a (\<lambda>k. k\<lparr>failureCounter := failureCounter k + 1\<rparr>) c, w)
       else if status \<noteq> HealthCritical \<and> successCounter check < PassingThreshold c then
         Inr (modify_esm a (\<lambda>k. k\<lparr>successCounter := successCounter k + 1\<rparr>) c, w)
       else
         (let c2 = acceptResult checkHash (env_now e) a status c in
          if CheckUpdateInterval c2 > 0 \<and> hc_Status (esm_check check) = status then
            (let c3 = modify_esm a (\<lambda>k. k\<lparr>esm_check := (esm_check k)\<lparr>hc_Output := output\<rparr>\<rparr>) c2 in
             if gm_mem checkHash (deferCheck c3) then Inr (c3, w)
             else
               (let intv = (if isAgentless c3 then CheckUpdateInterval c3
                            else CheckUpdateInterval c3 div 2) + env_stagger e (CheckUpdateInterval c3);
                    deferSync = \<lparr>dt_check = a, dt_status = status, dt_output = output, dt_intv = intv\<rparr> in
                Inr (c3\<lparr>deferCheck := gm_store checkHash deferSync (deferCheck c3)\<rparr>, w)))
          else
            (let oldStatus = hc_Status (esm_check check);
                 oldOutput = hc_Output (esm_check check);
                 c3 = (if isAgentless c2 then modify_esm a (set_state status output) c2 else c2) in
             handleCheckUpdate e a status output oldStatus oldOutput (c3, w)))))"

definition UpdateCheck :: "'w env \<Rightarrow> string \<Rightarrow> string \<Rightarrow> string \<Rightarrow>
    CheckRunner \<times> 'w \<Rightarrow> (CheckRunner \<times> 'w) res" where
  "UpdateCheck e checkHash status output st =
     (case gm_load (checks (fst st)) checkHash of
        None \<Rightarrow> Inr st
      | Some check \<Rightarrow>
          bindR (mu_Lock check (fst st)) (\<lambda>c1.
          bindR (UpdateCheck_locked e checkHash check status output (c1, snd st)) (\<lambda>(c2, w2).
            Inr (mu_Unlock check c2, w2))))"

text \<open>The function of a deferred sync's timer.\<close>

definition deferFired :: "'w env \<Rightarrow> string \<Rightarrow> CheckRunner \<times> 'w \<Rightarrow> (CheckRunner \<times> 'w) res" where
  "deferFired e checkHash st =
     (case gm_load (deferCheck (fst st)) checkHash of
        None \<Rightarrow> Inr st
      | Some t \<Rightarrow>
          bindR (handleCheckUpdate e (dt_check t) (dt_status t) (dt_output t) '''' '''' st)
            (\<lambda>(c1, w1). Inr (c1\<lparr>deferCheck := gm_delete checkHash (deferCheck c1)\<rparr>, w1)))"

text \<open>The batcher's timer: \<^verbatim>\<open>Flush\<close> on the runner's batcher.\<close>

definition flushFired :: "'w env \<Rightarrow> CheckRunner \<times> 'w \<Rightarrow> (CheckRunner \<times> 'w) res" where
  "flushFired e st =
     (case batcher (fst st) of
        None \<Rightarrow> Inr st
      | Some b \<Rightarrow> bindR (Flush (env_updates e) (processFunc e) (b, st))
          (\<lambda>(b1, c1, w1). Inr (c1\<lparr>batcher := Some b1\<rparr>, w1)))"

definition StopAll :: "('v \<Rightarrow> nat) \<Rightarrow> 'v range_order \<Rightarrow> (string, 'v) go_map \<Rightarrow> CheckRunner \<Rightarrow> CheckRunner" where
  "StopAll ref ord m c = fold (\<lambda>kv. stop_checker (ref (snd kv))) (ord m) c"

definition CheckRunner_Stop :: "'w env \<Rightarrow> CheckHTTP range_order \<Rightarrow> CheckTCP range_order \<Rightarrow>
    CheckGRPC range_order \<Rightarrow> CheckRunner \<times> 'w \<Rightarrow> (CheckRunner \<times> 'w) res" where
  "CheckRunner_Stop e oH oT oG st =
     bindR (case batcher (fst st) of
              None \<Rightarrow> Inr st
            | Some b \<Rightarrow> bindR (Stop (env_updates e) (processFunc e) (b, st))
                (\<lambda>(b1, c1, w1). Inr (c1\<lparr>batcher := None\<rparr>, w1)))
       (\<lambda>(c, w). Inr (StopAll grpc_ref oG (checksGRPC c)
          (StopAll tcp_ref oT (checksTCP c) (StopAll http_ref oH (checksHTTP c) c)), w))"


subsection \<open>Reaping\<close>

text \<open>One visit of the range over \<^verbatim>\<open>checksCritical\<close>: the services reaped so far and the servers.\<close>

definition reapOne :: "'w check_client \<Rightarrow> int \<Rightarrow> CheckRunner \<Rightarrow> string \<times> int \<Rightarrow>
    (string \<times> string) list \<times> 'w \<Rightarrow> (string \<times> string) list \<times> 'w" where
  "reapOne client now c entry st =
     (case st of (reaped, w) \<Rightarrow>
      (case gm_load (checks c) (fst entry) of
         None \<Rightarrow> st
       | Some a \<Rightarrow>
           (let check = esm_check (heap c a);
                ID = (hc_Node check, hc_ServiceID check);
                timeout = def_DeregisterCriticalServiceAfterDuration (hc_Definition check) in
            if snd ID = '''' then st
            else if ID \<in> set reaped then st
            else if timeout > 0 \<and> timeout < now - snd entry then
              (case Catalog_Deregister client (fst ID) (snd ID) w of
                 (Some err, w1) \<Rightarrow> (reaped, w1)
               | (None, w1) \<Rightarrow> (reaped @ [ID], w1))
            else st)))"

definition reapServicesInternal :: "'w check_client \<Rightarrow> int range_order \<Rightarrow> int \<Rightarrow> CheckRunner \<Rightarrow> 'w \<Rightarrow>
    (string \<times> string) list \<times> 'w" where
  "reapServicesInternal client ord now c w =
     fold (reapOne client now c) (ord (checksCritical c)) ([], w)"

end
