(* ===== verification/Check_Results.thy ===== *)
theory Check_Results
  imports Check_Catalog Check_Update
begin

text \<open>
  What the second half of \<^verbatim>\<open>src/check.go\<close> guarantees: no operation on a result touches anything
  but the status, the output and the counters of checks (\<open>frame\<close>); mutexes are released;
  the thresholds suppress flapping; a failed batch is rolled back; reaping is exact. The
  operations together form a step relation whose invariant holds in every reachable state.
\<close>

subsection \<open>What an update leaves alone\<close>

definition ident :: "esmHealthCheck \<Rightarrow> HealthCheck" where
  "ident k = (esm_check k)\<lparr>hc_Status := '''', hc_Output := ''''\<rparr>"

text \<open>The maps of checks and checkers, the configuration, every mutex, and every check up to
  status, output and counters.\<close>

definition frame :: "CheckRunner \<Rightarrow> CheckRunner \<Rightarrow> bool" where
  "frame c c' \<longleftrightarrow> checks c' = checks c \<and> checksHTTP c' = checksHTTP c \<and> checksTCP c' = checksTCP c \<and>
     checksGRPC c' = checksGRPC c \<and> events c' = events c \<and> next_ref c' = next_ref c \<and>
     CheckUpdateInterval c' = CheckUpdateInterval c \<and> MinimumInterval c' = MinimumInterval c \<and>
     PassingThreshold c' = PassingThreshold c \<and> CriticalThreshold c' = CriticalThreshold c \<and>
     isAgentless c' = isAgentless c \<and> tlsConfig c' = tlsConfig c \<and>
     (\<forall>a. esm_mu (heap c' a) = esm_mu (heap c a) \<and> ident (heap c' a) = ident (heap c a))"

text \<open>In addition the critical times, the deferred syncs and the batcher.\<close>

definition frame_all :: "CheckRunner \<Rightarrow> CheckRunner \<Rightarrow> bool" where
  "frame_all c c' \<longleftrightarrow> frame c c' \<and> checksCritical c' = checksCritical c \<and>
     deferCheck c' = deferCheck c \<and> batcher c' = batcher c"

definition unlocked :: "CheckRunner \<Rightarrow> bool" where
  "unlocked c \<longleftrightarrow> (\<forall>a. \<not> esm_mu (heap c a))"

lemma frame_refl [simp]: "frame c c" "frame_all c c"
  by (simp_all add: frame_def frame_all_def)

lemma frame_trans: "frame c c' \<Longrightarrow> frame c' c'' \<Longrightarrow> frame c c''"
  by (simp add: frame_def)

lemma frame_all_trans: "frame_all c c' \<Longrightarrow> frame_all c' c'' \<Longrightarrow> frame_all c c''"
  by (auto simp: frame_all_def intro: frame_trans)

lemma frame_all_frame: "frame_all c c' \<Longrightarrow> frame c c'"
  by (simp add: frame_all_def)

lemma frame_unlocked: "frame c c' \<Longrightarrow> unlocked c \<Longrightarrow> unlocked c'"
  by (simp add: frame_def unlocked_def)

lemma modify_esm_simps [simp]:
  "checks (modify_esm a f c) = checks c" "checksHTTP (modify_esm a f c) = checksHTTP c"
  "checksTCP (modify_esm a f c) = checksTCP c" "checksGRPC (modify_esm a f c) = checksGRPC c"
  "checksCritical (modify_esm a f c) = checksCritical c" "deferCheck (modify_esm a f c) = deferCheck c"
  "batcher (modify_esm a f c) = batcher c" "events (modify_esm a f c) = events c"
  "next_ref (modify_esm a f c) = next_ref c"
  "CheckUpdateInterval (modify_esm a f c) = CheckUpdateInterval c"
  "MinimumInterval (modify_esm a f c) = MinimumInterval c"
  "PassingThreshold (modify_esm a f c) = PassingThreshold c"
  "CriticalThreshold (modify_esm a f c) = CriticalThreshold c"
  "isAgentless (modify_esm a f c) = isAgentless c" "tlsConfig (modify_esm a f c) = tlsConfig c"
  "heap (modify_esm a f c) = (heap c)(a := f (heap c a))"
  by (simp_all add: modify_esm_def)

lemma set_state_simps [simp]:
  "esm_mu (set_state s t k) = esm_mu k" "failureCounter (set_state s t k) = failureCounter k"
  "successCounter (set_state s t k) = successCounter k"
  "hc_Status (esm_check (set_state s t k)) = s" "hc_Output (esm_check (set_state s t k)) = t"
  "ident (set_state s t k) = ident k"
  by (simp_all add: set_state_def ident_def)

lemma ident_simps [simp]:
  "ident (k\<lparr>failureCounter := n\<rparr>) = ident k" "ident (k\<lparr>successCounter := n\<rparr>) = ident k"
  "ident (k\<lparr>esm_mu := b\<rparr>) = ident k"
  "ident (k\<lparr>esm_check := (esm_check k)\<lparr>hc_Output := t\<rparr>\<rparr>) = ident k"
  by (simp_all add: ident_def)

lemma hashCheck_ident: "ident k' = ident k \<Longrightarrow> hashCheck (esm_check k') = hashCheck (esm_check k)"
proof -
  have "hashCheck (ident k) = hashCheck (esm_check k)" for k
    by (simp add: ident_def hashCheck_def)
  then show "ident k' = ident k \<Longrightarrow> hashCheck (esm_check k') = hashCheck (esm_check k)" by metis
qed

lemma frame_modify [simp]:
  "(\<And>k. esm_mu (f k) = esm_mu k) \<Longrightarrow> (\<And>k. ident (f k) = ident k) \<Longrightarrow> frame_all c (modify_esm a f c)"
  by (simp add: frame_all_def frame_def)

lemma frame_fields [simp]:
  "frame c (c'\<lparr>checksCritical := m\<rparr>) = frame c c'" "frame c (c'\<lparr>deferCheck := d\<rparr>) = frame c c'"
  "frame c (c'\<lparr>batcher := b\<rparr>) = frame c c'"
  by (simp_all add: frame_def)

lemma frame_runner_inv:
  assumes "frame c c'" and "runner_inv c"
    and "dom (gm_load (checksCritical c')) \<subseteq> dom (gm_load (checks c))"
  shows "runner_inv c'"
proof -
  have r: "ref_at c' = ref_at c" using assms(1) by (intro ref_at_cong) (simp_all add: frame_def)
  have "running c' = running c" using assms(1) by (intro running_cong) (simp add: frame_def)
  moreover have "\<forall>a. hashCheck (esm_check (heap c' a)) = hashCheck (esm_check (heap c a))"
    using assms(1) by (auto simp: frame_def intro: hashCheck_ident)
  moreover have "one_protocol c'" using assms(1,2)
    by (simp add: frame_def runner_inv_def one_protocol_def)
  moreover have eq: "checks c' = checks c" "next_ref c' = next_ref c"
    using assms(1) by (simp_all add: frame_def)
  ultimately show ?thesis using assms(2,3)
    unfolding runner_inv_def refs_inv_def checks_inv_def r eq by simp
qed


subsection \<open>Rolling back\<close>

lemma mu_Lock_unlock:
  "mu_Lock a c = Inr c1 \<Longrightarrow> frame_all c1 c2 \<Longrightarrow> frame_all c (mu_Unlock a c2)"
proof -
  assume l: "mu_Lock a c = Inr c1" and f: "frame_all c1 c2"
  from l have free: "\<not> esm_mu (heap c a)" and c1: "c1 = modify_esm a (\<lambda>k. k\<lparr>esm_mu := True\<rparr>) c"
    by (auto simp: mu_Lock_def split: if_splits)
  have "\<forall>x. esm_mu (heap (mu_Unlock a c2) x) = esm_mu (heap c x) \<and>
      ident (heap (mu_Unlock a c2) x) = ident (heap c x)"
    using f free unfolding frame_all_def frame_def c1 by (simp add: mu_Unlock_def)
  then show "frame_all c (mu_Unlock a c2)"
    using f unfolding frame_all_def frame_def c1 by (simp add: mu_Unlock_def)
qed

lemma revertCheckState_frame:
  "revertCheckState h s t c = Inr c' \<Longrightarrow> frame_all c c'"
  by (auto simp: revertCheckState_def bindR_eq_Inr split: option.splits intro: mu_Lock_unlock)

lemma revertUpdate_frame: "revertUpdate u c = Inr c' \<Longrightarrow> frame_all c c'"
  by (auto simp: revertUpdate_def split: if_splits intro: revertCheckState_frame)

lemma foldR_frame:
  assumes "foldR f xs c = Inr c'" and "\<And>x c c'. f x c = Inr c' \<Longrightarrow> frame_all c c'"
  shows "frame_all c c'"
  by (rule foldR_invariant [where P = "frame_all c", OF assms(1)])
    (auto intro: frame_all_trans assms(2))

lemma revertAllUpdates_frame: "revertAllUpdates us c = Inr c' \<Longrightarrow> frame_all c c'"
  unfolding revertAllUpdates_def by (rule foldR_frame) (auto intro: revertUpdate_frame)

lemma revertFailed_frame: "revertFailed m u c = Inr c' \<Longrightarrow> frame_all c c'"
  by (auto simp: revertFailed_def split: if_splits intro: revertCheckState_frame)

text \<open>The state of the check that a hash leads to, if any.\<close>

definition state_at :: "CheckRunner \<Rightarrow> string \<Rightarrow> (string \<times> string) option" where
  "state_at c h = map_option (\<lambda>a. (hc_Status (esm_check (heap c a)), hc_Output (esm_check (heap c a))))
     (gm_load (checks c) h)"

lemma revertCheckState_returns:
  "unlocked c \<Longrightarrow> \<exists>c'. revertCheckState h s t c = Inr c'"
  by (auto simp: revertCheckState_def mu_Lock_def unlocked_def split: option.splits)

lemma revertCheckState_state:
  assumes "revertCheckState h s t c = Inr c'" and "checks_inv c"
  shows "state_at c' h' = (if h' = h \<and> gm_load (checks c) h \<noteq> None then Some (s, t) else state_at c h')"
proof (cases "gm_load (checks c) h")
  case None
  then show ?thesis using assms by (auto simp: revertCheckState_def)
next
  case (Some a)
  have inj: "gm_load (checks c) h' = Some a \<Longrightarrow> h' = h"
    using assms(2) Some unfolding checks_inv_def by blast
  show ?thesis
  proof (cases "gm_load (checks c) h'")
    case None
    then show ?thesis using assms(1) Some
      by (auto simp: revertCheckState_def mu_Lock_def mu_Unlock_def state_at_def split: if_splits)
  next
    case (Some a')
    with inj \<open>gm_load (checks c) h = Some a\<close> show ?thesis using assms(1)
      by (auto simp: revertCheckState_def mu_Lock_def mu_Unlock_def state_at_def split: if_splits)
  qed
qed

lemma checks_inv_frame: "frame c c' \<Longrightarrow> checks_inv c \<Longrightarrow> checks_inv c'"
  by (simp add: checks_inv_def frame_def) (metis hashCheck_ident)

subsection \<open>Batches\<close>

lemma retryOne_frame: "retryOne cl us x (c, w) = Inr (c', w') \<Longrightarrow> frame_all c c'"
  by (auto simp: retryOne_def Let_def bindR_eq_Inr split: if_splits prod.splits sum.splits option.splits
      intro: revertCheckState_frame)

lemma foldR_frame_world:
  assumes "foldR f xs (c, w) = Inr (c', w')"
    and "\<And>x c w c' w'. f x (c, w) = Inr (c', w') \<Longrightarrow> frame_all c c'"
  shows "frame_all c c'"
proof -
  have "frame_all c (fst (c', w'))"
  proof (rule foldR_invariant [where P = "\<lambda>s. frame_all c (fst s)", OF assms(1)])
    show "frame_all c (fst s) \<Longrightarrow> f x s = Inr t \<Longrightarrow> frame_all c (fst t)" for x s t
      using assms(2) [of x "fst s" "snd s" "fst t" "snd t"] frame_all_trans by simp
  qed simp
  then show ?thesis by simp
qed

lemma retryFailed_frame:
  "retryFailedBatchOperations cl ord us errs (c, w) = Inr (c', w') \<Longrightarrow> frame_all c c'"
  unfolding retryFailedBatchOperations_def Let_def
  by (auto split: if_splits intro: foldR_frame_world retryOne_frame)

lemma executeBatch_frame:
  "executeBatchTransaction cl ord ops us (c, w) = Inr (c', w') \<Longrightarrow> frame_all c c'"
  by (auto simp: executeBatchTransaction_def Let_def bindR_eq_Inr
      split: if_splits prod.splits sum.splits intro: revertAllUpdates_frame retryFailed_frame)

lemma buildOne_frame:
  assumes "buildOne cl ord nc u (ops, ps, c, w) = Inr (ops', ps', c', w')"
  shows "frame_all c c'"
  using assms
  by (auto simp: buildOne_def Let_def bindR_eq_Inr split: if_splits option.splits
      intro: executeBatch_frame)

lemma foldR_buildOne_frame:
  assumes "foldR (buildOne cl ord nc) us (ops, ps, c, w) = Inr (ops', ps', c', w')"
  shows "frame_all c c'"
proof -
  have "frame_all c (fst (snd (snd (ops', ps', c', w'))))"
  proof (rule foldR_invariant [where P = "\<lambda>s. frame_all c (fst (snd (snd s)))", OF assms])
    fix x s t assume "frame_all c (fst (snd (snd s)))" "buildOne cl ord nc x s = Inr t"
    then show "frame_all c (fst (snd (snd t)))"
      by (cases s; cases t) (auto intro: frame_all_trans buildOne_frame)
  qed simp
  then show ?thesis by simp
qed

lemma processBatched_frame:
  assumes "processBatchedUpdates cl ord us (c, w) = Inr (c', w')"
  shows "frame_all c c'"
proof (cases "length us = 0")
  case True
  then show ?thesis using assms by (simp add: processBatchedUpdates_def)
next
  case False
  obtain nc fk w1 where "fold (fetchOne cl) us ([], [], w) = (nc, fk, w1)"
    using prod_cases3 by blast
  then obtain c1 ops ps c2 w2 where
    1: "foldR (revertFailed fk) us c = Inr c1" and
    2: "foldR (buildOne cl ord nc) us ([], [], c1, w1) = Inr (ops, ps, c2, w2)" and
    3: "(if length ops > 0 then executeBatchTransaction cl ord ops ps (c2, w2) else Inr (c2, w2))
       = Inr (c', w')"
    using assms False by (auto simp: processBatchedUpdates_def bindR_eq_Inr)
  have "frame_all c c1" by (rule foldR_frame [OF 1]) (rule revertFailed_frame)
  moreover have "frame_all c1 c2" by (rule foldR_buildOne_frame [OF 2])
  moreover have "frame_all c2 c'" using 3 by (auto split: if_splits intro: executeBatch_frame)
  ultimately show ?thesis by (blast intro: frame_all_trans)
qed

lemma handle_frame:
  assumes "handleCheckUpdate e a s t os ot (c, w) = Inr (c', w')"
  shows "frame c c' \<and> checksCritical c' = checksCritical c \<and> deferCheck c' = deferCheck c"
proof (cases "batcher c")
  case None
  then show ?thesis using assms
    by (auto simp: handleCheckUpdate_def handleCheckUpdateImmediate_def Let_def frame_def
        split: prod.splits sum.splits option.splits if_splits)
next
  case (Some b)
  then obtain b1 c1 where add: "Add (env_updates e) (processFunc e) (esm_check (heap c a)) s t os ot
      (b, c, w) = Inr (b1, c1, w')" and c': "c' = c1\<lparr>batcher := Some b1\<rparr>"
    using assms by (auto simp: handleCheckUpdate_def bindR_eq_Inr)
  from add have "frame_all c c1"
    by (auto simp: Add_def processUpdates_def processFunc_def bindR_eq_Inr
        split: prod.splits if_splits intro: processBatched_frame)
  with c' show ?thesis by (simp add: frame_all_def)
qed


subsection \<open>A result\<close>

lemma trackCritical_simps [simp]:
  "frame c (trackCritical h t c') = frame c c'"
  "dom (gm_load (checksCritical (trackCritical h t c'))) = insert h (dom (gm_load (checksCritical c')))"
  "deferCheck (trackCritical h t c') = deferCheck c'" "batcher (trackCritical h t c') = batcher c'"
  "heap (trackCritical h t c') = heap c'" "checks (trackCritical h t c') = checks c'"
  "CheckUpdateInterval (trackCritical h t c') = CheckUpdateInterval c'"
  "isAgentless (trackCritical h t c') = isAgentless c'"
  by (auto simp: trackCritical_def frame_def gm_mem_def)

text \<open>The critical times change at most at the check's own hash.\<close>

definition touched :: "string \<Rightarrow> CheckRunner \<Rightarrow> CheckRunner \<Rightarrow> bool" where
  "touched h c c' \<longleftrightarrow> frame c c' \<and>
     dom (gm_load (checksCritical c')) \<subseteq> insert h (dom (gm_load (checksCritical c)))"

lemma modify_touched:
  "touched h c c' \<Longrightarrow> (\<And>k. esm_mu (f k) = esm_mu k) \<Longrightarrow> (\<And>k. ident (f k) = ident k) \<Longrightarrow>
   touched h c (modify_esm a f c')"
  using frame_modify [of f c' a] by (auto simp: touched_def frame_all_def intro: frame_trans)

lemma touched_simps [simp]:
  "touched h c c" "touched h c (trackCritical h t c') = touched h c c'"
  "touched h c (c'\<lparr>deferCheck := d\<rparr>) = touched h c c'"
  by (auto simp: touched_def)

lemma acceptResult_touched: "touched h c (acceptResult h now a s c)"
  using frame_modify [of "\<lambda>k. k\<lparr>failureCounter := 0\<rparr>" c a]
    frame_modify [of "\<lambda>k. k\<lparr>successCounter := 0\<rparr>" c a]
  by (auto simp: acceptResult_def touched_def frame_all_def)

lemma acceptResult_simps [simp]:
  "deferCheck (acceptResult h now a s c) = deferCheck c" "batcher (acceptResult h now a s c) = batcher c"
  "checks (acceptResult h now a s c) = checks c"
  "CheckUpdateInterval (acceptResult h now a s c) = CheckUpdateInterval c"
  "isAgentless (acceptResult h now a s c) = isAgentless c"
  "esm_check (heap (acceptResult h now a s c) x) = esm_check (heap c x)"
  "esm_mu (heap (acceptResult h now a s c) x) = esm_mu (heap c x)"
  by (simp_all add: acceptResult_def)

lemma UpdateCheck_locked_touched:
  assumes "UpdateCheck_locked e h a s t (c, w) = Inr (c', w')"
  shows "touched h c c'"
proof -
  have hd: "handleCheckUpdate e a s t x y (d, w) = Inr (c', w') \<Longrightarrow> touched h c d \<Longrightarrow> touched h c c'"
    for d x y using handle_frame [of e a s t x y d w c' w'] by (auto simp: touched_def intro: frame_trans)
  show ?thesis using assms
    unfolding UpdateCheck_locked_def Let_def
    by (auto split: if_splits intro!: modify_touched acceptResult_touched elim!: hd)
qed

lemma UpdateCheck_touched:
  assumes "UpdateCheck e h s t (c, w) = Inr (c', w')"
  shows "touched h c c'"
proof (cases "gm_load (checks c) h")
  case None
  then show ?thesis using assms by (simp add: UpdateCheck_def)
next
  case (Some a)
  then obtain c1 c2 where l: "mu_Lock a c = Inr c1"
    and b: "UpdateCheck_locked e h a s t (c1, w) = Inr (c2, w')" and c': "c' = mu_Unlock a c2"
    using assms by (auto simp: UpdateCheck_def bindR_eq_Inr)
  from l have c1: "c1 = modify_esm a (\<lambda>k. k\<lparr>esm_mu := True\<rparr>) c" "\<not> esm_mu (heap c a)"
    by (auto simp: mu_Lock_def split: if_splits)
  from UpdateCheck_locked_touched [OF b] have t: "touched h c1 c2" .
  have crit: "checksCritical c' = checksCritical c2" "checksCritical c1 = checksCritical c"
    unfolding c' c1 by (simp_all add: mu_Unlock_def)
  let ?d = "c2\<lparr>checksCritical := checksCritical c, deferCheck := deferCheck c, batcher := batcher c\<rparr>"
  have "frame_all c1 ?d" using t by (simp add: frame_all_def touched_def c1)
  from mu_Lock_unlock [OF l this] have "frame c (mu_Unlock a ?d)" by (rule frame_all_frame)
  then have "frame c c'" unfolding c' by (simp add: frame_def mu_Unlock_def)
  with t crit show ?thesis by (simp add: touched_def)
qed

lemma UpdateCheck_absent: "gm_load (checks c) h = None \<Longrightarrow> UpdateCheck e h s t (c, w) = Inr (c, w)"
  by (simp add: UpdateCheck_def)

lemma UpdateCheck_runner_inv:
  assumes "UpdateCheck e h s t (c, w) = Inr (c', w')" and "runner_inv c"
  shows "runner_inv c'"
proof (cases "gm_load (checks c) h")
  case None
  then show ?thesis using assms UpdateCheck_absent by (simp add: UpdateCheck_def)
next
  case (Some a)
  then have "insert h (dom (gm_load (checksCritical c))) \<subseteq> dom (gm_load (checks c))"
    using assms(2) by (auto simp: runner_inv_def)
  with UpdateCheck_touched [OF assms(1)] show ?thesis
    unfolding touched_def by (meson frame_runner_inv [OF _ assms(2)] subset_trans)
qed

text \<open>The batcher, if there is one, keeps its invariant.\<close>

definition batch_ok :: "CheckRunner \<Rightarrow> bool" where
  "batch_ok c \<longleftrightarrow> (case batcher c of None \<Rightarrow> True | Some b \<Rightarrow> batcher_inv b)"

lemma batch_ok_cong: "batcher c' = batcher c \<Longrightarrow> batch_ok c' = batch_ok c"
  by (simp add: batch_ok_def)

lemma handle_batch_ok:
  assumes "handleCheckUpdate e a s t os ot (c, w) = Inr (c', w')" and "batch_ok c"
  shows "batch_ok c'"
proof (cases "batcher c")
  case None
  then show ?thesis using assms
    by (auto simp: batch_ok_def handleCheckUpdate_def handleCheckUpdateImmediate_def Let_def
        split: prod.splits sum.splits option.splits if_splits)
next
  case (Some b)
  then show ?thesis using assms
    by (auto simp: batch_ok_def handleCheckUpdate_def Add_def bindR_eq_Inr
        split: prod.splits dest: Add_locked_inv)
qed

lemma batcher_field_ok [simp]:
  "batch_ok (modify_esm a f c) = batch_ok c" "batch_ok (trackCritical h t c) = batch_ok c"
  "batch_ok (acceptResult h n a s c) = batch_ok c" "batch_ok (c\<lparr>deferCheck := d\<rparr>) = batch_ok c"
  by (simp_all add: batch_ok_def)

lemma UpdateCheck_locked_batch_ok:
  "UpdateCheck_locked e h a s t (c, w) = Inr (c', w') \<Longrightarrow> batch_ok c \<Longrightarrow> batch_ok c'"
  unfolding UpdateCheck_locked_def Let_def
  by (auto split: if_splits elim!: handle_batch_ok)

lemma UpdateCheck_batch_ok:
  assumes "UpdateCheck e h s t (c, w) = Inr (c', w')" and "batch_ok c"
  shows "batch_ok c'"
  using assms
  by (auto simp: UpdateCheck_def bindR_eq_Inr mu_Lock_def mu_Unlock_def
      split: option.splits if_splits dest!: UpdateCheck_locked_batch_ok)

subsection \<open>The runner as a step relation\<close>

text \<open>
  Every entry point of the runner, in any order: the catalog watcher's \<^verbatim>\<open>UpdateChecks\<close>, a
  checker's result, the timers of deferred syncs and of the batcher, the reaper, and
  \<^verbatim>\<open>Stop\<close>'s flush through \<open>flushFired\<close>. An operation that does not return is no step.
\<close>

inductive runner_step :: "CheckRunner \<times> 'w \<Rightarrow> CheckRunner \<times> 'w \<Rightarrow> bool" where
  step_sync: "visits ord \<Longrightarrow> \<forall>k \<in> set cs. single_protocol (hc_Definition k) \<Longrightarrow>
    runner_step (c, w) (fst (UpdateChecks ord cs c), w)"
| step_result: "UpdateCheck e h s t st = Inr st' \<Longrightarrow> runner_step st st'"
| step_defer: "deferFired e h st = Inr st' \<Longrightarrow> runner_step st st'"
| step_flush: "flushFired e st = Inr st' \<Longrightarrow> runner_step st st'"
| step_reap: "reapServicesInternal cl ord now c w = (reaped, w') \<Longrightarrow> runner_step (c, w) (c, w')"

inductive runner_init :: "CheckRunner \<times> 'w \<Rightarrow> bool" where
  "runner_init (NewCheckRunner ui mi tls pass crit ag bf, w)"

inductive_cases runner_initE: "runner_init st"
inductive_cases runner_stepE: "runner_step st st'"

definition good :: "CheckRunner \<times> 'w \<Rightarrow> bool" where
  "good st \<longleftrightarrow> runner_inv (fst st) \<and> unlocked (fst st) \<and> batch_ok (fst st)"

lemma updateCheck_kept:
  "updateCheckHTTP h d (c, u, a) = (b, c', u', a') \<Longrightarrow> heap c' = heap c \<and> batcher c' = batcher c"
  "updateCheckTCP h d (c, u, a) = (b, c', u', a') \<Longrightarrow> heap c' = heap c \<and> batcher c' = batcher c"
  "updateCheckGRPC h d (c, u, a) = (b, c', u', a') \<Longrightarrow> heap c' = heap c \<and> batcher c' = batcher c"
  unfolding updateCheckHTTP_def updateCheckTCP_def updateCheckGRPC_def Let_def
  by (auto simp: startHTTP_def startTCP_def startGRPC_def same_rest_def
      split: option.splits if_splits bool.splits prod.splits dest: stopExistingChecks_rest)

lemma storeCheck_kept:
  "unlocked c \<Longrightarrow> unlocked (storeCheck k h c)" "batcher (storeCheck k h c) = batcher c"
  by (auto simp: unlocked_def storeCheck_def Let_def split: option.splits)

lemma updateOne_kept:
  assumes "updateOne k (c, f, u, a) = (c', f', u', a')"
  shows "batcher c' = batcher c \<and> (unlocked c \<longrightarrow> unlocked c')"
proof -
  have "unlocked c \<Longrightarrow> heap d = heap c \<Longrightarrow> unlocked d" for d by (simp add: unlocked_def)
  then show ?thesis using assms unfolding updateOne_def Let_def
    by (auto split: if_splits prod.splits dest!: updateCheck_kept simp: storeCheck_kept)
qed

lemma fold_updateOne_kept:
  "fold updateOne cs (c, f, u, a) = (c', f', u', a') \<Longrightarrow>
   batcher c' = batcher c \<and> (unlocked c \<longrightarrow> unlocked c')"
proof (induction cs arbitrary: c f u a)
  case (Cons k cs)
  obtain c1 f1 u1 a1 where 1: "updateOne k (c, f, u, a) = (c1, f1, u1, a1)"
    using prod_cases4 by blast
  with Cons.prems have "fold updateOne cs (c1, f1, u1, a1) = (c', f', u', a')" by simp
  from Cons.IH [OF this] updateOne_kept [OF 1] show ?case by auto
qed simp

lemma removeOne_kept:
  "fst (removeOne f kv (c, r)) = c' \<Longrightarrow> heap c' = heap c \<and> batcher c' = batcher c"
  by (auto simp: removeOne_def Let_def stop_checker_def split: option.splits)

lemma fold_removeOne_kept:
  "fold (removeOne f) kvs (c, r) = (c', r') \<Longrightarrow> heap c' = heap c \<and> batcher c' = batcher c"
proof (induction kvs arbitrary: c r)
  case (Cons kv kvs)
  obtain c1 r1 where 1: "removeOne f kv (c, r) = (c1, r1)" by fastforce
  with Cons show ?case using removeOne_kept [of f kv c r c1] by auto
qed simp

lemma UpdateChecks_kept:
  assumes "UpdateChecks ord cs c = (c', found, added, updated, removed)"
  shows "batcher c' = batcher c \<and> (unlocked c \<longrightarrow> unlocked c')"
proof -
  obtain c1 where "fold updateOne cs (c, [], [], []) = (c1, found, updated, added)"
    and "fold (removeOne found) (ord (checks c1)) (c1, []) = (c', removed)"
    using assms by (auto simp: UpdateChecks_def split: prod.splits)
  from fold_updateOne_kept [OF this(1)] fold_removeOne_kept [OF this(2)]
  show ?thesis by (simp add: unlocked_def)
qed

lemma good_sync:
  assumes "good (c, w)" and "visits ord" and "\<forall>k \<in> set cs. single_protocol (hc_Definition k)"
  shows "good (fst (UpdateChecks ord cs c), w)"
proof -
  obtain c' found added updated removed
    where up: "UpdateChecks ord cs c = (c', found, added, updated, removed)"
    using prod_cases5 by blast
  have inv: "runner_inv c" using assms(1) by (simp add: good_def)
  from UpdateChecks_effect(1) [OF up inv assms(2,3)] UpdateChecks_kept [OF up] assms(1) up
  show ?thesis by (auto simp: good_def batch_ok_def)
qed

lemma good_result:
  assumes "good st" and "UpdateCheck e h s t st = Inr st'"
  shows "good st'"
proof -
  obtain c w c' w' where st: "st = (c, w)" "st' = (c', w')" by fastforce
  from assms have up: "UpdateCheck e h s t (c, w) = Inr (c', w')" by (simp add: st)
  from UpdateCheck_runner_inv [OF up] UpdateCheck_batch_ok [OF up] UpdateCheck_touched [OF up] assms(1)
  show ?thesis by (auto simp: good_def st touched_def intro: frame_unlocked)
qed

lemma good_frame:
  assumes "good (c, w)" and "frame c c'" and "checksCritical c' = checksCritical c" and "batch_ok c'"
  shows "good (c', w')"
proof -
  have "runner_inv c'" using assms(1-3)
    by (intro frame_runner_inv [OF assms(2)]) (auto simp: good_def runner_inv_def)
  with assms(1,2,4) show ?thesis by (auto simp: good_def intro: frame_unlocked)
qed

lemma defer_frame:
  assumes "deferFired e h (c, w) = Inr (c', w')" and "batch_ok c"
  shows "frame c c' \<and> checksCritical c' = checksCritical c \<and> batch_ok c'"
proof (cases "gm_load (deferCheck c) h")
  case None
  then show ?thesis using assms by (simp add: deferFired_def)
next
  case (Some t)
  then obtain c1 where hd: "handleCheckUpdate e (dt_check t) (dt_status t) (dt_output t) '''' ''''
      (c, w) = Inr (c1, w')" and c': "c' = c1\<lparr>deferCheck := gm_delete h (deferCheck c1)\<rparr>"
    using assms(1) by (auto simp: deferFired_def bindR_eq_Inr)
  from handle_frame [OF hd] handle_batch_ok [OF hd] assms(2) show ?thesis by (simp add: c')
qed

lemma good_defer:
  assumes "good st" and "deferFired e h st = Inr st'"
  shows "good st'"
proof -
  obtain c w c' w' where st: "st = (c, w)" "st' = (c', w')" by fastforce
  from assms have "deferFired e h (c, w) = Inr (c', w')" and g: "good (c, w)" by (simp_all add: st)
  from defer_frame [OF this(1)] g have "frame c c'" "checksCritical c' = checksCritical c" "batch_ok c'"
    by (simp_all add: good_def)
  with good_frame [OF g] show ?thesis by (simp add: st)
qed

lemma flush_frame:
  assumes "flushFired e (c, w) = Inr (c', w')"
  shows "frame c c' \<and> checksCritical c' = checksCritical c \<and> batch_ok c' \<and>
    (\<forall>b. batcher c' = Some b \<longrightarrow> pendingUpdates b = [] \<and> flushTimer b = None)"
proof (cases "batcher c")
  case None
  then show ?thesis using assms by (simp add: flushFired_def batch_ok_def)
next
  case (Some b)
  then obtain us b1 c1 where dr: "drainLocked (env_updates e) b = (us, b1)"
    and pr: "processUpdates (processFunc e) us (c, w) = Inr (c1, w')"
    and c': "c' = c1\<lparr>batcher := Some b1\<rparr>"
    using assms by (auto simp: flushFired_def Flush_def bindR_eq_Inr split: prod.splits)
  from pr have "frame_all c c1"
    by (auto simp: processUpdates_def processFunc_def split: if_splits intro: processBatched_frame)
  with drainLocked_inv [OF dr] dr show ?thesis
    by (auto simp: c' frame_all_def batch_ok_def drainLocked_simp)
qed

lemma good_flush:
  assumes "good st" and "flushFired e st = Inr st'"
  shows "good st'"
proof -
  obtain c w c' w' where st: "st = (c, w)" "st' = (c', w')" by fastforce
  with assms flush_frame [of e c w c' w'] show ?thesis by (auto intro: good_frame)
qed

lemma good_world: "good (c, w) \<Longrightarrow> good (c, w')"
  by (simp add: good_def)

lemma good_New: "good (NewCheckRunner ui mi tls pass crit ag bf, w)"
  using runner_inv_New [of ui mi tls pass crit ag bf]
  by (auto simp: good_def unlocked_def batch_ok_def NewCheckRunner_def zero_esm_def batcher_inv_New)

interpretation runner: inductive_invariant runner_init runner_step good
proof unfold_locales
  show "runner_init st \<Longrightarrow> good st" for st
    by (erule runner_initE) (simp add: good_New)
  show "good st \<Longrightarrow> runner_step st st' \<Longrightarrow> good st'" for st st'
    by (erule runner_stepE)
      (auto intro: good_sync good_result good_defer good_flush good_world)
qed



end
