(* ===== verification/Check_Claims.thy ===== *)
theory Check_Claims
  imports Check_Results
begin

text \<open>
  The properties of the check runner's results: flapping, termination and the one way it
  fails, rollback of failed batches, the size and order of transactions, and reaping.
\<close>

subsection \<open>Flapping\<close>

text \<open>The counter that a result of status \<open>s\<close> advances, and its threshold.\<close>

definition counter :: "string \<Rightarrow> esmHealthCheck \<Rightarrow> int" where
  "counter s k = (if s = HealthCritical then failureCounter k else successCounter k)"

definition threshold :: "string \<Rightarrow> CheckRunner \<Rightarrow> int" where
  "threshold s c = (if s = HealthCritical then CriticalThreshold c else PassingThreshold c)"

definition bump :: "string \<Rightarrow> int \<Rightarrow> esmHealthCheck \<Rightarrow> esmHealthCheck" where
  "bump s n k = (if s = HealthCritical then k\<lparr>failureCounter := failureCounter k + n\<rparr>
     else k\<lparr>successCounter := successCounter k + n\<rparr>)"

lemma bump_simps [simp]:
  "counter s (bump s n k) = counter s k + n" "esm_mu (bump s n k) = esm_mu k"
  "esm_check (bump s n k) = esm_check k" "bump s m (bump s n k) = bump s (n + m) k" "bump s 0 k = k"
  by (auto simp: bump_def counter_def)

lemma threshold_modify [simp]: "threshold s (modify_esm a f c) = threshold s c"
  by (simp add: threshold_def)

lemma modify_modify: "modify_esm a f (modify_esm a g c) = modify_esm a (\<lambda>k. f (g k)) c"
  by (simp add: modify_esm_def)

lemma UpdateCheck_unfold:
  assumes "gm_load (checks c) h = Some a" and "\<not> esm_mu (heap c a)"
  shows "UpdateCheck e h s t (c, w) =
    bindR (UpdateCheck_locked e h a s t (modify_esm a (\<lambda>k. k\<lparr>esm_mu := True\<rparr>) c, w))
      (\<lambda>(c2, w2). Inr (mu_Unlock a c2, w2))"
  using assms by (simp add: UpdateCheck_def mu_Lock_def)

lemma UpdateCheck_locked_bump:
  assumes "hc_Status (esm_check (heap c a)) \<noteq> s" and "counter s (heap c a) < threshold s c"
  shows "UpdateCheck_locked e h a s t (c, w) = Inr (modify_esm a (bump s 1) c, w)"
proof (cases "s = HealthCritical")
  case True
  then show ?thesis using assms
    by (simp add: UpdateCheck_locked_def Let_def counter_def threshold_def bump_def)
next
  case False
  then show ?thesis using assms
    by (simp add: UpdateCheck_locked_def Let_def counter_def threshold_def bump_def)
qed

lemma counter_mu [simp]: "counter s (k\<lparr>esm_mu := b\<rparr>) = counter s k"
  by (simp add: counter_def)

lemma UpdateCheck_bump:
  assumes "gm_load (checks c) h = Some a" and "\<not> esm_mu (heap c a)"
    and "hc_Status (esm_check (heap c a)) \<noteq> s" and "counter s (heap c a) < threshold s c"
  shows "UpdateCheck e h s t (c, w) = Inr (modify_esm a (bump s 1) c, w)"
proof -
  let ?c1 = "modify_esm a (\<lambda>k. k\<lparr>esm_mu := True\<rparr>) c"
  have b: "UpdateCheck_locked e h a s t (?c1, w) = Inr (modify_esm a (bump s 1) ?c1, w)"
    by (rule UpdateCheck_locked_bump) (use assms in simp_all)
  have "(bump s 1 (k\<lparr>esm_mu := True\<rparr>))\<lparr>esm_mu := False\<rparr> = bump s 1 k" if "\<not> esm_mu k" for k
    using that by (cases k) (simp add: bump_def)
  then have "mu_Unlock a (modify_esm a (bump s 1) ?c1) = modify_esm a (bump s 1) c"
    using assms(2) by (simp add: mu_Unlock_def modify_esm_def)
  with b show ?thesis by (simp add: UpdateCheck_unfold [OF assms(1,2)])
qed

lemma suppressed_run:
  assumes "gm_load (checks c) h = Some a" and "\<not> esm_mu (heap c a)"
    and "hc_Status (esm_check (heap c a)) \<noteq> s"
    and "counter s (heap c a) + int (length outs) \<le> threshold s c"
  shows "foldR (\<lambda>(e, t). UpdateCheck e h s t) outs (c, w) =
    Inr (modify_esm a (bump s (int (length outs))) c, w)"
  using assms
proof (induction outs arbitrary: c)
  case Nil
  then show ?case by (simp add: modify_esm_def)
next
  case (Cons et outs)
  obtain e t where et: "et = (e, t)" by fastforce
  let ?c = "modify_esm a (bump s 1) c"
  have 1: "UpdateCheck e h s t (c, w) = Inr (?c, w)"
    by (rule UpdateCheck_bump) (use Cons.prems in auto)
  have "foldR (\<lambda>(e, t). UpdateCheck e h s t) outs (?c, w) =
      Inr (modify_esm a (bump s (int (length outs))) ?c, w)"
    by (rule Cons.IH) (use Cons.prems in auto)
  then show ?case using 1 by (simp add: et modify_modify add.commute)
qed

lemma decisive_result:
  assumes "gm_load (checks c) h = Some a" and "\<not> esm_mu (heap c a)"
    and "hc_Status (esm_check (heap c a)) \<noteq> s" and "counter s (heap c a) \<ge> threshold s c"
    and "batcher c = None"
  shows "\<exists>c2. UpdateCheck e h s t (c, w) = Inr (mu_Unlock a (fst (handleCheckUpdateImmediate
      (env_client e) a s t (c2, w))), snd (handleCheckUpdateImmediate (env_client e) a s t (c2, w)))
    \<and> counter s (heap c2 a) = 0 \<and> ident (heap c2 a) = ident (heap c a)
    \<and> gm_mem h (checksCritical c2) = (s = HealthCritical)"
proof -
  let ?c1 = "modify_esm a (\<lambda>k. k\<lparr>esm_mu := True\<rparr>) c"
  let ?c2 = "acceptResult h (env_now e) a s ?c1"
  let ?c3 = "if isAgentless c then modify_esm a (set_state s t) ?c2 else ?c2"
  have st: "hc_Status (esm_check (heap ?c1 a)) \<noteq> s" "counter s (heap ?c1 a) \<ge> threshold s ?c1"
    using assms by simp_all
  have "UpdateCheck_locked e h a s t (?c1, w) = Inr (handleCheckUpdateImmediate (env_client e) a s t
      (?c3, w))"
    using st assms(5) unfolding UpdateCheck_locked_def Let_def counter_def threshold_def
    by (simp add: handleCheckUpdate_def split: if_splits)
  then have "UpdateCheck e h s t (c, w) = Inr (mu_Unlock a (fst (handleCheckUpdateImmediate
      (env_client e) a s t (?c3, w))), snd (handleCheckUpdateImmediate (env_client e) a s t (?c3, w)))"
    by (simp add: UpdateCheck_unfold [OF assms(1,2)] split: prod.splits)
  moreover have "counter s (heap ?c3 a) = 0 \<and> ident (heap ?c3 a) = ident (heap c a)"
    by (auto simp: counter_def acceptResult_def)
  moreover have "gm_mem h (checksCritical ?c3) = (s = HealthCritical)"
    by (auto simp: acceptResult_def gm_mem_def trackCritical_def)
  ultimately show ?thesis by blast
qed

text \<open>C5. Flapping is suppressed. For a check whose status differs from \<open>s\<close> and whose counter is at
  zero, any run of at most as many \<open>s\<close>-results as the threshold of \<open>s\<close> says changes nothing but
  the counter, and no request goes to Consul. The next such result is acted on: the
  counter is reset, the check is tracked as critical exactly when \<open>s\<close> is critical, and the
  update is sent (without a batcher, at once).\<close>

theorem anti_flapping:
  assumes "gm_load (checks c) h = Some a" and "\<not> esm_mu (heap c a)"
    and "hc_Status (esm_check (heap c a)) \<noteq> s" and "counter s (heap c a) = 0"
    and "batcher c = None" and "int (length outs) \<le> threshold s c"
  shows "foldR (\<lambda>(e, t). UpdateCheck e h s t) outs (c, w) =
      Inr (modify_esm a (bump s (int (length outs))) c, w) \<and>
    (int (length outs) = threshold s c \<longrightarrow>
      (\<exists>c2. foldR (\<lambda>(e, t). UpdateCheck e h s t) (outs @ [(e, t)]) (c, w) =
         (let (c3, w3) = handleCheckUpdateImmediate (env_client e) a s t (c2, w)
          in Inr (mu_Unlock a c3, w3)) \<and>
         counter s (heap c2 a) = 0 \<and> ident (heap c2 a) = ident (heap c a) \<and>
         gm_mem h (checksCritical c2) = (s = HealthCritical)))"
proof (intro conjI impI)
  show run: "foldR (\<lambda>(e, t). UpdateCheck e h s t) outs (c, w) =
      Inr (modify_esm a (bump s (int (length outs))) c, w)"
    by (rule suppressed_run) (use assms in simp_all)
  assume full: "int (length outs) = threshold s c"
  let ?c = "modify_esm a (bump s (int (length outs))) c"
  have "ident (heap ?c a) = ident (heap c a)" by (simp add: ident_def)
  with decisive_result [of ?c h a s e t w] assms full run show
    "\<exists>c2. foldR (\<lambda>(e, t). UpdateCheck e h s t) (outs @ [(e, t)]) (c, w) =
         (let (c3, w3) = handleCheckUpdateImmediate (env_client e) a s t (c2, w)
          in Inr (mu_Unlock a c3, w3)) \<and>
         counter s (heap c2 a) = 0 \<and> ident (heap c2 a) = ident (heap c a) \<and>
         gm_mem h (checksCritical c2) = (s = HealthCritical)"
    by (auto simp: foldR_append split_def Let_def)
qed

text \<open>A watched check for the witnesses, with two critical results tolerated; a client of a
  catalog that is the list of its checks, and an environment around it.\<close>

definition watched_runner :: "bool \<Rightarrow> CheckRunner" where
  "watched_runner agentless = fst (UpdateChecks (\<lambda>m. m) [sample_check]
     (NewCheckRunner 0 Second \<lparr>tls_InsecureSkipVerify = False, tls_ServerName = ''''\<rparr> 1 2 agentless (- 1)))"

definition catalog_client :: "HealthCheck list check_client" where
  "catalog_client = \<lparr>Health_Node = (\<lambda>n q w. (Inr (filter (\<lambda>k. hc_Node k = n) w), w)),
     Txn_Txn = (\<lambda>ops q w. (Inr (True, []), fold (\<lambda>p w. case p of
        TxnCheck v k \<Rightarrow> map (\<lambda>k'. if hc_Node k' = hc_Node k \<and> hc_CheckID k' = hc_CheckID k
          then k else k') w | _ \<Rightarrow> w) ops w)),
     Catalog_Deregister = (\<lambda>n s w. (None, w))\<rparr>"

definition broken_client :: "unit check_client" where
  "broken_client = \<lparr>Health_Node = (\<lambda>n q w. (Inl ''connection refused'', w)),
     Txn_Txn = (\<lambda>ops q w. (Inl ''connection refused'', w)),
     Catalog_Deregister = (\<lambda>n s w. (Some ''connection refused'', w))\<rparr>"

definition env_of :: "'w check_client \<Rightarrow> 'w env" where
  "env_of cl = \<lparr>env_client = cl, env_updates = (\<lambda>m. m), env_failed = (\<lambda>m. m),
     env_stagger = (\<lambda>d. 0), env_now = 100\<rparr>"

lemma watched_facts:
  "gm_load (checks (watched_runner ag)) ''n1/web/tcp'' = Some 1"
  "\<not> esm_mu (heap (watched_runner ag) 1)"
  "esm_check (heap (watched_runner ag) 1) = sample_check"
  "failureCounter (heap (watched_runner ag) 1) = 0" "successCounter (heap (watched_runner ag) 1) = 0"
  "CriticalThreshold (watched_runner ag) = 2" "batcher (watched_runner False) = None"
  by (cases ag; code_simp)+

theorem anti_flapping_witness:
  "foldR (\<lambda>(e, t). UpdateCheck e ''n1/web/tcp'' HealthCritical t)
     [(env_of catalog_client, ''refused''), (env_of catalog_client, ''refused'')]
     (watched_runner False, [sample_check]) =
   Inr (modify_esm 1 (bump HealthCritical 2) (watched_runner False), [sample_check])"
proof -
  have "hc_Status (esm_check (heap (watched_runner False) 1)) \<noteq> HealthCritical"
    unfolding watched_facts(3) by code_simp
  moreover have "counter HealthCritical (heap (watched_runner False) 1) = 0"
    by (simp add: counter_def watched_facts del: One_nat_def)
  ultimately show ?thesis
    using anti_flapping [OF watched_facts(1,2) _ _ watched_facts(7), of HealthCritical
        "[(env_of catalog_client, ''refused''), (env_of catalog_client, ''refused'')]" "[sample_check]"]
    by (simp add: threshold_def watched_facts del: One_nat_def)
qed

subsection \<open>Termination\<close>

lemma handle_returns:
  assumes "\<forall>b. batcher c = Some b \<longrightarrow> int (Suc (length (pendingUpdates b))) < maxBatchSize b"
  shows "\<exists>st'. handleCheckUpdate e a s t os ot (c, w) = Inr st'"
proof (cases "batcher c")
  case (Some b)
  let ?u = "\<lparr>pu_check = esm_check (heap c a), pu_status = s, pu_output = t, pu_oldStatus = os, pu_oldOutput = ot\<rparr>"
  have "int (length (gm_store (update_key ?u) ?u (pendingUpdates b))) < maxBatchSize b"
    using assms Some by (auto simp: length_gm_store)
  from Add_locked_queued [OF this] Some show ?thesis
    by (simp add: handleCheckUpdate_def Add_def processUpdates_def processFunc_def)
qed (simp add: handleCheckUpdate_def)

lemma UpdateCheck_locked_returns:
  assumes "\<forall>b. batcher c = Some b \<longrightarrow> int (Suc (length (pendingUpdates b))) < maxBatchSize b"
  shows "\<exists>st'. UpdateCheck_locked e h a s t (c, w) = Inr st'"
proof -
  have hd: "\<exists>st'. handleCheckUpdate e a s' t x y (d, w) = Inr st'" if "batcher d = batcher c"
    for d s' x y
    by (rule handle_returns) (use assms that in simp)
  show ?thesis unfolding UpdateCheck_locked_def Let_def
    by (auto simp del: split_paired_Ex intro!: hd)
qed

lemma revertCheckState_not_Inl: "unlocked c \<Longrightarrow> revertCheckState h s t c \<noteq> Inl x"
  using revertCheckState_returns [of c h s t] by auto

lemma retryOne_returns:
  assumes "unlocked c" and "0 \<le> fst x"
  shows "\<exists>st'. retryOne cl us x (c, w) = Inr st' \<and> unlocked (fst st')"
proof -
  have "retryOne cl us x (c, w) \<noteq> Inl f" for f
    using assms revertCheckState_not_Inl [OF assms(1)] unfolding retryOne_def Let_def
    by (auto split: prod.splits sum.splits option.splits simp: bindR_eq_Inl)
  then obtain c' w' where r: "retryOne cl us x (c, w) = Inr (c', w')"
    by (cases "retryOne cl us x (c, w)") auto
  with frame_unlocked [OF frame_all_frame [OF retryOne_frame [OF r]] assms(1)] show ?thesis by simp
qed

lemma failedIndices_nonneg:
  "\<forall>x \<in> set errs. 0 \<le> te_OpIndex x \<Longrightarrow> \<forall>kv \<in> set m. 0 \<le> fst kv \<Longrightarrow>
   \<forall>kv \<in> set (fold (\<lambda>e m. if staleIndex e then gm_store (te_OpIndex e) (te_What e) m else m) errs m).
     0 \<le> fst kv"
proof (induction errs arbitrary: m)
  case (Cons x errs)
  show ?case
  proof (cases "staleIndex x")
    case True
    have "\<forall>kv \<in> set (gm_store (te_OpIndex x) (te_What x) m). 0 \<le> fst kv"
      using Cons.prems set_gm_store_subset [of "te_OpIndex x" "te_What x" m] by auto
    with Cons.IH Cons.prems True show ?thesis by simp
  qed (use Cons in simp)
qed simp

lemma retryFailed_returns:
  fixes cl :: "'w check_client"
  assumes "unlocked c" and "visits ord" and "\<forall>x \<in> set errs. 0 \<le> te_OpIndex x"
  shows "\<exists>st'. retryFailedBatchOperations cl ord us errs (c, w) = Inr st' \<and> unlocked (fst st')"
proof -
  let ?m = "fold (\<lambda>e m. if staleIndex e then gm_store (te_OpIndex e) (te_What e) m else m) errs []"
  have nn: "\<forall>kv \<in> set (ord ?m). 0 \<le> fst kv"
    using failedIndices_nonneg [OF assms(3), of "[]"] set_visits [OF assms(2)] by simp
  have "\<exists>st'. foldR (retryOne cl us) (ord ?m) (c, w) = Inr st' \<and> unlocked (fst st')"
  proof (rule foldR_returns [where P = "\<lambda>st. unlocked (fst st)"])
    fix x and st :: "CheckRunner \<times> 'w" assume "x \<in> set (ord ?m)" "unlocked (fst st)"
    with retryOne_returns [of "fst st" x cl us "snd st"] nn
    show "\<exists>t. retryOne cl us x st = Inr t \<and> unlocked (fst t)" by simp
  qed (use assms(1) in simp)
  then show ?thesis using assms(1) by (simp add: retryFailedBatchOperations_def Let_def)
qed

lemma revert_fold_returns:
  assumes "unlocked c"
    and "\<And>u c. unlocked c \<Longrightarrow> \<exists>c'. f u c = Inr c'" and "\<And>u c c'. f u c = Inr c' \<Longrightarrow> frame_all c c'"
  shows "\<exists>c'. foldR f us c = Inr c' \<and> unlocked c'"
proof (rule foldR_returns [where P = unlocked, OF assms(1)])
  fix u c assume "unlocked c"
  moreover from assms(2) [OF this, of u] obtain c' where "f u c = Inr c'" by blast
  ultimately show "\<exists>t. f u c = Inr t \<and> unlocked t"
    using frame_unlocked [OF frame_all_frame [OF assms(3)]] by blast
qed

lemma revertAll_returns: "unlocked c \<Longrightarrow> \<exists>c'. revertAllUpdates us c = Inr c' \<and> unlocked c'"
  unfolding revertAllUpdates_def
  by (rule revert_fold_returns) (auto simp: revertUpdate_def intro: revertCheckState_returns revertUpdate_frame)

text \<open>The documented shape of a transaction's errors: each names an operation by its position.\<close>

definition error_indices :: "'w check_client \<Rightarrow> bool" where
  "error_indices cl \<longleftrightarrow> (\<forall>ops q w ok errs w'. Txn_Txn cl ops q w = (Inr (ok, errs), w') \<longrightarrow>
     (\<forall>x \<in> set errs. 0 \<le> te_OpIndex x))"

lemma executeBatch_returns:
  assumes "unlocked c" and "visits ord" and "error_indices cl"
  shows "\<exists>st'. executeBatchTransaction cl ord ops us (c, w) = Inr st'"
proof -
  obtain r w1 where t: "Txn_Txn cl ops (txn_opts c) w = (r, w1)" by fastforce
  obtain c1 where c1: "revertAllUpdates us c = Inr c1" using revertAll_returns [OF assms(1)] by blast
  show ?thesis
  proof (cases r)
    case (Inl err)
    then show ?thesis using t c1 by (simp add: executeBatchTransaction_def)
  next
    case (Inr p)
    then obtain ok errs where r: "r = Inr (ok, errs)" by (cases p) auto
    then have "\<forall>x \<in> set errs. 0 \<le> te_OpIndex x"
      using assms(3) t unfolding error_indices_def by blast
    from retryFailed_returns [OF assms(1,2) this, of cl us w1] show ?thesis using t r c1
      by (auto simp: executeBatchTransaction_def Let_def)
  qed
qed

lemma buildOne_returns:
  assumes "unlocked (fst (snd (snd st)))" and "visits ord" and "error_indices cl"
  shows "\<exists>t. buildOne cl ord nc u st = Inr t \<and> unlocked (fst (snd (snd t)))"
proof -
  obtain ops ps c w where st: "st = (ops, ps, c, w)" using prod_cases4 by blast
  have "buildOne cl ord nc u st \<noteq> Inl f" for f
    using assms(1) executeBatch_returns [OF _ assms(2,3), of c] unfolding buildOne_def st Let_def
    by (auto split: option.splits simp: bindR_eq_Inl)
      (metis Inl_Inr_False executeBatch_returns assms(2,3))
  then obtain ops' ps' c' w' where "buildOne cl ord nc u st = Inr (ops', ps', c', w')"
    by (cases "buildOne cl ord nc u st") auto
  with buildOne_frame [of cl ord nc u ops ps c w ops' ps' c' w'] assms(1) st show ?thesis
    by (auto intro: frame_unlocked dest: frame_all_frame)
qed

lemma revertFailed_returns: "unlocked c \<Longrightarrow> \<exists>c'. revertFailed fk u c = Inr c'"
  by (auto simp: revertFailed_def intro: revertCheckState_returns)

lemma processBatched_returns:
  assumes "unlocked c" and "visits ord" and "error_indices cl"
  shows "\<exists>st'. processBatchedUpdates cl ord us (c, w) = Inr st'"
proof -
  obtain nc fk w1 where f: "fold (fetchOne cl) us ([], [], w) = (nc, fk, w1)"
    using prod_cases3 by blast
  have "\<exists>c1. foldR (revertFailed fk) us c = Inr c1 \<and> unlocked c1"
    by (rule revert_fold_returns [OF assms(1)]) (auto intro: revertFailed_returns revertFailed_frame)
  then obtain c1 where c1: "foldR (revertFailed fk) us c = Inr c1" and u1: "unlocked c1" by blast
  obtain ops ps c2 w2 where b: "foldR (buildOne cl ord nc) us ([], [], c1, w1) = Inr (ops, ps, c2, w2)"
    and u2: "unlocked c2"
    using foldR_returns [where P = "\<lambda>st. unlocked (fst (snd (snd st)))" and f = "buildOne cl ord nc"
        and xs = us and s = "([], [], c1, w1)"] buildOne_returns [OF _ assms(2,3)] u1 by auto
  from executeBatch_returns [OF u2 assms(2,3), of ops ps w2] b c1 f show ?thesis
    by (auto simp: processBatchedUpdates_def)
qed

text \<open>C6. A result is always handled to the end, with the mutex given back, unless it fills the
  batch: from a state in which no mutex is held, \<^verbatim>\<open>UpdateCheck\<close> returns, in agent mode always
  and in agentless mode whenever the batch has room for one more; and so does every flush
  of the batcher, whatever Consul answers, after which the batch is empty. In both cases no
  mutex is held afterwards.\<close>

theorem results_return:
  assumes "unlocked c" and "visits (env_updates e)" and "visits (env_failed e)"
    and "error_indices (env_client e)"
  shows "((\<forall>b. batcher c = Some b \<longrightarrow> int (Suc (length (pendingUpdates b))) < maxBatchSize b) \<longrightarrow>
      (\<exists>c' w'. UpdateCheck e h s t (c, w) = Inr (c', w') \<and> unlocked c')) \<and>
    (\<exists>c' w'. flushFired e (c, w) = Inr (c', w') \<and> unlocked c' \<and>
      (\<forall>b. batcher c' = Some b \<longrightarrow> pendingUpdates b = []))"
proof (intro conjI impI)
  assume room: "\<forall>b. batcher c = Some b \<longrightarrow> int (Suc (length (pendingUpdates b))) < maxBatchSize b"
  have "\<exists>st'. UpdateCheck e h s t (c, w) = Inr st'"
  proof (cases "gm_load (checks c) h")
    case (Some a)
    let ?c = "modify_esm a (\<lambda>k. k\<lparr>esm_mu := True\<rparr>) c"
    obtain st where "UpdateCheck_locked e h a s t (?c, w) = Inr st"
      using UpdateCheck_locked_returns [of ?c e h a s t w] room by auto
    with UpdateCheck_unfold [OF Some, of e s t w] assms(1) show ?thesis
      by (simp add: unlocked_def split_def)
  qed (simp add: UpdateCheck_def)
  then obtain c' w' where r: "UpdateCheck e h s t (c, w) = Inr (c', w')" by fastforce
  with UpdateCheck_touched [OF r] assms(1)
  show "\<exists>c' w'. UpdateCheck e h s t (c, w) = Inr (c', w') \<and> unlocked c'"
    by (auto simp: touched_def intro: frame_unlocked)
next
  have "\<exists>st'. flushFired e (c, w) = Inr st'"
  proof (cases "batcher c")
    case (Some b)
    obtain us b1 where d: "drainLocked (env_updates e) b = (us, b1)" by fastforce
    from processBatched_returns [OF assms(1,3,4), of us w] obtain st
      where "processBatchedUpdates (env_client e) (env_failed e) us (c, w) = Inr st" by blast
    with Some d show ?thesis
      by (auto simp: flushFired_def Flush_def processUpdates_def processFunc_def split_def)
  qed (simp add: flushFired_def)
  then obtain c' w' where r: "flushFired e (c, w) = Inr (c', w')" by fastforce
  with flush_frame [OF r] assms(1)
  show "\<exists>c' w'. flushFired e (c, w) = Inr (c', w') \<and> unlocked c' \<and>
      (\<forall>b. batcher c' = Some b \<longrightarrow> pendingUpdates b = [])"
    by (auto intro: frame_unlocked)
qed

lemma watched_inv: "good (watched_runner ag, w)"
  unfolding watched_runner_def by (rule good_sync [OF good_New visits_id]) (simp add: single_protocol_sample)

lemma env_of_simps [simp]:
  "env_client (env_of cl) = cl" "env_updates (env_of cl) = (\<lambda>m. m)" "env_failed (env_of cl) = (\<lambda>m. m)"
  by (simp_all add: env_of_def)

lemma error_indices_catalog: "error_indices catalog_client"
  by (simp add: error_indices_def catalog_client_def)

theorem results_return_witness:
  "\<exists>c' w'. UpdateCheck (env_of catalog_client) ''n1/web/tcp'' HealthCritical ''down''
     (watched_runner True, [sample_check]) = Inr (c', w') \<and> unlocked c'"
proof -
  have "unlocked (watched_runner True)" using watched_inv [of True "()"] by (simp add: good_def)
  moreover have "case batcher (watched_runner True) of None \<Rightarrow> True
      | Some b \<Rightarrow> int (Suc (length (pendingUpdates b))) < maxBatchSize b" by code_simp
  ultimately show ?thesis
    using results_return [of "watched_runner True" "env_of catalog_client" "''n1/web/tcp''"
        HealthCritical "''down''" "[sample_check]"] error_indices_catalog
    by (auto simp: visits_id)
qed


subsection \<open>The batch that blocks itself\<close>

lemma held_revert_blocks:
  assumes "gm_load (checks c) h = Some a" and "esm_mu (heap c a)"
  shows "revertCheckState h s t c = Inl MutexBlocked"
  using assms by (simp add: revertCheckState_def mu_Lock_def)

lemma revertFailed_fault: "revertFailed fk u c = Inl f \<Longrightarrow> f = MutexBlocked"
  by (auto simp: revertFailed_def revertCheckState_def mu_Lock_def bindR_eq_Inl
      split: if_splits option.splits)

lemma revert_fold_blocks:
  assumes "u \<in> set us" and "gm_mem (nodeKey u) fk" and "pu_oldStatus u \<noteq> ''''"
    and "gm_load (checks c) (hashCheck (pu_check u)) = Some a" and "esm_mu (heap c a)"
  shows "foldR (revertFailed fk) us c = Inl MutexBlocked"
  using assms
proof (induction us arbitrary: c)
  case (Cons v us)
  show ?case
  proof (cases "v = u")
    case True
    then show ?thesis using Cons.prems held_revert_blocks by (simp add: revertFailed_def)
  next
    case False
    show ?thesis
    proof (cases "revertFailed fk v c")
      case (Inl f)
      then show ?thesis by (simp add: revertFailed_fault)
    next
      case (Inr c')
      from revertFailed_frame [OF this] have "checks c' = checks c" "esm_mu (heap c' a)"
        using Cons.prems(5) by (simp_all add: frame_all_def frame_def)
      with Cons.IH [of c'] Cons.prems False Inr show ?thesis by simp
    qed
  qed
qed simp

lemma gm_mem_store: "gm_mem k (gm_store k' v m) \<longleftrightarrow> k = k' \<or> gm_mem k m"
  by (simp add: gm_mem_def)

lemma fetch_all_failed:
  assumes "\<forall>n q w. \<exists>err w'. Health_Node cl n q w = (Inl err, w')"
  shows "\<exists>fk' w'. fold (fetchOne cl) us ([], fk, w) = ([], fk', w') \<and>
    (\<forall>u. gm_mem (nodeKey u) fk \<or> u \<in> set us \<longrightarrow> gm_mem (nodeKey u) fk')"
proof (induction us arbitrary: fk w)
  case (Cons v us)
  obtain err w1 where "Health_Node cl (hc_Node (pu_check v)) (node_opts (pu_check v)) w = (Inl err, w1)"
    using assms by metis
  then have "fetchOne cl v ([], fk, w) = ([], gm_store (nodeKey v) True fk, w1)"
    by (simp add: fetchOne_def Let_def gm_mem_def)
  with Cons.IH [of "gm_store (nodeKey v) True fk" w1] show ?case
    by (auto simp: gm_mem_store)
qed simp

lemma unreachable_blocks:
  assumes "\<forall>n q w. \<exists>err w'. Health_Node cl n q w = (Inl err, w')"
    and "u \<in> set us" and "pu_oldStatus u \<noteq> ''''"
    and "gm_load (checks c) (hashCheck (pu_check u)) = Some a" and "esm_mu (heap c a)"
  shows "processBatchedUpdates cl ord us (c, w) = Inl MutexBlocked"
proof -
  obtain fk w1 where f: "fold (fetchOne cl) us ([], [], w) = ([], fk, w1)"
    and m: "\<forall>u \<in> set us. gm_mem (nodeKey u) fk"
    using fetch_all_failed [OF assms(1), of us "[]" w] by auto
  from revert_fold_blocks [OF assms(2) _ assms(3-5), of fk] m assms(2) f show ?thesis
    by (auto simp: processBatchedUpdates_def)
qed

lemma UpdateCheck_locked_batched:
  assumes "hc_Status (esm_check (heap c a)) \<noteq> s" and "counter s (heap c a) \<ge> threshold s c"
    and "isAgentless c"
  shows "UpdateCheck_locked e h a s t (c, w) =
    handleCheckUpdate e a s t (hc_Status (esm_check (heap c a))) (hc_Output (esm_check (heap c a)))
      (modify_esm a (set_state s t) (acceptResult h (env_now e) a s c), w)"
  using assms unfolding UpdateCheck_locked_def Let_def counter_def threshold_def
  by (auto split: if_splits)

text \<open>C11. A result that fills the batch while Consul cannot be reached blocks its goroutine for
  good: the updates are processed inside \<^verbatim>\<open>Add\<close>, with the check's mutex held, and rolling the
  check back waits for that mutex. The call does not return, whatever the order of the
  updates in the batch.\<close>

theorem full_batch_self_deadlock:
  assumes "checks_inv c" and "gm_load (checks c) h = Some a" and "\<not> esm_mu (heap c a)"
    and "hc_Status (esm_check (heap c a)) \<notin> {s, ''''}" and "counter s (heap c a) \<ge> threshold s c"
    and "isAgentless c" and "batcher c = Some b"
    and "\<not> gm_mem (makeCheckKey (hc_Node (esm_check (heap c a))) (hc_CheckID (esm_check (heap c a))))
      (pendingUpdates b)"
    and "int (length (pendingUpdates b)) + 1 \<ge> maxBatchSize b" and "visits (env_updates e)"
    and "\<forall>n q w. \<exists>err w'. Health_Node (env_client e) n q w = (Inl err, w')"
  shows "UpdateCheck e h s t (c, w) = Inl MutexBlocked"
proof -
  let ?k = "esm_check (heap c a)"
  let ?c1 = "modify_esm a (\<lambda>k. k\<lparr>esm_mu := True\<rparr>) c"
  let ?c2 = "modify_esm a (set_state s t) (acceptResult h (env_now e) a s ?c1)"
  let ?u = "\<lparr>pu_check = esm_check (heap ?c2 a), pu_status = s, pu_output = t,
    pu_oldStatus = hc_Status ?k, pu_oldOutput = hc_Output ?k\<rparr>"
  let ?m = "gm_store (update_key ?u) ?u (pendingUpdates b)"
  have id: "ident (heap ?c2 a) = ident (heap c a)" by (simp add: ident_def) (simp add: set_state_def)
  then have hash: "hashCheck (pu_check ?u) = h"
    using assms(1,2) hashCheck_ident [OF id] by (simp add: checks_inv_def)
  have key: "update_key ?u = makeCheckKey (hc_Node ?k) (hc_CheckID ?k)"
    by (simp add: update_key_def set_state_def)
  have "int (length ?m) \<ge> maxBatchSize b"
    using assms(8,9) unfolding key by (simp add: length_gm_store)
  note full = Add_locked_full [OF this, of "env_updates e"]
  have "(update_key ?u, ?u) \<in> set ?m"
    by (rule gm_load_eq_SomeD) simp
  then have mem: "?u \<in> set (map snd (env_updates e ?m))"
    using set_visits [OF assms(10), of ?m] by force
  have "processBatchedUpdates (env_client e) (env_failed e) (map snd (env_updates e ?m)) (?c2, w)
      = Inl MutexBlocked"
    by (rule unreachable_blocks [where a = a, OF assms(11) mem]) (use hash assms(2,4) in simp_all)
  with full mem have "handleCheckUpdate e a s t (hc_Status ?k) (hc_Output ?k) (?c2, w) = Inl MutexBlocked"
    using assms(7) by (auto simp: handleCheckUpdate_def Add_def processUpdates_def processFunc_def)
  then have "UpdateCheck_locked e h a s t (?c1, w) = Inl MutexBlocked"
    using UpdateCheck_locked_batched [of ?c1 a s e h t w] assms(4-6) by simp
  then show ?thesis by (simp add: UpdateCheck_unfold [OF assms(2,3)])
qed

definition almost_full :: "CheckRunner" where
  "almost_full = (watched_runner True)\<lparr>CriticalThreshold := 0,
     batcher := Some ((NewCheckUpdateBatcher maxTxnOps Second)\<lparr>flushTimer := Some Second,
       pendingUpdates := map (\<lambda>i. (''n2/'' @ replicate i CHR ''x'',
         \<lparr>pu_check = sample_check\<lparr>hc_Node := ''n2'', hc_CheckID := replicate i CHR ''x''\<rparr>,
          pu_status = HealthCritical, pu_output = '''', pu_oldStatus = HealthPassing,
          pu_oldOutput = ''''\<rparr>)) [0..<63]\<rparr>)\<rparr>"

theorem full_batch_self_deadlock_witness:
  "UpdateCheck (env_of broken_client) ''n1/web/tcp'' HealthCritical ''down'' (almost_full, ()) =
   Inl MutexBlocked"
proof -
  let ?b = "(NewCheckUpdateBatcher maxTxnOps Second)\<lparr>flushTimer := Some Second,
     pendingUpdates := pendingUpdates (the (batcher almost_full))\<rparr>"
  have h: "heap almost_full = heap (watched_runner True)" by (simp add: almost_full_def)
  have ck: "checks almost_full = checks (watched_runner True)" by (simp add: almost_full_def)
  have inv: "checks_inv almost_full" using watched_inv [of True "()"]
    by (simp add: good_def runner_inv_def checks_inv_def almost_full_def)
  have b: "batcher almost_full = Some ?b" by (simp add: almost_full_def)
  have mem: "\<not> gm_mem (makeCheckKey (hc_Node (esm_check (heap almost_full 1)))
      (hc_CheckID (esm_check (heap almost_full 1)))) (pendingUpdates ?b)" by code_simp
  have st: "hc_Status (esm_check (heap almost_full 1)) \<notin> {HealthCritical, ''''}"
    "counter HealthCritical (heap almost_full 1) \<ge> threshold HealthCritical almost_full"
    "isAgentless almost_full" "int (length (pendingUpdates ?b)) + 1 \<ge> maxBatchSize ?b"
    by code_simp+
  show ?thesis
    by (rule full_batch_self_deadlock [OF inv _ _ st(1-3) b mem st(4)])
      (simp_all add: h ck watched_facts visits_id broken_client_def del: One_nat_def)
qed

subsection \<open>Rolling back a failed batch\<close>

definition update_hash :: "pendingCheckUpdate \<Rightarrow> string" where
  "update_hash u = hashCheck (pu_check u)"

text \<open>The state an update's check is rolled back to; none for a deferred update.\<close>

definition old_state :: "pendingCheckUpdate \<Rightarrow> (string \<times> string) option" where
  "old_state u = (if pu_oldStatus u = '''' \<and> pu_oldOutput u = '''' then None
     else Some (pu_oldStatus u, pu_oldOutput u))"

lemma revertUpdate_state:
  assumes "revertUpdate u c = Inr c'" and "checks_inv c"
  shows "state_at c' h = (if h = update_hash u \<and> old_state u \<noteq> None \<and> gm_mem h (checks c)
    then old_state u else state_at c h)"
  using assms revertCheckState_state [of "update_hash u" "pu_oldStatus u" "pu_oldOutput u" c c' h]
  by (auto simp: revertUpdate_def old_state_def update_hash_def gm_mem_def split: if_splits)

lemma revertAll_state:
  assumes "revertAllUpdates us c = Inr c'" and "checks_inv c" and "distinct (map update_hash us)"
  shows "(\<forall>u \<in> set us. old_state u \<noteq> None \<and> gm_mem (update_hash u) (checks c) \<longrightarrow>
      state_at c' (update_hash u) = old_state u) \<and>
    (\<forall>h. h \<notin> update_hash ` {u \<in> set us. old_state u \<noteq> None} \<longrightarrow> state_at c' h = state_at c h)"
  using assms unfolding revertAllUpdates_def
proof (induction us arbitrary: c)
  case (Cons v us)
  then obtain c1 where 1: "revertUpdate v c = Inr c1" and 2: "foldR revertUpdate us c1 = Inr c'"
    by (auto simp: bindR_eq_Inr)
  have f: "frame c c1" by (rule frame_all_frame [OF revertUpdate_frame [OF 1]])
  then have ck: "checks c1 = checks c" by (simp add: frame_def)
  from Cons.prems have nv: "update_hash v \<notin> update_hash ` set us" and d: "distinct (map update_hash us)"
    by auto
  note IH = Cons.IH [OF 2 checks_inv_frame [OF f Cons.prems(2)] d, unfolded ck]
  note v = revertUpdate_state [OF 1 Cons.prems(2)]
  have "state_at c' (update_hash v) = state_at c1 (update_hash v)"
    using IH nv by blast
  then have "old_state v \<noteq> None \<and> gm_mem (update_hash v) (checks c) \<Longrightarrow>
      state_at c' (update_hash v) = old_state v" by (simp add: v)
  moreover have "state_at c' h = state_at c h"
    if h: "h \<notin> update_hash ` {u \<in> set (v # us). old_state u \<noteq> None}" for h
  proof -
    from h have "h \<notin> update_hash ` {u \<in> set us. old_state u \<noteq> None}"
      and hv: "\<not> (h = update_hash v \<and> old_state v \<noteq> None)" by auto
    with IH have "state_at c' h = state_at c1 h" by blast
    with v [of h] hv show ?thesis by auto
  qed
  ultimately show ?case using IH by auto
qed simp

text \<open>How a transaction fails as a whole: an error of the call, errors none of which is a stale
  index, or no success.\<close>

definition rejected :: "string + bool \<times> TxnError list \<Rightarrow> bool" where
  "rejected r = (case r of Inl err \<Rightarrow> True
     | Inr (ok, errs) \<Rightarrow> (if errs = [] then \<not> ok else list_all (\<lambda>x. \<not> staleIndex x) errs))"

lemma executeBatch_rejected:
  assumes "ops \<noteq> []" and "Txn_Txn cl ops (txn_opts c) w = (r, w1)" and "rejected r"
  shows "executeBatchTransaction cl ord ops us (c, w) = bindR (revertAllUpdates us c) (\<lambda>c1. Inr (c1, w1))"
  using assms
  by (auto simp: executeBatchTransaction_def rejected_def Let_def list_all_iff filter_empty_conv
      split: sum.splits prod.splits if_splits)


definition sample_update :: pendingCheckUpdate where
  "sample_update = \<lparr>pu_check = sample_check, pu_status = HealthCritical, pu_output = ''down'',
     pu_oldStatus = HealthPassing, pu_oldOutput = ''up''\<rparr>"


subsection \<open>Transactions\<close>

text \<open>A client that keeps a log of the transactions it was asked for.\<close>

definition logged :: "'w check_client \<Rightarrow> ('w \<times> TxnOp list list) check_client" where
  "logged cl = \<lparr>Health_Node = (\<lambda>n q w. let (r, w1) = Health_Node cl n q (fst w) in (r, w1, snd w)),
     Txn_Txn = (\<lambda>ops q w. let (r, w1) = Txn_Txn cl ops q (fst w) in (r, w1, snd w @ [ops])),
     Catalog_Deregister = (\<lambda>n s w. let (r, w1) = Catalog_Deregister cl n s (fst w) in (r, w1, snd w))\<rparr>"

lemma logged_Txn:
  "Txn_Txn (logged cl) ops q (w, l) = (r, w1, l1) \<Longrightarrow> Txn_Txn cl ops q w = (r, w1) \<and> l1 = l @ [ops]"
  by (auto simp: logged_def split: prod.splits)

lemma logged_Node: "Health_Node (logged cl) n q (w, l) = (r, w1, l1) \<Longrightarrow> l1 = l"
  by (auto simp: logged_def split: prod.splits)

text \<open>The log grew by single operations only.\<close>

definition grew_singly :: "TxnOp list list \<Rightarrow> TxnOp list list \<Rightarrow> bool" where
  "grew_singly l l' \<longleftrightarrow> (\<exists>rest. l' = l @ rest \<and> (\<forall>r \<in> set rest. length r = 1))"

lemma grew_singly_refl [simp]: "grew_singly l l"
  by (simp add: grew_singly_def)

lemma grew_singly_trans: "grew_singly l l' \<Longrightarrow> grew_singly l' l'' \<Longrightarrow> grew_singly l l''"
  unfolding grew_singly_def by (metis append.assoc set_append Un_iff)

lemma retryOne_log:
  assumes "retryOne (logged cl) us x (c, w, l) = Inr (c', w', l')"
  shows "grew_singly l l'"
proof -
  have 1: "grew_singly l (l @ [[p]])" for p by (simp add: grew_singly_def)
  show ?thesis using assms unfolding retryOne_def Let_def
    by (auto split: if_splits prod.splits sum.splits option.splits simp: bindR_eq_Inr 1
        dest!: logged_Node logged_Txn)
qed

lemma retryFailed_log:
  assumes "retryFailedBatchOperations (logged cl) ord us errs (c, w, l) = Inr (c', w', l')"
  shows "grew_singly l l'"
proof -
  let ?m = "fold (\<lambda>e m. if staleIndex e then gm_store (te_OpIndex e) (te_What e) m else m) errs []"
  have "grew_singly l (snd (snd st))"
    if f: "foldR (retryOne (logged cl) us) (ord ?m) (c, w, l) = Inr st" for st
  proof (rule foldR_invariant [where P = "\<lambda>st. grew_singly l (snd (snd st))", OF f])
    fix x s t assume "grew_singly l (snd (snd s))" "retryOne (logged cl) us x s = Inr t"
    then show "grew_singly l (snd (snd t))"
      by (cases s; cases t) (auto intro: grew_singly_trans retryOne_log)
  qed simp
  then show ?thesis using assms
    by (auto simp: retryFailedBatchOperations_def Let_def split: if_splits)
qed

definition never_stale :: "'w check_client \<Rightarrow> bool" where
  "never_stale cl \<longleftrightarrow> (\<forall>ops q w ok errs w'. Txn_Txn cl ops q w = (Inr (ok, errs), w') \<longrightarrow>
     (\<forall>x \<in> set errs. \<not> staleIndex x))"

lemma executeBatch_log:
  assumes "executeBatchTransaction (logged cl) ord ops us (c, w, l) = Inr (c', w', l')" and "ops \<noteq> []"
  shows "grew_singly (l @ [ops]) l' \<and> (never_stale cl \<longrightarrow> l' = l @ [ops])"
proof -
  obtain r w1 l1 where t: "Txn_Txn (logged cl) ops (txn_opts c) (w, l) = (r, w1, l1)"
    using prod_cases3 by blast
  from logged_Txn [OF t] have t': "Txn_Txn cl ops (txn_opts c) w = (r, w1)" and l1: "l1 = l @ [ops]"
    by auto
  show ?thesis
  proof (cases "\<exists>ok errs. r = Inr (ok, errs) \<and> (\<exists>x \<in> set errs. staleIndex x)")
    case True
    then obtain ok errs where r: "r = Inr (ok, errs)" and x: "\<exists>x \<in> set errs. staleIndex x" by blast
    then have "\<not> never_stale cl" using t' unfolding never_stale_def by blast
    moreover have rf: "retryFailedBatchOperations (logged cl) ord us errs (c, w1, l1) = Inr (c', w', l')"
      using assms t r x by (auto simp: executeBatchTransaction_def Let_def filter_empty_conv
          split: if_splits)
    ultimately show ?thesis using retryFailed_log [OF rf] l1 by simp
  next
    case False
    then have "l' = l1" using assms t
      by (auto simp: executeBatchTransaction_def Let_def bindR_eq_Inr filter_empty_conv
          split: if_splits sum.splits)
    then show ?thesis using l1 by simp
  qed
qed

text \<open>The operation for an update whose check Consul still lists.\<close>

definition op_of :: "node_checks \<Rightarrow> pendingCheckUpdate \<Rightarrow> TxnOp option" where
  "op_of nc u = (case gm_load nc (nodeKey u) of None \<Rightarrow> None | Some m \<Rightarrow>
     map_option (cas_op (pu_status u) (pu_output u)) (gm_load m (catalog_id (pu_check u))))"

definition bounded_log :: "TxnOp list list \<Rightarrow> bool" where
  "bounded_log l \<longleftrightarrow> (\<forall>ops \<in> set l. 0 < length ops \<and> int (length ops) \<le> maxTxnOps)"

lemma bounded_grew: "bounded_log l \<Longrightarrow> grew_singly l l' \<Longrightarrow> bounded_log l'"
  by (fastforce simp: bounded_log_def grew_singly_def maxTxnOps_def)

definition build_inv :: "'w check_client \<Rightarrow> TxnOp list \<Rightarrow>
    TxnOp list \<times> pendingCheckUpdate list \<times> CheckRunner \<times> 'w \<times> TxnOp list list \<Rightarrow> bool" where
  "build_inv cl sent st \<longleftrightarrow> (case st of (ops, ps, c, w, l) \<Rightarrow>
     int (length ops) < maxTxnOps \<and> bounded_log l \<and> (never_stale cl \<longrightarrow> concat l @ ops = sent))"

lemma buildOne_inv:
  assumes "buildOne (logged cl) ord nc u st = Inr st'" and "build_inv cl sent st"
  shows "build_inv cl (sent @ (case op_of nc u of None \<Rightarrow> [] | Some p \<Rightarrow> [p])) st'"
proof -
  obtain ops ps c w l where st: "st = (ops, ps, c, w, l)" using prod_cases5 by blast
  obtain ops' ps' c' w' l' where st': "st' = (ops', ps', c', w', l')" using prod_cases5 by blast
  show ?thesis
  proof (cases "op_of nc u")
    case None
    then show ?thesis using assms by (auto simp: buildOne_def op_of_def st split: option.splits)
  next
    case (Some p)
    then have b: "(if int (length (ops @ [p])) \<ge> maxTxnOps then
        bindR (executeBatchTransaction (logged cl) ord (ops @ [p]) (ps @ [u]) (c, w, l))
          (\<lambda>cw. Inr ([], [], cw)) else Inr (ops @ [p], ps @ [u], c, w, l)) = Inr st'"
      using assms(1) by (auto simp: buildOne_def op_of_def st Let_def split: option.splits)
    show ?thesis
    proof (cases "int (length (ops @ [p])) \<ge> maxTxnOps")
      case True
      with b have ex: "executeBatchTransaction (logged cl) ord (ops @ [p]) (ps @ [u]) (c, w, l)
          = Inr (c', w', l')" and e: "ops' = []" by (auto simp: bindR_eq_Inr st')
      have "bounded_log (l @ [ops @ [p]])" using assms(2) by (auto simp: build_inv_def st bounded_log_def)
      with executeBatch_log [OF ex] assms(2) Some e show ?thesis
        by (auto simp: build_inv_def st st' maxTxnOps_def intro: bounded_grew)
    next
      case False
      with b assms(2) Some show ?thesis by (auto simp: build_inv_def st st')
    qed
  qed
qed

lemma foldR_buildOne_inv:
  "foldR (buildOne (logged cl) ord nc) us st = Inr st' \<Longrightarrow> build_inv cl sent st \<Longrightarrow>
   build_inv cl (sent @ List.map_filter (op_of nc) us) st'"
proof (induction us arbitrary: st sent)
  case (Cons u us)
  then obtain st1 where 1: "buildOne (logged cl) ord nc u st = Inr st1"
    and 2: "foldR (buildOne (logged cl) ord nc) us st1 = Inr st'" by (auto simp: bindR_eq_Inr)
  from Cons.IH [OF 2 buildOne_inv [OF 1 Cons.prems(2)]] show ?case
    by (auto simp: map_filter_simps split: option.splits)
qed (simp add: map_filter_simps)

lemma fetch_log:
  assumes "fold (fetchOne (logged cl)) us (nc, fk, w, l) = (nc', fk', w', l')"
  shows "l' = l"
  using assms
proof (induction us arbitrary: nc fk w l)
  case (Cons u us)
  obtain nc1 fk1 w1 l1 where 1: "fetchOne (logged cl) u (nc, fk, w, l) = (nc1, fk1, w1, l1)"
    using prod_cases4 by blast
  then have "l1 = l"
    by (auto simp: fetchOne_def Let_def split: if_splits prod.splits sum.splits dest: logged_Node)
  with Cons.IH [of nc1 fk1 w1 l1] Cons.prems 1 show ?case by simp
qed simp

text \<open>C14. Batches respect Consul's limit and lose nothing: every transaction that processing a list
  of updates sends has at least one and at most 64 operations; and as long as Consul reports
  no stale index, the operations sent are, in order and once each, the compare-and-set
  operations of exactly those updates whose check the fetched catalog still lists.\<close>

theorem batches_bounded_complete:
  assumes "processBatchedUpdates (logged cl) ord us (c, w, []) = Inr (c', w', log)"
    and "fold (fetchOne (logged cl)) us ([], [], w, []) = (nc, fk, wl)"
  shows "(\<forall>ops \<in> set log. 0 < length ops \<and> length ops \<le> 64) \<and>
    (never_stale cl \<longrightarrow> concat log = List.map_filter (op_of nc) us)"
proof (cases "us = []")
  case True
  then show ?thesis using assms by (simp add: processBatchedUpdates_def map_filter_simps)
next
  case False
  have "snd wl = []" using fetch_log [of cl us "[]" "[]" w "[]" nc fk "fst wl" "snd wl"] assms(2) by simp
  then obtain w1 where wl: "wl = (w1, [])" by (cases wl) simp
  with assms False obtain c1 ops ps c2 w2 l2 where
    b: "foldR (buildOne (logged cl) ord nc) us ([], [], c1, w1, []) = Inr (ops, ps, c2, w2, l2)" and
    e: "(if length ops > 0 then executeBatchTransaction (logged cl) ord ops ps (c2, w2, l2)
        else Inr (c2, w2, l2)) = Inr (c', w', log)"
    by (auto simp: processBatchedUpdates_def bindR_eq_Inr)
  have "build_inv cl [] ([], [], c1, w1, [])"
    by (simp add: build_inv_def bounded_log_def maxTxnOps_def)
  from foldR_buildOne_inv [OF b this]
  have i: "int (length ops) < maxTxnOps" "bounded_log l2"
    "never_stale cl \<longrightarrow> concat l2 @ ops = List.map_filter (op_of nc) us"
    by (simp_all add: build_inv_def)
  have "bounded_log log \<and> (never_stale cl \<longrightarrow> concat log = List.map_filter (op_of nc) us)"
  proof (cases "ops = []")
    case True
    then show ?thesis using e i by simp
  next
    case False
    then have ex: "executeBatchTransaction (logged cl) ord ops ps (c2, w2, l2) = Inr (c', w', log)"
      using e by simp
    have "bounded_log (l2 @ [ops])" using i False by (auto simp: bounded_log_def)
    with executeBatch_log [OF ex False] i(3) show ?thesis by (auto intro: bounded_grew)
  qed
  then show ?thesis by (simp add: bounded_log_def maxTxnOps_def)
qed

theorem batches_bounded_complete_witness:
  "\<exists>c' w'. processBatchedUpdates (logged catalog_client) (\<lambda>m. m) [sample_update]
     (watched_runner True, [sample_check], []) =
     Inr (c', w', [[cas_op HealthCritical ''down'' sample_check]])"
proof -
  obtain c' w' log where p: "processBatchedUpdates (logged catalog_client) (\<lambda>m. m) [sample_update]
      (watched_runner True, [sample_check], []) = Inr (c', w', log)"
  proof -
    have "unlocked (watched_runner True)" using watched_inv [of True "()"] by (simp add: good_def)
    moreover have "error_indices (logged catalog_client)"
      by (simp add: error_indices_def logged_def catalog_client_def)
    ultimately show ?thesis using processBatched_returns [OF _ visits_id] that by fastforce
  qed
  obtain nc fk wl where f: "fold (fetchOne (logged catalog_client)) [sample_update]
      ([], [], [sample_check], []) = (nc, fk, wl)" using prod_cases3 by blast
  have "(case fold (fetchOne (logged catalog_client)) [sample_update] ([], [], [sample_check], []) of
      (nc, fk, wl) \<Rightarrow> List.map_filter (op_of nc) [sample_update]) =
      [cas_op HealthCritical ''down'' sample_check]" by code_simp
  moreover have "never_stale catalog_client" by (simp add: never_stale_def catalog_client_def)
  ultimately have "concat log = [cas_op HealthCritical ''down'' sample_check]"
    and "\<forall>ops \<in> set log. 0 < length ops"
    using batches_bounded_complete [OF p f] f by auto
  then have "log = [[cas_op HealthCritical ''down'' sample_check]]"
    by (cases log) (auto simp: append_eq_Cons_conv Cons_eq_append_conv)
  with p show ?thesis by blast
qed


subsection \<open>Reaping\<close>

text \<open>The services, by node and ID, with a watched check that has been critical for longer than its
  deregistration timeout.\<close>

definition overdue :: "int \<Rightarrow> CheckRunner \<Rightarrow> string \<times> int \<Rightarrow> (string \<times> string) option" where
  "overdue now c entry = (case gm_load (checks c) (fst entry) of None \<Rightarrow> None
     | Some a \<Rightarrow> (let k = esm_check (heap c a);
         timeout = def_DeregisterCriticalServiceAfterDuration (hc_Definition k) in
        if hc_ServiceID k \<noteq> '''' \<and> 0 < timeout \<and> timeout < now - snd entry
        then Some (hc_Node k, hc_ServiceID k) else None))"

lemma reapOne_cases:
  assumes "reapOne cl now c x (reaped, w) = (reaped', w')"
  shows "(case overdue now c x of
      None \<Rightarrow> reaped' = reaped \<and> w' = w
    | Some i \<Rightarrow> if i \<in> set reaped then reaped' = reaped \<and> w' = w
        else w' = snd (Catalog_Deregister cl (fst i) (snd i) w) \<and>
          reaped' = (if fst (Catalog_Deregister cl (fst i) (snd i) w) = None then reaped @ [i] else reaped))"
  using assms unfolding reapOne_def overdue_def Let_def
  by (auto split: option.splits if_splits prod.splits)

lemma reap_fold:
  assumes "fold (reapOne cl now c) xs (reaped, w) = (reaped', w')" and "distinct reaped"
  shows "distinct reaped' \<and> set reaped \<subseteq> set reaped' \<and>
    set reaped' \<subseteq> set reaped \<union> {i. \<exists>x \<in> set xs. overdue now c x = Some i} \<and>
    ((\<forall>n s w. fst (Catalog_Deregister cl n s w) = None) \<longrightarrow>
      {i. \<exists>x \<in> set xs. overdue now c x = Some i} \<subseteq> set reaped')"
  using assms
proof (induction xs arbitrary: reaped w)
  case (Cons x xs)
  obtain r1 w1 where 1: "reapOne cl now c x (reaped, w) = (r1, w1)" by fastforce
  note x = reapOne_cases [OF 1]
  have d: "distinct r1" using x Cons.prems(2) by (auto split: option.splits if_splits)
  have s: "set r1 \<subseteq> set reaped \<union> {i. overdue now c x = Some i}" "set reaped \<subseteq> set r1"
    "(\<forall>n s w. fst (Catalog_Deregister cl n s w) = None) \<longrightarrow> {i. overdue now c x = Some i} \<subseteq> set r1"
    using x by (auto split: option.splits if_splits)
  from Cons.prems 1 have "fold (reapOne cl now c) xs (r1, w1) = (reaped', w')" by simp
  from Cons.IH [OF this d] s show ?case by auto
qed simp

lemma reap_all:
  assumes "visits ord" and "\<forall>n s w. fst (Catalog_Deregister cl n s w) = None"
    and "x \<in> set (checksCritical c)" and "overdue now c x = Some i"
  shows "i \<in> set (fst (reapServicesInternal cl ord now c w))"
proof -
  obtain reaped w' where r: "fold (reapOne cl now c) (ord (checksCritical c)) ([], w) = (reaped, w')"
    by fastforce
  from reap_fold [OF r] set_visits [OF assms(1), of "checksCritical c"] assms(2-4) show ?thesis
    by (auto simp: reapServicesInternal_def r)
qed

text \<open>One pass of the reaper deregisters exactly what is due: each service at most once; only
  services with a watched check whose critical time is further back than a positive timeout;
  and all of those when Consul accepts the requests, in whatever order the map is visited.\<close>

lemma reap_exact:
  assumes "reapServicesInternal cl ord now c w = (reaped, w')" and "visits ord"
  shows "distinct reaped \<and>
    set reaped \<subseteq> {i. \<exists>x \<in> set (checksCritical c). overdue now c x = Some i} \<and>
    ((\<forall>n s w. fst (Catalog_Deregister cl n s w) = None) \<longrightarrow>
      set reaped = {i. \<exists>x \<in> set (checksCritical c). overdue now c x = Some i})"
proof -
  from assms(1) have "fold (reapOne cl now c) (ord (checksCritical c)) ([], w) = (reaped, w')"
    by (simp add: reapServicesInternal_def)
  from reap_fold [OF this] set_visits [OF assms(2), of "checksCritical c"] show ?thesis by auto
qed

definition overdue_runner :: CheckRunner where
  "overdue_runner = (fst (UpdateChecks (\<lambda>m. m)
      [sample_check\<lparr>hc_Definition := sample_def\<lparr>def_DeregisterCriticalServiceAfterDuration := Minute\<rparr>\<rparr>]
      sample_runner))\<lparr>checksCritical := [(''n1/web/tcp'', 0)]\<rparr>"

lemma reap_exact_witness:
  "set (fst (reapServicesInternal catalog_client rev (2 * Minute) overdue_runner [])) = {(''n1'', ''web'')}"
proof -
  obtain reaped w' where r: "reapServicesInternal catalog_client rev (2 * Minute) overdue_runner []
      = (reaped, w')" by fastforce
  have "checksCritical overdue_runner = [(''n1/web/tcp'', 0)]" by (simp add: overdue_runner_def)
  moreover have "overdue (2 * Minute) overdue_runner (''n1/web/tcp'', 0) = Some (''n1'', ''web'')"
    by code_simp
  ultimately show ?thesis using reap_exact [OF r visits_rev] r by (auto simp: catalog_client_def)
qed

subsection \<open>The local state and the catalog\<close>

lemma immediate_status:
  assumes "handleCheckUpdateImmediate cl a s t (c, w) = (c', w')"
    and "hc_Status (esm_check (heap c' a)) \<noteq> hc_Status (esm_check (heap c a))"
  shows "\<exists>cs existing w1. Health_Node cl (hc_Node (esm_check (heap c a))) (node_opts (esm_check (heap c a))) w
      = (Inr cs, w1) \<and> existing \<in> set cs \<and> hc_CheckID existing = catalog_id (esm_check (heap c a)) \<and>
    Txn_Txn cl [cas_op s t existing] None w1 = (Inr (True, []), w') \<and>
    hc_Status (esm_check (heap c' a)) = s \<and> hc_Output (esm_check (heap c' a)) = t"
  using assms unfolding handleCheckUpdateImmediate_def Let_def
  by (auto split: prod.splits sum.splits option.splits if_splits simp: find_Some_iff)
    (meson nth_mem)+

lemma UpdateCheck_locked_status:
  assumes "UpdateCheck_locked e h a s t (c, w) = Inr (c', w')" and "batcher c = None" and "\<not> isAgentless c"
    and "hc_Status (esm_check (heap c' a)) \<noteq> hc_Status (esm_check (heap c a))"
  shows "handleCheckUpdateImmediate (env_client e) a s t (acceptResult h (env_now e) a s c, w) = (c', w')"
  using assms unfolding UpdateCheck_locked_def Let_def
  by (auto simp: handleCheckUpdate_def split: if_splits)

text \<open>C32. In agent mode the local status of a check only ever becomes one that Consul has confirmed:
  if handling a result changes the status, the new status is the result's, the check was
  listed for its node, and the catalog after the call has that status and output. (The
  catalog is read through any function \<open>srv\<close> that a successful compare-and-set updates.)\<close>

theorem agent_mode_confirmed:
  assumes "UpdateCheck e h s t (c, w) = Inr (c', w')" and "gm_load (checks c) h = Some a"
    and "batcher c = None" and "\<not> isAgentless c"
    and "hc_Status (esm_check (heap c' a)) \<noteq> hc_Status (esm_check (heap c a))"
    and "\<And>n q w cs w'. Health_Node (env_client e) n q w = (Inr cs, w') \<Longrightarrow> \<forall>k \<in> set cs. hc_Node k = n"
    and "\<And>k q w w'. Txn_Txn (env_client e) [TxnCheck CheckCAS k] q w = (Inr (True, []), w') \<Longrightarrow>
      srv w' (hc_Node k) (hc_CheckID k) = Some (hc_Status k, hc_Output k)"
  shows "hc_Status (esm_check (heap c' a)) = s \<and>
    srv w' (hc_Node (esm_check (heap c a))) (catalog_id (esm_check (heap c a))) = Some (s, t)"
proof -
  from assms(1,2) have free: "\<not> esm_mu (heap c a)"
    by (auto simp: UpdateCheck_def mu_Lock_def bindR_eq_Inr)
  let ?c1 = "modify_esm a (\<lambda>k. k\<lparr>esm_mu := True\<rparr>) c"
  let ?d = "acceptResult h (env_now e) a s ?c1"
  obtain c2 where b: "UpdateCheck_locked e h a s t (?c1, w) = Inr (c2, w')" and c': "c' = mu_Unlock a c2"
    using assms(1) by (auto simp: UpdateCheck_unfold [OF assms(2) free] bindR_eq_Inr)
  have ch: "hc_Status (esm_check (heap c2 a)) \<noteq> hc_Status (esm_check (heap ?c1 a))"
    using assms(5) by (simp add: c' mu_Unlock_def)
  have im: "handleCheckUpdateImmediate (env_client e) a s t (?d, w) = (c2, w')"
    by (rule UpdateCheck_locked_status [OF b _ _ ch]) (use assms(3,4) in simp_all)
  have k: "esm_check (heap ?d a) = esm_check (heap c a)" by simp
  obtain cs existing w1 where
    n: "Health_Node (env_client e) (hc_Node (esm_check (heap c a))) (node_opts (esm_check (heap c a))) w
      = (Inr cs, w1)" and ex: "existing \<in> set cs" "hc_CheckID existing = catalog_id (esm_check (heap c a))"
    and tx: "Txn_Txn (env_client e) [cas_op s t existing] None w1 = (Inr (True, []), w')"
    and st: "hc_Status (esm_check (heap c2 a)) = s"
    using immediate_status [OF im] ch unfolding k by auto
  from assms(7) [OF tx [unfolded cas_op_def]] assms(6) [OF n] ex st show ?thesis
    by (simp add: c' mu_Unlock_def)
qed

definition catalog_state :: "HealthCheck list \<Rightarrow> string \<Rightarrow> string \<Rightarrow> (string \<times> string) option" where
  "catalog_state w n i = map_option (\<lambda>k. (hc_Status k, hc_Output k))
     (find (\<lambda>k. hc_Node k = n \<and> hc_CheckID k = i) w)"

text \<open>A catalog with compare-and-set on the \<^verbatim>\<open>ModifyIndex\<close>: a transaction applies all of its
  operations or, when any index is stale, none, and reports the stale ones. A concurrent
  writer of the first check acts after the next read when the flag is set.\<close>

definition cas_stale :: "HealthCheck list \<Rightarrow> TxnOp \<Rightarrow> bool" where
  "cas_stale w p = (case p of TxnCheck CheckCAS k \<Rightarrow>
     \<not> list_ex (\<lambda>k'. hc_Node k' = hc_Node k \<and> hc_CheckID k' = hc_CheckID k \<and>
        hc_ModifyIndex k' = hc_ModifyIndex k) w | _ \<Rightarrow> True)"

definition cas_apply :: "TxnOp \<Rightarrow> HealthCheck list \<Rightarrow> HealthCheck list" where
  "cas_apply p w = (case p of TxnCheck CheckCAS k \<Rightarrow>
     map (\<lambda>k'. if hc_Node k' = hc_Node k \<and> hc_CheckID k' = hc_CheckID k
        then k\<lparr>hc_ModifyIndex := hc_ModifyIndex k + 1\<rparr> else k') w | _ \<Rightarrow> w)"

definition bump_first :: "HealthCheck list \<Rightarrow> HealthCheck list" where
  "bump_first w = (case w of [] \<Rightarrow> [] | k # ks \<Rightarrow> k\<lparr>hc_ModifyIndex := hc_ModifyIndex k + 1\<rparr> # ks)"

definition cas_client :: "(bool \<times> HealthCheck list) check_client" where
  "cas_client = \<lparr>Health_Node = (\<lambda>n q w. (Inr (filter (\<lambda>k. hc_Node k = n) (snd w)),
        (False, if fst w then bump_first (snd w) else snd w))),
     Txn_Txn = (\<lambda>ops q w. let stale = filter (\<lambda>(i, p). cas_stale (snd w) p) (enumerate 0 ops) in
        if stale = [] then (Inr (True, []), (fst w, fold cas_apply ops (snd w)))
        else (Inr (False, map (\<lambda>(i, p). \<lparr>te_OpIndex = int i, te_What = ''index is stale''\<rparr>) stale), w)),
     Catalog_Deregister = (\<lambda>n s w. (None, w))\<rparr>"

lemma cas_client_Txn:
  assumes "Txn_Txn cas_client [TxnCheck CheckCAS k] q w = (Inr (True, []), w')"
  shows "catalog_state (snd w') (hc_Node k) (hc_CheckID k) = Some (hc_Status k, hc_Output k)"
proof -
  from assms have ns: "\<not> cas_stale (snd w) (TxnCheck CheckCAS k)"
    and w': "snd w' = cas_apply (TxnCheck CheckCAS k) (snd w)"
    by (auto simp: cas_client_def Let_def split: if_splits)
  have f: "find (\<lambda>x. hc_Node x = hc_Node k \<and> hc_CheckID x = hc_CheckID k)
      (map (\<lambda>k'. if hc_Node k' = hc_Node k \<and> hc_CheckID k' = hc_CheckID k then k2 else k') ws) = Some k2"
    if "\<exists>x \<in> set ws. hc_Node x = hc_Node k \<and> hc_CheckID x = hc_CheckID k"
      "hc_Node k2 = hc_Node k" "hc_CheckID k2 = hc_CheckID k" for ws k2
    using that by (induction ws) auto
  have "\<exists>x \<in> set (snd w). hc_Node x = hc_Node k \<and> hc_CheckID x = hc_CheckID k"
    using ns by (auto simp: cas_stale_def list_ex_iff)
  from f [OF this, of "k\<lparr>hc_ModifyIndex := hc_ModifyIndex k + 1\<rparr>"] show ?thesis
    by (simp add: catalog_state_def w' cas_apply_def)
qed

definition down_runner :: CheckRunner where
  "down_runner = (watched_runner False)\<lparr>CriticalThreshold := 0\<rparr>"

theorem agent_mode_confirmed_witness:
  "\<exists>c' w'. UpdateCheck (env_of cas_client) ''n1/web/tcp'' HealthCritical ''down''
       (down_runner, False, [sample_check]) = Inr (c', w') \<and>
     hc_Status (esm_check (heap c' 1)) = HealthCritical \<and>
     catalog_state (snd w') ''n1'' ''tcp'' = Some (HealthCritical, ''down'')"
proof -
  have b: "batcher down_runner = None" "\<not> isAgentless down_runner"
    "gm_load (checks down_runner) ''n1/web/tcp'' = Some 1" by code_simp+
  have k: "esm_check (heap down_runner 1) = sample_check"
    by (simp add: down_runner_def watched_facts del: One_nat_def)
  have s: "hc_Node sample_check = ''n1''" "catalog_id sample_check = ''tcp''"
    "hc_Status sample_check = HealthPassing" by code_simp+
  have "case UpdateCheck (env_of cas_client) ''n1/web/tcp'' HealthCritical ''down''
      (down_runner, False, [sample_check]) of Inl f \<Rightarrow> False
    | Inr (c', w') \<Rightarrow> hc_Status (esm_check (heap c' 1)) = HealthCritical" by code_simp
  then obtain c' w' where u: "UpdateCheck (env_of cas_client) ''n1/web/tcp'' HealthCritical ''down''
      (down_runner, False, [sample_check]) = Inr (c', w')"
    and ch: "hc_Status (esm_check (heap c' 1)) = HealthCritical"
    by (auto split: sum.splits)
  have "hc_Status (esm_check (heap c' 1)) = HealthCritical \<and>
      catalog_state (snd w') (hc_Node (esm_check (heap down_runner 1)))
        (catalog_id (esm_check (heap down_runner 1))) = Some (HealthCritical, ''down'')"
  proof (rule agent_mode_confirmed [where srv = "\<lambda>w. catalog_state (snd w)", OF u b(3,1,2)])
    show "hc_Status (esm_check (heap c' 1)) \<noteq> hc_Status (esm_check (heap down_runner 1))"
      unfolding ch k s by simp
    show "\<forall>k \<in> set cs. hc_Node k = n"
      if "Health_Node (env_client (env_of cas_client)) n q w = (Inr cs, w')" for n q w cs w'
      using that by (auto simp: cas_client_def)
    show "catalog_state (snd w') (hc_Node k) (hc_CheckID k) = Some (hc_Status k, hc_Output k)"
      if "Txn_Txn (env_client (env_of cas_client)) [TxnCheck CheckCAS k] q w = (Inr (True, []), w')"
      for k q w w' using that by (auto intro: cas_client_Txn)
  qed
  with u show ?thesis unfolding k s by blast
qed

text \<open>When one operation of a batch is stale, the other updates of the batch are lost: the
  transaction is atomic, so none was applied, but only the stale one is retried, and the rest
  are neither retried nor rolled back. Two checks of one node turn critical and a concurrent
  write makes the first one's index stale: the first update arrives, the second check is
  critical locally and still passing in the catalog.\<close>

lemma stale_batch_loses_updates:
  "let k2 = sample_check\<lparr>hc_CheckID := ''tcp2''\<rparr>;
       c0 = (NewCheckRunner 0 Second \<lparr>tls_InsecureSkipVerify = False, tls_ServerName = ''''\<rparr> 0 0 True Second);
       c1 = fst (UpdateChecks (\<lambda>m. m) [sample_check, k2] c0);
       e = env_of cas_client
   in case bindR (UpdateCheck e ''n1/web/tcp'' HealthCritical ''down'' (c1, True, [sample_check, k2])) (\<lambda>st.
           bindR (UpdateCheck e ''n1/web/tcp2'' HealthCritical ''down'' st) (flushFired e))
      of Inl f \<Rightarrow> False
       | Inr (c, w) \<Rightarrow>
           state_at c ''n1/web/tcp'' = Some (HealthCritical, ''down'') \<and>
           catalog_state (snd w) ''n1'' ''tcp'' = Some (HealthCritical, ''down'') \<and>
           state_at c ''n1/web/tcp2'' = Some (HealthCritical, ''down'') \<and>
           catalog_state (snd w) ''n1'' ''tcp2'' = Some (HealthPassing, '''') \<and>
           batcher c = Some (NewCheckUpdateBatcher maxTxnOps Second)"
  by code_simp

text \<open>A deferred write-back sends the output that was current when it was scheduled, not the
  latest one, and puts that output back into the local state: a passing check reports
  \<^verbatim>\<open>one\<close> and then \<^verbatim>\<open>two\<close>; when the timer fires the catalog and the local check have \<^verbatim>\<open>one\<close>.\<close>

lemma deferred_output_outdated:
  "let c0 = sample_runner;
       c1 = fst (UpdateChecks (\<lambda>m. m) [sample_check] c0);
       e = env_of cas_client
   in case bindR (UpdateCheck e ''n1/web/tcp'' HealthPassing ''one'' (c1, False, [sample_check])) (\<lambda>st.
           UpdateCheck e ''n1/web/tcp'' HealthPassing ''two'' st)
      of Inl f \<Rightarrow> False
       | Inr (c, w) \<Rightarrow>
           state_at c ''n1/web/tcp'' = Some (HealthPassing, ''two'') \<and>
           (case deferFired e ''n1/web/tcp'' (c, w) of Inl f \<Rightarrow> False
            | Inr (c', w') \<Rightarrow> state_at c' ''n1/web/tcp'' = Some (HealthPassing, ''one'') \<and>
                catalog_state (snd w') ''n1'' ''tcp'' = Some (HealthPassing, ''one''))"
  by code_simp

end
