(* ===== verification/Check_Races.thy ===== *)
theory Check_Races
  imports Check_Claims
begin

text \<open>
  Results that do not come alone. First, what a failed write leaves behind: the critical time of a
  check that never became critical, on which the reaper acts. Then the check runner at a finer
  grain: \<^verbatim>\<open>UpdateCheck\<close> loads its check and locks it later, and the catalog may have replaced or
  removed the check in between.
\<close>

subsection \<open>A critical time that stays\<close>

definition dec_counters :: "esmHealthCheck \<Rightarrow> esmHealthCheck" where
  "dec_counters k = k\<lparr>failureCounter := decrementCounter (failureCounter k),
     successCounter := decrementCounter (successCounter k)\<rparr>"

lemma dec_counters_simps [simp]:
  "esm_check (dec_counters k) = esm_check k" "esm_mu (dec_counters k) = esm_mu k"
  by (simp_all add: dec_counters_def)

text \<open>A result that repeats the local status and output sends and queues nothing, critical or not.\<close>

lemma UpdateCheck_repeat:
  assumes "gm_load (checks c) h = Some a" and "\<not> esm_mu (heap c a)"
    and "hc_Status (esm_check (heap c a)) = s" and "hc_Output (esm_check (heap c a)) = t"
  shows "\<exists>c'. UpdateCheck e h s t (c, w) = Inr (c', w) \<and> checks c' = checks c \<and> batcher c' = batcher c \<and>
    deferCheck c' = deferCheck c \<and> esm_check (heap c' a) = esm_check (heap c a) \<and> \<not> esm_mu (heap c' a) \<and>
    (s \<noteq> HealthCritical \<longrightarrow> checksCritical c' = checksCritical c)"
proof -
  let ?m = "modify_esm a (\<lambda>k. k\<lparr>esm_mu := True\<rparr>) c"
  let ?d = "modify_esm a dec_counters (if s = HealthCritical then trackCritical h (env_now e) ?m else ?m)"
  have "UpdateCheck_locked e h a s t (?m, w) = Inr (?d, w)"
    using assms(3,4) by (simp add: UpdateCheck_locked_def Let_def dec_counters_def [abs_def])
  then have "UpdateCheck e h s t (c, w) = Inr (mu_Unlock a ?d, w)"
    by (simp add: UpdateCheck_unfold [OF assms(1,2)])
  then show ?thesis by (auto simp: mu_Unlock_def trackCritical_def)
qed

lemma repeat_run:
  assumes "gm_load (checks c) h = Some a" and "\<not> esm_mu (heap c a)"
    and "hc_Status (esm_check (heap c a)) = s" and "hc_Output (esm_check (heap c a)) = t"
  shows "\<exists>c'. foldR (\<lambda>e. UpdateCheck e h s t) es (c, w) = Inr (c', w) \<and> checks c' = checks c \<and>
    batcher c' = batcher c \<and> deferCheck c' = deferCheck c \<and> esm_check (heap c' a) = esm_check (heap c a) \<and>
    (s \<noteq> HealthCritical \<longrightarrow> checksCritical c' = checksCritical c)"
  using assms
proof (induction es arbitrary: c)
  case (Cons e es)
  obtain c1 where 1: "UpdateCheck e h s t (c, w) = Inr (c1, w)" "checks c1 = checks c" "batcher c1 = batcher c"
    "deferCheck c1 = deferCheck c" "esm_check (heap c1 a) = esm_check (heap c a)" "\<not> esm_mu (heap c1 a)"
    "s \<noteq> HealthCritical \<longrightarrow> checksCritical c1 = checksCritical c"
    using UpdateCheck_repeat [OF Cons.prems, of e w] by blast
  have "\<exists>c'. foldR (\<lambda>e. UpdateCheck e h s t) es (c1, w) = Inr (c', w) \<and> checks c' = checks c1 \<and>
      batcher c' = batcher c1 \<and> deferCheck c' = deferCheck c1 \<and> esm_check (heap c' a) = esm_check (heap c1 a) \<and>
      (s \<noteq> HealthCritical \<longrightarrow> checksCritical c' = checksCritical c1)"
    by (rule Cons.IH) (use Cons.prems 1 in auto)
  with 1 show ?case by auto
qed simp

text \<open>A critical result whose write fails: the check keeps its state, but is tracked.\<close>

lemma failed_write:
  assumes "gm_load (checks c) h = Some a" and "\<not> esm_mu (heap c a)" and "batcher c = None"
    and "\<not> isAgentless c" and "hc_Status (esm_check (heap c a)) \<noteq> HealthCritical"
    and "failureCounter (heap c a) \<ge> CriticalThreshold c" and "gm_load (checksCritical c) h = None"
    and "Health_Node (env_client e) (hc_Node (esm_check (heap c a))) (node_opts (esm_check (heap c a))) w = (Inl err, w1)"
  shows "\<exists>c1. UpdateCheck e h HealthCritical t (c, w) = Inr (c1, w1) \<and> checks c1 = checks c \<and>
    gm_load (checksCritical c1) h = Some (env_now e) \<and> esm_check (heap c1 a) = esm_check (heap c a) \<and>
    \<not> esm_mu (heap c1 a)"
proof -
  let ?m = "modify_esm a (\<lambda>k. k\<lparr>esm_mu := True\<rparr>) c"
  let ?d = "acceptResult h (env_now e) a HealthCritical ?m"
  have "UpdateCheck_locked e h a HealthCritical t (?m, w) = Inr (?d, w1)"
    using assms by (simp add: UpdateCheck_locked_def Let_def handleCheckUpdate_def handleCheckUpdateImmediate_def)
  then have "UpdateCheck e h HealthCritical t (c, w) = Inr (mu_Unlock a ?d, w1)"
    by (simp add: UpdateCheck_unfold [OF assms(1,2)])
  moreover have "gm_load (checksCritical (mu_Unlock a ?d)) h = Some (env_now e)"
    using assms(7) by (simp add: mu_Unlock_def acceptResult_def trackCritical_def gm_mem_def)
  ultimately show ?thesis by (auto simp: mu_Unlock_def)
qed


definition reapable_check :: HealthCheck where
  "reapable_check = sample_check\<lparr>hc_Definition := sample_def\<lparr>def_DeregisterCriticalServiceAfterDuration := Minute\<rparr>\<rparr>"

definition reapable_runner :: CheckRunner where
  "reapable_runner = fst (UpdateChecks (\<lambda>m. m) [reapable_check] sample_runner)"

text \<open>Consul cannot be reached for queries, but accepts deregistrations.\<close>

definition dark_client :: "unit check_client" where
  "dark_client = \<lparr>Health_Node = (\<lambda>n q w. (Inl ''unreachable'', w)), Txn_Txn = (\<lambda>ops q w. (Inl ''unreachable'', w)),
     Catalog_Deregister = (\<lambda>n s w. (None, w))\<rparr>"

definition dark_env :: "unit env" where
  "dark_env = \<lparr>env_client = dark_client, env_updates = (\<lambda>m. m), env_failed = (\<lambda>m. m), env_stagger = (\<lambda>_. 0), env_now = 0\<rparr>"


subsection \<open>A rollback to a state that was never written\<close>

text \<open>A catalog that answers reads and refuses transactions.\<close>

definition readonly_client :: "HealthCheck list check_client" where
  "readonly_client = \<lparr>Health_Node = (\<lambda>n q w. (Inr (filter (\<lambda>k. hc_Node k = n) w), w)),
     Txn_Txn = (\<lambda>ops q w. (Inl ''no cluster leader'', w)), Catalog_Deregister = (\<lambda>n s w. (None, w))\<rparr>"

definition flapped :: "(CheckRunner \<times> HealthCheck list) res" where
  "flapped = (let
       c0 = NewCheckRunner 0 Second \<lparr>tls_InsecureSkipVerify = False, tls_ServerName = ''''\<rparr> 0 0 True Second;
       c1 = fst (UpdateChecks (\<lambda>m. m) [sample_check] c0); e = env_of readonly_client
     in bindR (UpdateCheck e ''n1/web/tcp'' HealthCritical ''down'' (c1, [sample_check])) (\<lambda>st.
        bindR (UpdateCheck e ''n1/web/tcp'' HealthPassing '''' st) (flushFired e)))"

text \<open>Two changes of a check that are queued in one batch are rolled back to the state between
  them, which Consul never had: the second update replaces the first together with the state
  to roll back to. A check that passes in the catalog turns critical and passes again before the
  flush, and the batch is refused: the check is critical locally and passing in the catalog.
  When it now really fails with that output, no result, however many come and whatever Consul
  answers by then, is written, queued or deferred.\<close>

lemma coalesced_rollback:
  "case flapped of Inl f \<Rightarrow> False
   | Inr (c, w) \<Rightarrow> w = [sample_check] \<and> catalog_state w ''n1'' ''tcp'' = Some (HealthPassing, '''') \<and>
       state_at c ''n1/web/tcp'' = Some (HealthCritical, ''down'') \<and>
       (\<forall>es. \<exists>c'. foldR (\<lambda>e. UpdateCheck e ''n1/web/tcp'' HealthCritical ''down'') es (c, w) = Inr (c', w) \<and>
          batcher c' = Some (NewCheckUpdateBatcher maxTxnOps Second) \<and> deferCheck c' = [] \<and>
          state_at c' ''n1/web/tcp'' = Some (HealthCritical, ''down''))"
proof -
  have run: "case flapped of Inl f \<Rightarrow> False
   | Inr (c, w) \<Rightarrow> w = [sample_check] \<and> gm_load (checks c) ''n1/web/tcp'' = Some 1 \<and> \<not> esm_mu (heap c 1) \<and>
       hc_Status (esm_check (heap c 1)) = HealthCritical \<and> hc_Output (esm_check (heap c 1)) = ''down'' \<and>
       batcher c = Some (NewCheckUpdateBatcher maxTxnOps Second) \<and> deferCheck c = []" by code_simp
  then obtain c where f: "flapped = Inr (c, [sample_check])"
    and c: "gm_load (checks c) ''n1/web/tcp'' = Some 1" "\<not> esm_mu (heap c 1)"
      "hc_Status (esm_check (heap c 1)) = HealthCritical" "hc_Output (esm_check (heap c 1)) = ''down''"
    and b: "batcher c = Some (NewCheckUpdateBatcher maxTxnOps Second)" "deferCheck c = []"
    by (auto split: sum.splits)
  have "catalog_state [sample_check] ''n1'' ''tcp'' = Some (HealthPassing, '''')" by code_simp
  moreover have "\<exists>c'. foldR (\<lambda>e. UpdateCheck e ''n1/web/tcp'' HealthCritical ''down'') es (c, [sample_check]) =
        Inr (c', [sample_check]) \<and> batcher c' = Some (NewCheckUpdateBatcher maxTxnOps Second) \<and>
      deferCheck c' = [] \<and> state_at c' ''n1/web/tcp'' = Some (HealthCritical, ''down'')" for es
    using repeat_run [OF c, of es "[sample_check]"] b c by (auto simp: state_at_def)
  ultimately show ?thesis using c by (simp add: f state_at_def)
qed

subsection \<open>The runner between loading and locking\<close>

text \<open>\<^verbatim>\<open>UpdateCheck\<close> from the lock on, for the check object that was loaded before.\<close>

definition UpdateCheck_at :: "'w env \<Rightarrow> string \<Rightarrow> nat \<Rightarrow> string \<Rightarrow> string \<Rightarrow>
    CheckRunner \<times> 'w \<Rightarrow> (CheckRunner \<times> 'w) res" where
  "UpdateCheck_at e checkHash check status output st =
     bindR (mu_Lock check (fst st)) (\<lambda>c1.
     bindR (UpdateCheck_locked e checkHash check status output (c1, snd st)) (\<lambda>(c2, w2).
       Inr (mu_Unlock check c2, w2)))"

lemma UpdateCheck_load: "gm_load (checks (fst st)) h = Some a \<Longrightarrow> UpdateCheck e h s t st = UpdateCheck_at e h a s t st"
  by (simp add: UpdateCheck_def UpdateCheck_at_def)

text \<open>The runner, the servers, and the results that have loaded their check (the hash, the object, status
  and output) and have not locked it yet.\<close>

type_synonym 'w racing = "CheckRunner \<times> 'w \<times> (string \<times> nat \<times> string \<times> string) list"

inductive racing_step :: "'w racing \<Rightarrow> 'w racing \<Rightarrow> bool" where
  race_sync: "visits ord \<Longrightarrow> \<forall>k \<in> set cs. single_protocol (hc_Definition k) \<Longrightarrow>
    racing_step (c, w, rs) (fst (UpdateChecks ord cs c), w, rs)"
| race_load: "gm_load (checks c) h = Some a \<Longrightarrow> racing_step (c, w, rs) (c, w, rs @ [(h, a, s, t)])"
| race_result: "rs = xs @ (h, a, s, t) # ys \<Longrightarrow> UpdateCheck_at e h a s t (c, w) = Inr (c', w') \<Longrightarrow>
    racing_step (c, w, rs) (c', w', xs @ ys)"
| race_defer: "deferFired e h (c, w) = Inr (c', w') \<Longrightarrow> racing_step (c, w, rs) (c', w', rs)"
| race_flush: "flushFired e (c, w) = Inr (c', w') \<Longrightarrow> racing_step (c, w, rs) (c', w', rs)"
| race_reap: "reapServicesInternal cl ord now c w = (reaped, w') \<Longrightarrow> racing_step (c, w, rs) (c, w', rs)"

inductive racing_init :: "'w racing \<Rightarrow> bool" where
  "racing_init (NewCheckRunner ui mi tls pass crit ag bf, w, [])"

inductive_cases racing_initE: "racing_init st"
inductive_cases racing_stepE: "racing_step st st'"

text \<open>Every step of the runner whose results are atomic is a pair of these steps, or one.\<close>

lemma racing_simulates:
  assumes "UpdateCheck e h s t (c, w) = Inr (c', w')"
  shows "racing_step\<^sup>*\<^sup>* (c, w, []) (c', w', [])"
proof (cases "gm_load (checks c) h")
  case None
  then show ?thesis using assms by (simp add: UpdateCheck_absent)
next
  case (Some a)
  then have "racing_step (c, w, []) (c, w, [] @ [(h, a, s, t)])" by (rule race_load)
  moreover have "racing_step (c, w, [(h, a, s, t)]) (c', w', [] @ [])"
    by (rule race_result [of _ "[]"]) (use assms UpdateCheck_load [of "(c, w)"] Some in auto)
  ultimately show ?thesis by (simp add: r_into_rtranclp rtranclp.rtrancl_into_rtrancl)
qed

text \<open>The critical times do not matter for the rest of the runner: setting them aside commutes with
  every round of \<^verbatim>\<open>UpdateChecks\<close>.\<close>

definition timeless :: "CheckRunner \<Rightarrow> CheckRunner" where
  "timeless c = c\<lparr>checksCritical := []\<rparr>"

lemma timeless_simps [simp]:
  "checks (timeless c) = checks c" "checksHTTP (timeless c) = checksHTTP c" "checksTCP (timeless c) = checksTCP c"
  "checksGRPC (timeless c) = checksGRPC c" "heap (timeless c) = heap c" "next_ref (timeless c) = next_ref c"
  "events (timeless c) = events c" "batcher (timeless c) = batcher c" "MinimumInterval (timeless c) = MinimumInterval c"
  "tlsConfig (timeless c) = tlsConfig c" "checksCritical (timeless c) = []" "deferCheck (timeless c) = deferCheck c"
  by (simp_all add: timeless_def)

lemma timeless_stop: "stopExistingChecks d h (timeless c) = apsnd timeless (stopExistingChecks d h c)"
  by (auto simp: stopExistingChecks_def stop_checker_def timeless_def Let_def split: option.splits)

lemma timeless_start [simp]:
  "startHTTP x h (timeless c) = timeless (startHTTP x h c)" "startTCP y h (timeless c) = timeless (startTCP y h c)"
  "startGRPC z h (timeless c) = timeless (startGRPC z h c)"
  "mkHTTP (timeless c) d = mkHTTP c d" "mkTCP (timeless c) d = mkTCP c d" "mkGRPC (timeless c) d = mkGRPC c d"
  by (simp_all add: startHTTP_def startTCP_def startGRPC_def mkHTTP_def mkTCP_def mkGRPC_def timeless_def
      clone_tls_def Let_def)

definition timeless4 :: "'b \<times> CheckRunner \<times> 'u \<times> 'a \<Rightarrow> 'b \<times> CheckRunner \<times> 'u \<times> 'a" where
  "timeless4 = apsnd (apfst timeless)"

lemma timeless_update:
  "updateCheckHTTP h d (timeless c, u, a) = timeless4 (updateCheckHTTP h d (c, u, a))"
  "updateCheckTCP h d (timeless c, u, a) = timeless4 (updateCheckTCP h d (c, u, a))"
  "updateCheckGRPC h d (timeless c, u, a) = timeless4 (updateCheckGRPC h d (c, u, a))"
  by (auto simp: updateCheckHTTP_def updateCheckTCP_def updateCheckGRPC_def timeless_stop timeless4_def Let_def
      split: option.splits prod.splits bool.splits)

lemma timeless_store: "storeCheck k h (timeless c) = timeless (storeCheck k h c)"
  by (simp add: storeCheck_def timeless_def Let_def split: option.split)

lemma timeless_updateOne: "updateOne k (apfst timeless st) = apfst timeless (updateOne k st)"
  unfolding updateOne_def Let_def fixInterval_def
  by (cases st) (auto simp: timeless_update timeless4_def timeless_store split: prod.splits)

lemma gm_empty: "gm_load [] = Map.empty" "gm_delete k [] = []"
  by (auto simp: gm_load_def gm_delete_def)

lemma timeless_removeOne: "removeOne f kv (apfst timeless st) = apfst timeless (removeOne f kv st)"
  by (cases st) (auto simp: removeOne_def Let_def stop_checker_def timeless_def gm_empty split: option.splits)

lemma timeless_fold_updateOne: "fold updateOne cs (apfst timeless st) = apfst timeless (fold updateOne cs st)"
  by (induction cs arbitrary: st) (simp_all add: timeless_updateOne)

lemma timeless_fold_removeOne: "fold (removeOne f) kvs (apfst timeless st) = apfst timeless (fold (removeOne f) kvs st)"
  by (induction kvs arbitrary: st) (simp_all add: timeless_removeOne)

lemma timeless_UpdateChecks: "fst (UpdateChecks ord cs (timeless c)) = timeless (fst (UpdateChecks ord cs c))"
  using timeless_fold_updateOne [of cs "(c, [], [], [])"] timeless_fold_removeOne [of _ _ "(_, [])"]
  by (auto simp: UpdateChecks_def split: prod.splits)

lemma timeless_frame: "frame c c' \<Longrightarrow> frame (timeless c) (timeless c')"
  by (simp add: timeless_def frame_def)

lemma timeless_unlocked [simp]: "unlocked (timeless c) = unlocked c" "batch_ok (timeless c) = batch_ok c"
  by (simp_all add: unlocked_def batch_ok_def)

lemma timeless_good: "good (c, w) \<Longrightarrow> good (timeless c, w)"
  using frame_runner_inv [of c "timeless c"] by (simp add: good_def) (simp add: timeless_def gm_empty)


subsection \<open>The invariant under races\<close>

lemma UpdateCheck_at_frame:
  assumes "UpdateCheck_at e h a s t (c, w) = Inr (c', w')"
  shows "frame c c' \<and> (batch_ok c \<longrightarrow> batch_ok c')"
proof -
  obtain c1 c2 where l: "mu_Lock a c = Inr c1"
    and b: "UpdateCheck_locked e h a s t (c1, w) = Inr (c2, w')" and c': "c' = mu_Unlock a c2"
    using assms by (auto simp: UpdateCheck_at_def bindR_eq_Inr)
  let ?d = "c2\<lparr>checksCritical := checksCritical c, deferCheck := deferCheck c, batcher := batcher c\<rparr>"
  have c1: "c1 = modify_esm a (\<lambda>k. k\<lparr>esm_mu := True\<rparr>) c" using l by (auto simp: mu_Lock_def split: if_splits)
  have "frame_all c1 ?d" using UpdateCheck_locked_touched [OF b] by (simp add: frame_all_def touched_def c1)
  from mu_Lock_unlock [OF l this] have "frame c (mu_Unlock a ?d)" by (rule frame_all_frame)
  then have "frame c c'" unfolding c' by (simp add: frame_def mu_Unlock_def)
  moreover have "batch_ok c \<Longrightarrow> batch_ok c'"
    using UpdateCheck_locked_batch_ok [OF b] by (simp add: c' c1 mu_Unlock_def)
  ultimately show ?thesis by blast
qed

text \<open>The invariant of the runner, but for the critical times; and every result in flight has an object
  that was a check with its hash.\<close>

definition race_good :: "'w racing \<Rightarrow> bool" where
  "race_good st \<longleftrightarrow> (case st of (c, w, rs) \<Rightarrow> good (timeless c, w))"

lemma race_good_frame:
  assumes "good (timeless c, w)" and "frame c c'" and "batch_ok c'"
  shows "good (timeless c', w')"
  using good_frame [OF assms(1) timeless_frame [OF assms(2)]] assms(3) by simp

lemma race_good_step:
  assumes "race_good st" and "racing_step st st'"
  shows "race_good st'"
  using assms(2)
proof cases
  case (race_sync ord cs c w rs)
  with assms(1) good_sync [of "timeless c" w ord cs] show ?thesis
    by (simp add: race_good_def timeless_UpdateChecks)
next
  case (race_result rs xs h a s t ys e c w c' w')
  with assms(1) UpdateCheck_at_frame [OF race_result(4)] show ?thesis
    by (auto simp: race_good_def intro: race_good_frame) (simp add: good_def race_good_frame)
next
  case (race_defer e h c w c' w' rs)
  then have g: "good (timeless c, w)" using assms(1) by (simp add: race_good_def)
  with defer_frame [OF race_defer(3)] have "frame c c'" "batch_ok c'" by (simp_all add: good_def)
  with race_good_frame [OF g] race_defer show ?thesis by (simp add: race_good_def)
next
  case (race_flush e c w c' w' rs)
  with assms(1) flush_frame [OF race_flush(3)] show ?thesis by (auto simp: race_good_def intro: race_good_frame)
qed (use assms(1) good_world in \<open>auto simp: race_good_def\<close>)

interpretation race: inductive_invariant racing_init racing_step race_good
proof unfold_locales
  show "racing_init st \<Longrightarrow> race_good st" for st
    by (erule racing_initE) (simp add: race_good_def timeless_good good_New)
  show "race_good st \<Longrightarrow> racing_step st st' \<Longrightarrow> race_good st'" for st st'
    by (rule race_good_step)
qed

text \<open>What the invariant says of the runner.\<close>

lemma race_good_facts:
  assumes "race_good (c, w, rs)"
  shows "running c = ran (ref_at c) \<and> dom (ref_at c) = dom (gm_load (checks c)) \<and>
    (\<forall>h h' i. ref_at c h = Some i \<longrightarrow> ref_at c h' = Some i \<longrightarrow> h = h') \<and>
    (\<forall>h a. gm_load (checks c) h = Some a \<longrightarrow> hashCheck (esm_check (heap c a)) = h) \<and>
    (\<forall>a. \<not> esm_mu (heap c a)) \<and> (\<forall>b. batcher c = Some b \<longrightarrow> batcher_inv b)"
proof -
  from assms have g: "runner_inv (timeless c)" "unlocked c" "batch_ok c" by (simp_all add: race_good_def good_def)
  have "ref_at (timeless c) = ref_at c" by (intro ref_at_cong) simp_all
  moreover have "running (timeless c) = running c" by (intro running_cong) simp
  ultimately show ?thesis using g by (auto simp: runner_inv_def refs_inv_def checks_inv_def unlocked_def batch_ok_def)
qed

text \<open>What does not hold under races: a critical time may outlive its check. A critical result has loaded
  its check when the check is removed; it then records a critical time that nothing removes.\<close>

definition other_check :: HealthCheck where
  "other_check = sample_check\<lparr>hc_Node := ''n2''\<rparr>"

lemma late_result_leaves_time:
  "let c1 = fst (UpdateChecks (\<lambda>m. m) [other_check] reapable_runner)
   in case UpdateCheck_at dark_env ''n1/web/tcp'' 1 HealthCritical ''down'' (c1, ()) of
        Inl f \<Rightarrow> False
      | Inr (c2, w) \<Rightarrow> gm_load (checks c2) ''n1/web/tcp'' = None \<and> gm_load (checksCritical c2) ''n1/web/tcp'' = Some 0 \<and>
          fst (reapServicesInternal dark_client (\<lambda>m. m) (2 * Minute)
            (fst (UpdateChecks (\<lambda>m. m) [other_check, reapable_check] c2)) ()) = [(''n1'', ''web'')]"
  by code_simp

end
