(* ===== verification/Batch_Flight.thy ===== *)
theory Batch_Flight
  imports Check_Races
begin

text \<open>
  Batches under way: \<^verbatim>\<open>Flush\<close> of \<^verbatim>\<open>src/batcher.go\<close> drains the pending updates under its lock and processes them after
  unlocking, in the goroutine of the timer that fired. Processing talks to Consul, so other results, other operations and
  further batches come in between, and batches may finish in another order than they were drained in.
\<close>

text \<open>The part of \<^verbatim>\<open>Flush\<close> under the lock.\<close>

definition drainBatch :: "pendingCheckUpdate range_order \<Rightarrow> CheckRunner \<Rightarrow> pendingCheckUpdate list \<times> CheckRunner" where
  "drainBatch ord c =
     (case batcher c of
        None \<Rightarrow> ([], c)
      | Some b \<Rightarrow> (case drainLocked ord b of (us, b1) \<Rightarrow> (us, c\<lparr>batcher := Some b1\<rparr>)))"

text \<open>The part after it.\<close>

definition processBatch :: "'w env \<Rightarrow> pendingCheckUpdate list \<Rightarrow> CheckRunner \<times> 'w \<Rightarrow> (CheckRunner \<times> 'w) res" where
  "processBatch e us st = processUpdates (processFunc e) us st"

lemma processBatch_frame:
  assumes "processBatch e us (c, w) = Inr (c', w')"
  shows "frame_all c c'"
  using assms by (auto simp: processBatch_def processUpdates_def processFunc_def split: if_splits intro: processBatched_frame)

text \<open>The state of \<open>racing_step\<close>, with results that have loaded their check and not locked it, and the batches under way.\<close>

type_synonym 'w flying = "'w racing \<times> pendingCheckUpdate list list"

inductive flying_step :: "'w flying \<Rightarrow> 'w flying \<Rightarrow> bool" where
  fly_other: "racing_step st st' \<Longrightarrow> flying_step (st, fs) (st', fs)"
| fly_drain: "visits ord \<Longrightarrow> drainBatch ord c = (us, c') \<Longrightarrow> us \<noteq> [] \<Longrightarrow>
    flying_step ((c, w, rs), fs) ((c', w, rs), fs @ [us])"
| fly_process: "fs = xs @ us # ys \<Longrightarrow> processBatch e us (c, w) = Inr (c', w') \<Longrightarrow>
    flying_step ((c, w, rs), fs) ((c', w', rs), xs @ ys)"
| fly_world: "flying_step ((c, w, rs), fs) ((c, w', rs), fs)"

inductive flying_init :: "'w flying \<Rightarrow> bool" where
  "racing_init st \<Longrightarrow> flying_init (st, [])"

inductive_cases flying_initE: "flying_init st"
inductive_cases flying_stepE: "flying_step st st'"

definition flying_ok :: "'w flying \<Rightarrow> bool" where
  "flying_ok st \<longleftrightarrow> race_good (fst st) \<and> (\<forall>us \<in> set (snd st). us \<noteq> [] \<and> distinct (map update_key us))"

lemma drainBatch_good:
  assumes "good (timeless c, w)" and "visits ord" and "drainBatch ord c = (us, c')" and "us \<noteq> []"
  shows "good (timeless c', w) \<and> distinct (map update_key us)"
proof -
  from assms(3,4) obtain b b1 where b: "batcher c = Some b" and d: "drainLocked ord b = (us, b1)"
    and c': "c' = c\<lparr>batcher := Some b1\<rparr>" by (auto simp: drainBatch_def split: option.splits prod.splits)
  from assms(1) b have inv: "batcher_inv b" by (simp add: good_def batch_ok_def)
  have "good (timeless c', w)"
    by (rule race_good_frame [OF assms(1)]) (use drainLocked_inv [OF d] in \<open>simp_all add: c' frame_def batch_ok_def\<close>)
  with drainLocked_wf [OF inv assms(2) d assms(4)] show ?thesis by (simp add: batch_wf_def)
qed

lemma processBatch_good:
  assumes "good (timeless c, w)" and "processBatch e us (c, w) = Inr (c', w')"
  shows "good (timeless c', w')"
proof -
  have f: "frame_all c c'" by (rule processBatch_frame [OF assms(2)])
  then have "batcher c' = batcher c" by (simp add: frame_all_def)
  with assms(1) show ?thesis
    by (intro race_good_frame [OF assms(1) frame_all_frame [OF f]]) (simp add: good_def batch_ok_def)
qed

interpretation flying: inductive_invariant flying_init flying_step flying_ok
proof unfold_locales
  show "flying_ok st" if "flying_init st" for st :: "'w flying"
    using that by (rule flying_initE) (simp add: flying_ok_def race.inv_init)
  show "flying_ok st'" if "flying_ok st" "flying_step st st'" for st st' :: "'w flying"
    using that(2)
  proof cases
    case (fly_other r r' fs)
    with that(1) race_good_step [of r r'] show ?thesis by (simp add: flying_ok_def)
  next
    case (fly_drain ord c us c' w rs fs)
    with that(1) drainBatch_good [of c w ord us c'] show ?thesis by (auto simp: flying_ok_def race_good_def)
  next
    case (fly_process fs xs us ys e c w c' w' rs)
    with that(1) processBatch_good [of c w e us c' w'] show ?thesis by (auto simp: flying_ok_def race_good_def)
  next
    case (fly_world c w rs fs w')
    with that(1) show ?thesis by (auto simp: flying_ok_def race_good_def intro: good_world)
  qed
qed


subsection \<open>A batch that is overtaken\<close>

text \<open>A check turns critical, its batch is drained; the check passes again, its second batch is
  drained and written; then the first batch is processed.\<close>

definition batch_runner :: CheckRunner where
  "batch_runner = fst (UpdateChecks (\<lambda>m. m) [sample_check]
     (NewCheckRunner 0 Second \<lparr>tls_InsecureSkipVerify = False, tls_ServerName = ''''\<rparr> 0 0 True Second))"

definition result :: "string \<Rightarrow> string \<Rightarrow> CheckRunner \<times> bool \<times> HealthCheck list \<Rightarrow> (CheckRunner \<times> bool \<times> HealthCheck list) res" where
  "result s t = UpdateCheck (env_of cas_client) ''n1/web/tcp'' s t"

definition overtaken :: "(CheckRunner \<times> bool \<times> HealthCheck list) res" where
  "overtaken = bindR (result HealthCritical ''down'' (batch_runner, False, [sample_check])) (\<lambda>(c1, w1).
     let first = drainBatch (\<lambda>m. m) c1 in
     bindR (result HealthPassing '''' (snd first, w1)) (\<lambda>(c3, w3).
     let second = drainBatch (\<lambda>m. m) c3 in
     bindR (processBatch (env_of cas_client) (fst second) (snd second, w3)) (processBatch (env_of cas_client) (fst first))))"

lemma overtaken_facts:
  "case overtaken of Inl f \<Rightarrow> False
   | Inr (c, b, w) \<Rightarrow> gm_load (checks c) ''n1/web/tcp'' = Some 1 \<and> \<not> esm_mu (heap c 1) \<and>
       hc_Status (esm_check (heap c 1)) = HealthPassing \<and> hc_Output (esm_check (heap c 1)) = '''' \<and>
       batcher c = Some (NewCheckUpdateBatcher maxTxnOps Second) \<and> deferCheck c = [] \<and>
       catalog_state w ''n1'' ''tcp'' = Some (HealthCritical, ''down'')"
  by code_simp

lemma overtaken_drains:
  "case result HealthCritical ''down'' (batch_runner, False, [sample_check]) of Inl f \<Rightarrow> False
   | Inr (c1, w1) \<Rightarrow> fst (drainBatch (\<lambda>m. m) c1) \<noteq> [] \<and>
       (case result HealthPassing '''' (snd (drainBatch (\<lambda>m. m) c1), w1) of Inl f \<Rightarrow> False
        | Inr (c3, w3) \<Rightarrow> fst (drainBatch (\<lambda>m. m) c3) \<noteq> [])"
  by code_simp

lemma reach_batch_runner: "reach flying_init flying_step ((batch_runner, w, []), [])"
proof -
  let ?n = "NewCheckRunner 0 Second \<lparr>tls_InsecureSkipVerify = False, tls_ServerName = ''''\<rparr> 0 0 True Second"
  have "racing_step (?n, w, []) (batch_runner, w, [])" unfolding batch_runner_def
    by (rule race_sync) (simp_all add: visits_id single_protocol_sample)
  then have "flying_step ((?n, w, []), []) ((batch_runner, w, []), [])" by (rule fly_other)
  with reach_init [of flying_init "((?n, w, []), [])", OF flying_init.intros [OF racing_init.intros]]
  show ?thesis by (rule reach_step)
qed

lemma reach_result:
  assumes "reach flying_init flying_step ((c, w, []), fs)" and "UpdateCheck e h s t (c, w) = Inr (c', w')"
  shows "reach flying_init flying_step ((c', w', []), fs)"
proof -
  have "racing_step\<^sup>*\<^sup>* (c, w, []) st \<Longrightarrow> reach flying_init flying_step (st, fs)" for st
    by (induction rule: rtranclp_induct) (use assms(1) in \<open>auto intro: reach_step fly_other\<close>)
  then show ?thesis using racing_simulates [OF assms(2)] .
qed

lemma reach_first_batch:
  assumes "result HealthCritical ''down'' (batch_runner, False, [sample_check]) = Inr (c1, w1)"
    and "drainBatch (\<lambda>m. m) c1 = (us, c2)"
  shows "us \<noteq> [] \<and> reach flying_init flying_step ((c2, w1, []), [us])"
proof
  show n: "us \<noteq> []" using overtaken_drains assms by simp
  have "reach flying_init flying_step ((c1, w1, []), [])"
    by (rule reach_result [OF reach_batch_runner assms(1) [unfolded result_def]])
  moreover have "flying_step ((c1, w1, []), []) ((c2, w1, []), [us])"
    using fly_drain [OF visits_id assms(2) n, of w1 "[]" "[]"] by simp
  ultimately show "reach flying_init flying_step ((c2, w1, []), [us])" by (rule reach_step)
qed

lemma reach_overtaken:
  assumes "overtaken = Inr (c, w)"
  shows "reach flying_init flying_step ((c, w, []), [])"
proof -
  let ?R = "reach flying_init flying_step" and ?e = "env_of cas_client"
  from assms obtain c1 w1 c3 w3 c5 w5 where
    r1: "result HealthCritical ''down'' (batch_runner, False, [sample_check]) = Inr (c1, w1)"
    and r2': "result HealthPassing '''' (snd (drainBatch (\<lambda>m. m) c1), w1) = Inr (c3, w3)"
    and p2': "processBatch ?e (fst (drainBatch (\<lambda>m. m) c3)) (snd (drainBatch (\<lambda>m. m) c3), w3) = Inr (c5, w5)"
    and p1': "processBatch ?e (fst (drainBatch (\<lambda>m. m) c1)) (c5, w5) = Inr (c, w)"
    unfolding overtaken_def Let_def bindR_eq_Inr by (auto simp: bindR_eq_Inr)
  obtain us c2 where d1: "drainBatch (\<lambda>m. m) c1 = (us, c2)" by fastforce
  obtain vs c4 where d2: "drainBatch (\<lambda>m. m) c3 = (vs, c4)" by fastforce
  from r2' p2' p1' have r2: "result HealthPassing '''' (c2, w1) = Inr (c3, w3)"
    and p2: "processBatch ?e vs (c4, w3) = Inr (c5, w5)" and p1: "processBatch ?e us (c5, w5) = Inr (c, w)"
    by (simp_all add: d1 d2)
  have n: "vs \<noteq> []" using overtaken_drains d1 d2 r2 by (simp add: r1)
  from reach_result [OF reach_first_batch [OF r1 d1, THEN conjunct2] r2 [unfolded result_def]]
  have 2: "?R ((c3, w3, []), [us])" .
  have 3: "flying_step ((c3, w3, []), [us]) ((c4, w3, []), [us, vs])" using fly_drain [OF visits_id d2 n, of w3 "[]" "[us]"] by simp
  have 4: "flying_step ((c4, w3, []), [us, vs]) ((c5, w5, []), [us])"
    using fly_process [of "[us, vs]" "[us]" vs "[]", OF _ p2] by simp
  have 5: "flying_step ((c5, w5, []), [us]) ((c, w, []), [])" using fly_process [of "[us]" "[]" us "[]", OF _ p1] by simp
  show ?thesis by (rule reach_step [OF reach_step [OF reach_step [OF 2 3] 4] 5])
qed

text \<open>Batches that finish in the wrong order leave the catalog wrong for good: a check fails and recovers, the batch with
  the failure is drained first and processed last. In the end nothing is pending or under way, the check is passing locally
  and critical in the catalog, and no passing result, however many come and whatever Consul answers, is written,
  queued or deferred. (The failure is written in spite of compare-and-set, because a batch
  reads the indices only when it is processed.)\<close>

lemma overtaken_batch_wins:
  "\<exists>c (b :: bool) w. reach flying_init flying_step ((c, (b, w), []), []) \<and>
     state_at c ''n1/web/tcp'' = Some (HealthPassing, '''') \<and> catalog_state w ''n1'' ''tcp'' = Some (HealthCritical, ''down'') \<and>
     (\<forall>es. \<exists>c'. foldR (\<lambda>e. UpdateCheck e ''n1/web/tcp'' HealthPassing '''') es (c, (b, w)) = Inr (c', (b, w)) \<and>
        batcher c' = Some (NewCheckUpdateBatcher maxTxnOps Second) \<and> deferCheck c' = [])"
proof -
  from overtaken_facts obtain c b w where o: "overtaken = Inr (c, b, w)"
    and c: "gm_load (checks c) ''n1/web/tcp'' = Some 1" "\<not> esm_mu (heap c 1)"
      "hc_Status (esm_check (heap c 1)) = HealthPassing" "hc_Output (esm_check (heap c 1)) = ''''"
    and q: "batcher c = Some (NewCheckUpdateBatcher maxTxnOps Second)" "deferCheck c = []"
    and cat: "catalog_state w ''n1'' ''tcp'' = Some (HealthCritical, ''down'')"
    by (auto split: sum.splits)
  have "\<exists>c'. foldR (\<lambda>e. UpdateCheck e ''n1/web/tcp'' HealthPassing '''') es (c, (b, w)) = Inr (c', (b, w)) \<and>
      batcher c' = Some (NewCheckUpdateBatcher maxTxnOps Second) \<and> deferCheck c' = []" for es
    using repeat_run [OF c, of es "(b, w)"] q by auto
  then have later: "\<forall>es. \<exists>c'. foldR (\<lambda>e. UpdateCheck e ''n1/web/tcp'' HealthPassing '''') es (c, (b, w)) = Inr (c', (b, w)) \<and>
      batcher c' = Some (NewCheckUpdateBatcher maxTxnOps Second) \<and> deferCheck c' = []" ..
  have "state_at c ''n1/web/tcp'' = Some (HealthPassing, '''')" using c by (simp add: state_at_def)
  from conjI [OF reach_overtaken [OF o] conjI [OF this conjI [OF cat later]]] show ?thesis
    by - (rule exI [where x = c], rule exI [where x = b], rule exI [where x = w], assumption)
qed

lemma error_indices_cas: "error_indices cas_client"
  by (auto simp: error_indices_def cas_client_def Let_def split: if_splits)


end
