(* ===== verification/Batch_Writes.thy ===== *)
theory Batch_Writes
  imports Check_Races
begin

text \<open>
  What a batch writes when Consul answers. The catalog is what the client's calls say about it: a function \<open>srv\<close> from nodes and
  check IDs to status and output, and the \<^verbatim>\<open>ModifyIndex\<close> of each check (\<open>idx\<close>). Processing updates of different
  checks writes exactly those that the catalog lists, over all transactions of the batch, and changes nothing in the runner.
\<close>

subsection \<open>A Consul that answers\<close>

definition check_at :: "HealthCheck \<Rightarrow> string \<times> string" where
  "check_at k = (hc_Node k, hc_CheckID k)"

definition check_state :: "HealthCheck \<Rightarrow> string \<times> string" where
  "check_state k = (hc_Status k, hc_Output k)"

type_synonym ('w, 'v) catalog_view = "'w \<Rightarrow> string \<times> string \<Rightarrow> 'v"

text \<open>A node's checks are listed as they are; a transaction of compare-and-set operations with current indices, on
  different checks that exist, succeeds and writes exactly those checks.\<close>

definition lists_checks :: "'w check_client \<Rightarrow> ('w, (string \<times> string) option) catalog_view \<Rightarrow> ('w, nat) catalog_view \<Rightarrow> bool" where
  "lists_checks cl srv idx \<longleftrightarrow> (\<forall>n q w. \<exists>cs w'. Health_Node cl n q w = (Inr cs, w') \<and> srv w' = srv w \<and> idx w' = idx w \<and>
     (\<forall>k \<in> set cs. hc_Node k = n \<and> srv w (check_at k) = Some (check_state k) \<and> hc_ModifyIndex k = idx w (check_at k)) \<and>
     (\<forall>i. srv w (n, i) \<noteq> None \<longrightarrow> i \<in> hc_CheckID ` set cs))"

definition writes :: "('a \<rightharpoonup> 'b) \<Rightarrow> ('a \<rightharpoonup> 'b) \<Rightarrow> 'a \<rightharpoonup> 'b" where
  "writes u m x = (case m x of None \<Rightarrow> None | Some v \<Rightarrow> (case u x of None \<Rightarrow> Some v | Some v' \<Rightarrow> Some v'))"

definition commits_checks :: "'w check_client \<Rightarrow> ('w, (string \<times> string) option) catalog_view \<Rightarrow> ('w, nat) catalog_view \<Rightarrow> bool" where
  "commits_checks cl srv idx \<longleftrightarrow> (\<forall>ks q w. ks \<noteq> [] \<longrightarrow> length ks \<le> 64 \<longrightarrow> distinct (map check_at ks) \<longrightarrow>
     (\<forall>k \<in> set ks. srv w (check_at k) \<noteq> None \<and> hc_ModifyIndex k = idx w (check_at k)) \<longrightarrow>
     (\<exists>w'. Txn_Txn cl (map (TxnCheck CheckCAS) ks) q w = (Inr (True, []), w') \<and>
        srv w' = writes (map_of (map (\<lambda>k. (check_at k, check_state k)) ks)) (srv w) \<and>
        (\<forall>x. x \<notin> check_at ` set ks \<longrightarrow> idx w' x = idx w x)))"

lemma commits_checksD:
  assumes "commits_checks cl srv idx" and "ks \<noteq> []" and "length ks \<le> 64" and "distinct (map check_at ks)"
    and "\<forall>k \<in> set ks. srv w (check_at k) \<noteq> None \<and> hc_ModifyIndex k = idx w (check_at k)"
  obtains w' where "Txn_Txn cl (map (TxnCheck CheckCAS) ks) q w = (Inr (True, []), w')"
    and "srv w' = writes (map_of (map (\<lambda>k. (check_at k, check_state k)) ks)) (srv w)"
    and "\<forall>x. x \<notin> check_at ` set ks \<longrightarrow> idx w' x = idx w x"
  using assms unfolding commits_checks_def by meson

text \<open>Where an update goes, and what it writes.\<close>

definition target :: "HealthCheck \<Rightarrow> string \<times> string" where
  "target k = (hc_Node k, catalog_id k)"

definition update_at :: "pendingCheckUpdate \<Rightarrow> string \<times> string" where
  "update_at u = target (pu_check u)"

definition update_map :: "pendingCheckUpdate list \<Rightarrow> string \<times> string \<rightharpoonup> string \<times> string" where
  "update_map us = map_of (map (\<lambda>u. (update_at u, (pu_status u, pu_output u))) us)"

lemma dom_update_map: "dom (update_map us) = set (map update_at us)"
  by (simp add: update_map_def dom_map_of_conv_image_fst image_image)

lemma writes_simps [simp]: "writes Map.empty m = m" "writes u m x = None \<longleftrightarrow> m x = None"
  by (auto simp: writes_def fun_eq_iff split: option.splits)

lemma writes_writes: "writes v (writes u m) = writes (u ++ v) m"
  by (auto simp: writes_def fun_eq_iff map_add_def split: option.splits)

lemma writes_cong: "(\<And>x. m x \<noteq> None \<Longrightarrow> u x = v x) \<Longrightarrow> writes u m = writes v m"
  by (auto simp: writes_def fun_eq_iff split: option.splits)

subsection \<open>A batch\<close>

text \<open>What the fetched checks know: for each node and namespace of an update, all of the node's checks.\<close>

definition knows :: "(string \<times> string \<Rightarrow> (string \<times> string) option) \<Rightarrow> (string \<times> string \<Rightarrow> nat) \<Rightarrow> node_checks \<Rightarrow> bool" where
  "knows m ix nc \<longleftrightarrow> (\<forall>n ns nm. gm_load nc (n, ns) = Some nm \<longrightarrow> (\<forall>i. case gm_load nm i of
      None \<Rightarrow> m (n, i) = None
    | Some k \<Rightarrow> check_at k = (n, i) \<and> m (n, i) = Some (check_state k) \<and> hc_ModifyIndex k = ix (n, i)))"

lemma load_by_id:
  "gm_load (fold (\<lambda>k. gm_store (hc_CheckID k) k) cs m) i = Some k \<Longrightarrow>
   (k \<in> set cs \<and> hc_CheckID k = i) \<or> gm_load m i = Some k"
proof (induction cs arbitrary: m)
  case (Cons k' cs)
  from Cons.IH [of "gm_store (hc_CheckID k') k' m"] Cons.prems show ?case by (auto split: if_splits)
qed simp

lemma dom_by_id: "dom (gm_load (fold (\<lambda>k. gm_store (hc_CheckID k) k) cs m)) = hc_CheckID ` set cs \<union> dom (gm_load m)"
  by (induction cs arbitrary: m) auto

lemma fetched_node:
  assumes "\<forall>k \<in> set cs. hc_Node k = n \<and> m (check_at k) = Some (check_state k) \<and> hc_ModifyIndex k = ix (check_at k)"
    and "\<forall>i. m (n, i) \<noteq> None \<longrightarrow> i \<in> hc_CheckID ` set cs"
  shows "case gm_load (fold (\<lambda>k. gm_store (hc_CheckID k) k) cs []) i of
      None \<Rightarrow> m (n, i) = None
    | Some k \<Rightarrow> check_at k = (n, i) \<and> m (n, i) = Some (check_state k) \<and> hc_ModifyIndex k = ix (n, i)"
proof (cases "gm_load (fold (\<lambda>k. gm_store (hc_CheckID k) k) cs []) i")
  case None
  then have "i \<notin> hc_CheckID ` set cs" using dom_by_id [of cs "[]"] by auto
  with assms(2) have "m (n, i) = None" by blast
  with None show ?thesis by simp
next
  case (Some k)
  with load_by_id [of cs "[]" i k] have "k \<in> set cs" "hc_CheckID k = i" by auto
  with assms(1) Some show ?thesis by (auto simp: check_at_def)
qed

lemma fetch_knows:
  assumes "lists_checks cl srv idx" and "knows (srv w) (idx w) nc"
  shows "\<exists>nc' w'. fold (fetchOne cl) us (nc, [], w) = (nc', [], w') \<and> srv w' = srv w \<and> idx w' = idx w \<and>
    knows (srv w) (idx w) nc' \<and> dom (gm_load nc) \<union> nodeKey ` set us \<subseteq> dom (gm_load nc')"
  using assms(2)
proof (induction us arbitrary: nc w)
  case (Cons u us)
  show ?case
  proof (cases "gm_mem (nodeKey u) nc")
    case True
    then have "fetchOne cl u (nc, [], w) = (nc, [], w)" by (simp add: fetchOne_def Let_def)
    moreover from True have "nodeKey u \<in> dom (gm_load nc)" by (auto simp: gm_mem_def)
    ultimately show ?thesis using Cons.IH [OF Cons.prems] by fastforce
  next
    case False
    let ?n = "hc_Node (pu_check u)"
    obtain cs w1 where h: "Health_Node cl ?n (node_opts (pu_check u)) w = (Inr cs, w1)" "srv w1 = srv w" "idx w1 = idx w"
      "\<forall>k \<in> set cs. hc_Node k = ?n \<and> srv w (check_at k) = Some (check_state k) \<and> hc_ModifyIndex k = idx w (check_at k)"
      "\<forall>i. srv w (?n, i) \<noteq> None \<longrightarrow> i \<in> hc_CheckID ` set cs"
      using assms(1) unfolding lists_checks_def by metis
    let ?nm = "fold (\<lambda>k. gm_store (hc_CheckID k) k) cs []"
    have f: "fetchOne cl u (nc, [], w) = (gm_store (nodeKey u) ?nm nc, [], w1)"
      using False h(1) by (simp add: fetchOne_def Let_def)
    have "knows (srv w1) (idx w1) (gm_store (nodeKey u) ?nm nc)"
      using Cons.prems fetched_node [OF h(4,5)] unfolding knows_def h(2,3) nodeKey_def by (auto split: if_splits)
    from Cons.IH [OF this] obtain nc' w' where r: "fold (fetchOne cl) us (gm_store (nodeKey u) ?nm nc, [], w1) = (nc', [], w')"
      "srv w' = srv w" "idx w' = idx w" "knows (srv w) (idx w) nc'"
      and d: "insert (nodeKey u) (dom (gm_load nc)) \<union> nodeKey ` set us \<subseteq> dom (gm_load nc')"
      unfolding h(2,3) dom_gm_store by blast
    from r f have "fold (fetchOne cl) (u # us) (nc, [], w) = (nc', [], w')" by simp
    with r d show ?thesis by (intro exI [of _ nc'] exI [of _ w'] conjI) auto
  qed
qed simp

text \<open>The check an update finds, with its new state.\<close>

definition written :: "node_checks \<Rightarrow> pendingCheckUpdate \<Rightarrow> HealthCheck option" where
  "written nc u = (case gm_load nc (nodeKey u) of None \<Rightarrow> None | Some nm \<Rightarrow>
     map_option (\<lambda>k. k\<lparr>hc_Status := pu_status u, hc_Output := pu_output u\<rparr>) (gm_load nm (catalog_id (pu_check u))))"

lemma check_at_update [simp]: "check_at (k\<lparr>hc_Status := s, hc_Output := t\<rparr>) = check_at k"
  by (simp add: check_at_def)

lemma written_known:
  assumes "knows m ix nc" and "written nc u = Some k"
  shows "check_at k = update_at u" "check_state k = (pu_status u, pu_output u)" "m (update_at u) \<noteq> None"
    "hc_ModifyIndex k = ix (update_at u)"
proof -
  from assms(2) obtain nm k0 where nm: "gm_load nc (nodeKey u) = Some nm" and k0: "gm_load nm (catalog_id (pu_check u)) = Some k0"
    and k: "k = k0\<lparr>hc_Status := pu_status u, hc_Output := pu_output u\<rparr>" by (auto simp: written_def split: option.splits)
  have "check_at k0 = update_at u \<and> m (update_at u) = Some (check_state k0) \<and>
      hc_ModifyIndex k0 = ix (update_at u)"
    using assms(1) nm k0 unfolding knows_def nodeKey_def update_at_def target_def by (metis (mono_tags, lifting) option.simps(5))
  with k show "check_at k = update_at u" "check_state k = (pu_status u, pu_output u)" "m (update_at u) \<noteq> None"
    "hc_ModifyIndex k = ix (update_at u)" by (auto simp: check_state_def)
qed

lemma written_unknown:
  assumes "knows m ix nc" and "written nc u = None" and "nodeKey u \<in> dom (gm_load nc)"
  shows "m (update_at u) = None"
proof -
  from assms(2,3) obtain nm where nm: "gm_load nc (nodeKey u) = Some nm" and k0: "gm_load nm (catalog_id (pu_check u)) = None"
    by (auto simp: written_def split: option.splits)
  then show ?thesis using assms(1) unfolding knows_def nodeKey_def update_at_def target_def by (metis (mono_tags, lifting) option.simps(4))
qed

lemma buildOne_written:
  "buildOne cl ord nc u (ops, ps, cw) = (case written nc u of None \<Rightarrow> Inr (ops, ps, cw)
     | Some k \<Rightarrow> if 64 \<le> Suc (length ops)
         then bindR (executeBatchTransaction cl ord (ops @ [TxnCheck CheckCAS k]) (ps @ [u]) cw) (\<lambda>cw1. Inr ([], [], cw1))
         else Inr (ops @ [TxnCheck CheckCAS k], ps @ [u], cw))"
  by (auto simp: buildOne_def written_def cas_op_def maxTxnOps_def Let_def split: option.splits)

text \<open>The state of the loop that builds the transactions, after the updates \<open>done\<close>: those that find their check are written
  already (\<open>ex\<close>) or collected (\<open>ps\<close>); the runner is untouched.\<close>

definition building :: "('w, (string \<times> string) option) catalog_view \<Rightarrow> ('w, nat) catalog_view \<Rightarrow> node_checks \<Rightarrow> 'w \<Rightarrow>
    pendingCheckUpdate list \<Rightarrow> pendingCheckUpdate list \<Rightarrow> TxnOp list \<Rightarrow> 'w \<Rightarrow> bool" where
  "building srv idx nc w0 xs ps ops w \<longleftrightarrow> (\<exists>ex. filter (\<lambda>u. written nc u \<noteq> None) xs = ex @ ps \<and>
     ops = map (\<lambda>u. TxnCheck CheckCAS (the (written nc u))) ps \<and> length ps < 64 \<and>
     srv w = writes (update_map ex) (srv w0) \<and>
     (\<forall>x. x \<notin> update_at ` set ex \<longrightarrow> idx w x = idx w0 x))"

lemma execute_written:
  assumes "commits_checks cl srv idx" and "knows (srv w0) (idx w0) nc"
    and "srv w = writes (update_map ex) (srv w0)" and "\<forall>x. x \<notin> update_at ` set ex \<longrightarrow> idx w x = idx w0 x"
    and "distinct (map update_at (ex @ ps))" and "\<forall>u \<in> set ps. written nc u \<noteq> None"
    and "ps \<noteq> []" and "length ps \<le> 64" and "ops = map (\<lambda>u. TxnCheck CheckCAS (the (written nc u))) ps"
  shows "\<exists>w'. executeBatchTransaction cl ord ops ps (c, w) = Inr (c, w') \<and>
    srv w' = writes (update_map (ex @ ps)) (srv w0) \<and>
    (\<forall>x. x \<notin> update_at ` set (ex @ ps) \<longrightarrow> idx w' x = idx w0 x)"
proof -
  let ?ks = "map (the \<circ> written nc) ps"
  have k: "check_at (the (written nc u)) = update_at u" "check_state (the (written nc u)) = (pu_status u, pu_output u)"
    "srv w0 (update_at u) \<noteq> None" "hc_ModifyIndex (the (written nc u)) = idx w0 (update_at u)" if "u \<in> set ps" for u
  proof -
    from assms(6) that obtain k where "written nc u = Some k" by auto
    from written_known [OF assms(2) this] this show "check_at (the (written nc u)) = update_at u"
      "check_state (the (written nc u)) = (pu_status u, pu_output u)" "srv w0 (update_at u) \<noteq> None"
      "hc_ModifyIndex (the (written nc u)) = idx w0 (update_at u)" by simp_all
  qed
  have at: "map check_at ?ks = map update_at ps" using k(1) by simp
  have um: "map_of (map (\<lambda>k. (check_at k, check_state k)) ?ks) = update_map ps"
    unfolding update_map_def using k(1,2) by (auto intro: arg_cong [where f = map_of])
  have fresh: "update_at u \<notin> update_at ` set ex" if "u \<in> set ps" for u using assms(5) that by auto
  have "\<forall>k \<in> set ?ks. srv w (check_at k) \<noteq> None \<and> hc_ModifyIndex k = idx w (check_at k)"
  proof
    fix k' assume "k' \<in> set ?ks"
    then obtain u where u: "u \<in> set ps" "k' = the (written nc u)" by auto
    have "idx w (update_at u) = idx w0 (update_at u)" using assms(4) fresh [OF u(1)] by blast
    then show "srv w (check_at k') \<noteq> None \<and> hc_ModifyIndex k' = idx w (check_at k')"
      unfolding u(2) k(1) [OF u(1)] k(4) [OF u(1)] assms(3) using k(3) [OF u(1)] by simp
  qed
  note ok = this
  have "distinct (map check_at ?ks)" "?ks \<noteq> []" "length ?ks \<le> 64" unfolding at using assms(5,7,8) by simp_all
  from commits_checksD [OF assms(1) this(2,3,1) ok, unfolded um, of "txn_opts c"]
  obtain w' where t: "Txn_Txn cl (map (TxnCheck CheckCAS) ?ks) (txn_opts c) w = (Inr (True, []), w')"
    and s: "srv w' = writes (update_map ps) (srv w)" and i: "\<forall>x. x \<notin> check_at ` set ?ks \<longrightarrow> idx w' x = idx w x" .
  have "ops = map (TxnCheck CheckCAS) ?ks" using assms(9) by simp
  with t assms(7,9) have "executeBatchTransaction cl ord ops ps (c, w) = Inr (c, w')"
    by (simp add: executeBatchTransaction_def)
  moreover have "srv w' = writes (update_map (ex @ ps)) (srv w0)"
  proof -
    have "update_map (ex @ ps) = update_map ex ++ update_map ps"
    proof -
      have d: "dom (update_map ex) \<inter> dom (update_map ps) = {}"
        using assms(5) unfolding dom_update_map by simp
      have "update_map (ex @ ps) = update_map ps ++ update_map ex" by (simp add: update_map_def)
      also have "\<dots> = update_map ex ++ update_map ps" using d by (intro map_add_comm) auto
      finally show ?thesis .
    qed
    then show ?thesis unfolding s assms(3) writes_writes by simp
  qed
  moreover have "idx w' x = idx w0 x" if "x \<notin> update_at ` set (ex @ ps)" for x
  proof -
    have "check_at ` set ?ks = update_at ` set ps" using arg_cong [OF at, of set] unfolding set_map .
    with that have "x \<notin> check_at ` set ?ks" "x \<notin> update_at ` set ex" by (simp_all only: set_append image_Un Un_iff de_Morgan_disj simp_thms)
    with i assms(4) show ?thesis by metis
  qed
  ultimately show ?thesis by blast
qed

lemma buildOne_building:
  assumes "commits_checks cl srv idx" and "knows (srv w0) (idx w0) nc"
    and "building srv idx nc w0 xs ps ops w" and "distinct (map update_at (xs @ [u]))"
  shows "\<exists>ps' ops' w'. buildOne cl ord nc u (ops, ps, c, w) = Inr (ops', ps', c, w') \<and> building srv idx nc w0 (xs @ [u]) ps' ops' w'"
proof (cases "written nc u")
  case None
  then show ?thesis using assms(3) by (auto simp: buildOne_written building_def)
next
  case (Some k)
  from assms(3) obtain ex where ex: "filter (\<lambda>u. written nc u \<noteq> None) xs = ex @ ps"
    and ops: "ops = map (\<lambda>u. TxnCheck CheckCAS (the (written nc u))) ps" and len: "length ps < 64"
    and w: "srv w = writes (update_map ex) (srv w0)" and ix: "\<forall>x. x \<notin> update_at ` set ex \<longrightarrow> idx w x = idx w0 x"
    unfolding building_def by blast
  have f: "filter (\<lambda>u. written nc u \<noteq> None) (xs @ [u]) = ex @ ps @ [u]" using ex Some by simp
  let ?ops = "ops @ [TxnCheck CheckCAS k]"
  have ops': "?ops = map (\<lambda>u. TxnCheck CheckCAS (the (written nc u))) (ps @ [u])" using ops Some by simp
  show ?thesis
  proof (cases "64 \<le> Suc (length ops)")
    case True
    have "distinct (map update_at (filter (\<lambda>u. written nc u \<noteq> None) (xs @ [u])))"
      using assms(4) by (rule distinct_map_filter)
    then have d: "distinct (map update_at (ex @ ps @ [u]))" unfolding f .
    have all: "\<forall>v \<in> set (ps @ [u]). written nc v \<noteq> None"
      using arg_cong [OF f, of set] by (metis (mono_tags, lifting) Un_iff mem_Collect_eq set_append set_filter)
    obtain w' where e: "executeBatchTransaction cl ord ?ops (ps @ [u]) (c, w) = Inr (c, w')"
      and w': "srv w' = writes (update_map (ex @ ps @ [u])) (srv w0)"
      and ix': "\<forall>x. x \<notin> update_at ` set (ex @ ps @ [u]) \<longrightarrow> idx w' x = idx w0 x"
      using execute_written [OF assms(1,2) w ix d all _ _ ops', of ord c] len by auto
    have "buildOne cl ord nc u (ops, ps, c, w) = Inr ([], [], c, w')" using Some True e by (simp add: buildOne_written)
    moreover have "building srv idx nc w0 (xs @ [u]) [] [] w'"
      unfolding building_def f by (intro exI [of _ "ex @ ps @ [u]"] conjI w' ix') simp_all
    ultimately show ?thesis by blast
  next
    case False
    then have "buildOne cl ord nc u (ops, ps, c, w) = Inr (?ops, ps @ [u], c, w)" using Some by (simp add: buildOne_written)
    moreover have "building srv idx nc w0 (xs @ [u]) (ps @ [u]) ?ops w"
      unfolding building_def f by (intro exI [of _ ex] conjI w ix ops') (use False ops in simp_all)
    ultimately show ?thesis by blast
  qed
qed

lemma foldR_building:
  assumes "commits_checks cl srv idx" and "knows (srv w0) (idx w0) nc"
    and "building srv idx nc w0 xs ps ops w" and "distinct (map update_at (xs @ us))"
  shows "\<exists>ps' ops' w'. foldR (buildOne cl ord nc) us (ops, ps, c, w) = Inr (ops', ps', c, w') \<and> building srv idx nc w0 (xs @ us) ps' ops' w'"
  using assms(3,4)
proof (induction us arbitrary: xs ps ops w)
  case (Cons u us)
  have "distinct (map update_at (xs @ [u]))" using Cons.prems(2) by simp
  from buildOne_building [OF assms(1,2) Cons.prems(1) this, of ord c] obtain ps1 ops1 w1
    where b: "buildOne cl ord nc u (ops, ps, c, w) = Inr (ops1, ps1, c, w1)" and i: "building srv idx nc w0 (xs @ [u]) ps1 ops1 w1" by blast
  from Cons.IH [OF i] Cons.prems(2) b show ?case by simp
qed auto

text \<open>Processing a batch of updates of different checks writes all of them that the catalog still lists, and does
  not touch the runner.\<close>

lemma processBatched_works:
  assumes "lists_checks cl srv idx" and "commits_checks cl srv idx" and "distinct (map update_at us)"
  shows "\<exists>w'. processBatchedUpdates cl ord us (c, w) = Inr (c, w') \<and> srv w' = writes (update_map us) (srv w)"
proof (cases "us = []")
  case True
  then show ?thesis by (simp add: processBatchedUpdates_def update_map_def)
next
  case False
  have "knows (srv w) (idx w) []" by (simp add: knows_def)
  from fetch_knows [OF assms(1) this, of us] obtain nc w1 where f: "fold (fetchOne cl) us ([], [], w) = (nc, [], w1)"
    and w1: "srv w1 = srv w" "idx w1 = idx w" and k: "knows (srv w1) (idx w1) nc" and d: "nodeKey ` set us \<subseteq> dom (gm_load nc)" by auto
  have r: "foldR (revertFailed []) us c = Inr c" by (induction us) (simp_all add: revertFailed_def gm_mem_def)
  have "building srv idx nc w1 [] [] [] w1" by (simp add: building_def update_map_def)
  from foldR_building [OF assms(2) k this, of us ord c] assms(3) obtain ps ops w2
    where b: "foldR (buildOne cl ord nc) us ([], [], c, w1) = Inr (ops, ps, c, w2)" and i: "building srv idx nc w1 us ps ops w2" by auto
  from i obtain ex where ex: "filter (\<lambda>u. written nc u \<noteq> None) us = ex @ ps"
    and ops: "ops = map (\<lambda>u. TxnCheck CheckCAS (the (written nc u))) ps" and len: "length ps < 64"
    and w2: "srv w2 = writes (update_map ex) (srv w1)" and ix: "\<forall>x. x \<notin> update_at ` set ex \<longrightarrow> idx w2 x = idx w1 x"
    unfolding building_def by blast
  have "distinct (map update_at (ex @ ps))" unfolding ex [symmetric] using assms(3) by (rule distinct_map_filter)
  moreover have all: "\<forall>v \<in> set ps. written nc v \<noteq> None"
    using arg_cong [OF ex, of set] by (metis (mono_tags, lifting) Un_iff mem_Collect_eq set_append set_filter)
  ultimately have x: "ps \<noteq> [] \<Longrightarrow> \<exists>w'. executeBatchTransaction cl ord ops ps (c, w2) = Inr (c, w') \<and>
      srv w' = writes (update_map (ex @ ps)) (srv w1)"
    using execute_written [OF assms(2) k w2 ix _ all _ _ ops, of ord c] len by auto
  have "\<exists>w'. processBatchedUpdates cl ord us (c, w) = Inr (c, w') \<and> srv w' = writes (update_map (ex @ ps)) (srv w1)"
  proof (cases "ps = []")
    case True
    then show ?thesis using False f r b ops w2 by (simp add: processBatchedUpdates_def)
  next
    case ne: False
    from x [OF ne] False ne f r b ops show ?thesis by (auto simp: processBatchedUpdates_def)
  qed
  moreover have "writes (update_map (ex @ ps)) (srv w1) = writes (update_map us) (srv w)"
    unfolding ex [symmetric] w1(1) [symmetric]
  proof (rule writes_cong)
    fix x assume x: "srv w1 x \<noteq> None"
    have "written nc u \<noteq> None" if "u \<in> set us" "update_at u = x" for u
      using written_unknown [OF k, of u] d that x by blast
    then show "update_map (filter (\<lambda>u. written nc u \<noteq> None) us) x = update_map us x"
      unfolding update_map_def by (induction us) auto
  qed
  ultimately show ?thesis by simp
qed

subsection \<open>A single update\<close>

text \<open>Without a batcher one check is written at once; the runner takes the new state over when the catalog lists the
  check.\<close>

lemma immediate_works:
  assumes "lists_checks cl srv idx" and "commits_checks cl srv idx"
  shows "\<exists>w2. handleCheckUpdateImmediate cl a s t (d, w) =
      (if srv w (target (esm_check (heap d a))) = None then d else modify_esm a (set_state s t) d, w2) \<and>
    srv w2 = writes [target (esm_check (heap d a)) \<mapsto> (s, t)] (srv w)"
proof -
  let ?k = "esm_check (heap d a)"
  obtain cs w1 where n: "Health_Node cl (hc_Node ?k) (node_opts ?k) w = (Inr cs, w1)" "srv w1 = srv w" "idx w1 = idx w"
    "\<forall>x \<in> set cs. hc_Node x = hc_Node ?k \<and> srv w (check_at x) = Some (check_state x) \<and> hc_ModifyIndex x = idx w (check_at x)"
    "\<forall>i. srv w (hc_Node ?k, i) \<noteq> None \<longrightarrow> i \<in> hc_CheckID ` set cs"
    using assms(1) unfolding lists_checks_def by metis
  show ?thesis
  proof (cases "find (\<lambda>x. hc_CheckID x = catalog_id ?k) cs")
    case None
    then have "catalog_id ?k \<notin> hc_CheckID ` set cs" by (auto simp: find_None_iff)
    then have miss: "srv w (target ?k) = None" using n(5) unfolding target_def by blast
    then have "writes [target ?k \<mapsto> (s, t)] (srv w) = srv w" by (auto simp: writes_def fun_eq_iff split: option.splits)
    with None n(1,2) miss show ?thesis by (simp add: handleCheckUpdateImmediate_def Let_def)
  next
    case (Some x)
    then have x: "x \<in> set cs" "hc_CheckID x = catalog_id ?k" by (auto simp: find_Some_iff)
    with n(4) have at: "check_at x = target ?k" by (simp add: check_at_def target_def)
    let ?x = "x\<lparr>hc_Status := s, hc_Output := t\<rparr>"
    have "\<forall>y \<in> set [?x]. srv w1 (check_at y) \<noteq> None \<and> hc_ModifyIndex y = idx w1 (check_at y)" using n(2-4) x(1) by auto
    then obtain w2 where t: "Txn_Txn cl (map (TxnCheck CheckCAS) [?x]) None w1 = (Inr (True, []), w2)"
      and s: "srv w2 = writes (map_of (map (\<lambda>k. (check_at k, check_state k)) [?x])) (srv w1)"
      by (rule commits_checksD [OF assms(2), rotated 3, where q = None]) simp_all
    have "srv w (target ?k) \<noteq> None" using n(4) x(1) at by fastforce
    moreover have "srv w2 = writes [target ?k \<mapsto> (s, t)] (srv w)" using s n(2) at by (simp add: check_state_def)
    ultimately show ?thesis using Some n(1) t by (intro exI [of _ w2]) (auto simp: handleCheckUpdateImmediate_def Let_def cas_op_def)
  qed
qed

end
