(* ===== verification/Catalog_Follows.thy ===== *)
theory Catalog_Follows
  imports Batch_Writes
begin

text \<open>
  How the catalog follows the check runner when Consul answers. The step
  relation \<open>calm_step\<close> has every operation of the runner, and changes that others make to the catalog, as long as they
  do not write a check that the runner watches. In every reachable state each watched check has, in the catalog or in the update
  that waits in the batch, the state that the runner holds.
\<close>

subsection \<open>The runner and the catalog\<close>

text \<open>The key of a check in the batch. What the watched checks \<open>W\<close>, the pending updates \<open>P\<close> and the catalog \<open>m\<close> have to do with each
  other: every watched check has its state in its pending update, or, without one, in the catalog, if the catalog lists
  it at all; every pending update is one of a watched check.\<close>

definition check_key :: "HealthCheck \<Rightarrow> string" where
  "check_key k = makeCheckKey (hc_Node k) (hc_CheckID k)"

definition separate :: "HealthCheck set \<Rightarrow> bool" where
  "separate W \<longleftrightarrow> inj_on check_key W \<and> inj_on target W"

definition follows :: "HealthCheck set \<Rightarrow> (string \<rightharpoonup> pendingCheckUpdate) \<Rightarrow> (string \<times> string \<rightharpoonup> string \<times> string) \<Rightarrow> bool" where
  "follows W P m \<longleftrightarrow> (\<forall>k \<in> W. case P (check_key k) of
      None \<Rightarrow> m (target k) \<in> {None, Some (check_state k)}
    | Some u \<Rightarrow> update_at u = target k \<and> (pu_status u, pu_output u) = check_state k)"

definition owned :: "HealthCheck set \<Rightarrow> (string \<rightharpoonup> pendingCheckUpdate) \<Rightarrow> bool" where
  "owned W P \<longleftrightarrow> dom P \<subseteq> check_key ` W"

lemma follows_others:
  "follows W P m \<Longrightarrow> \<forall>k \<in> W. m' (target k) \<in> {None, m (target k)} \<Longrightarrow> follows W P m'"
  unfolding follows_def
proof
  fix k assume f: "\<forall>k \<in> W. case P (check_key k) of None \<Rightarrow> m (target k) \<in> {None, Some (check_state k)}
      | Some u \<Rightarrow> update_at u = target k \<and> (pu_status u, pu_output u) = check_state k"
    and o: "\<forall>k \<in> W. m' (target k) \<in> {None, m (target k)}" and k: "k \<in> W"
  from f [rule_format, OF k] o [rule_format, OF k] show "case P (check_key k) of
      None \<Rightarrow> m' (target k) \<in> {None, Some (check_state k)}
    | Some u \<Rightarrow> update_at u = target k \<and> (pu_status u, pu_output u) = check_state k" by (cases "P (check_key k)") auto
qed

text \<open>A check gets a new state and an update in the batch.\<close>

lemma follows_store:
  assumes "follows W P m" and "separate W" and "k \<in> W" and "check_key k' = check_key k" and "target k' = target k"
    and "update_at u = target k" and "(pu_status u, pu_output u) = check_state k'"
  shows "follows (insert k' (W - {k})) (P(check_key k \<mapsto> u)) m"
proof -
  have "check_key x \<noteq> check_key k" if "x \<in> W - {k}" for x using assms(2,3) that by (auto simp: separate_def inj_on_def)
  with assms show ?thesis unfolding follows_def by auto
qed

lemma separate_update:
  assumes "separate W" and "k \<in> W" and "check_key k' = check_key k" and "target k' = target k"
  shows "separate (insert k' (W - {k}))"
  using assms unfolding separate_def by (auto simp: inj_on_def)

lemma owned_update: "owned W P \<Longrightarrow> k \<in> W \<Longrightarrow> check_key k' = check_key k \<Longrightarrow> owned (insert k' (W - {k})) P"
  unfolding owned_def by auto

text \<open>The batch is written.\<close>

lemma update_map_at:
  assumes "distinct (map update_at us)" and "u \<in> set us"
  shows "update_map us (update_at u) = Some (pu_status u, pu_output u)"
  using assms unfolding update_map_def by (induction us) (auto simp: map_of_eq_None_iff image_iff)

lemma follows_drain:
  assumes "follows W P m" and "separate W" and "owned W P" and "set us = ran P" and "distinct (map update_at us)"
  shows "follows W Map.empty (writes (update_map us) m)"
  unfolding follows_def
proof
  fix k assume k: "k \<in> W"
  show "case None of None \<Rightarrow> writes (update_map us) m (target k) \<in> {None, Some (check_state k)}
      | Some u \<Rightarrow> update_at u = target k \<and> (pu_status u, pu_output u) = check_state k"
  proof (cases "P (check_key k)")
    case (Some u)
    with assms(1) k have u: "update_at u = target k" "(pu_status u, pu_output u) = check_state k" by (auto simp: follows_def)
    have "u \<in> set us" using Some assms(4) by (auto simp: ran_def)
    from update_map_at [OF assms(5) this] u show ?thesis by (auto simp: writes_def split: option.splits)
  next
    case None
    have "update_at u \<noteq> target k" if us: "u \<in> set us" for u
    proof
      assume eq: "update_at u = target k"
      from us assms(4) obtain key where key: "P key = Some u" by (auto simp: ran_def)
      with assms(3) obtain k2 where k2: "k2 \<in> W" "check_key k2 = key" by (auto simp: owned_def)
      with key assms(1) have "target k2 = target k" using eq by (auto simp: follows_def)
      with k2(1) k assms(2) have "k2 = k" by (auto simp: separate_def inj_on_def)
      with key k2(2) None show False by simp
    qed
    then have "update_map us (target k) = None"
      using dom_update_map [of us] by (metis (no_types, lifting) domIff image_iff set_map)
    with assms(1) k None show ?thesis by (auto simp: follows_def writes_def split: option.splits)
  qed
qed

lemma targets_distinct:
  assumes "follows W P m" and "separate W" and "owned W P" and "P = gm_load pu" and "gm_ok pu" and "visits ord"
  shows "distinct (map update_at (map snd (ord pu)))" and "set (map snd (ord pu)) = ran P"
proof -
  have P: "P key = Some u \<longleftrightarrow> (key, u) \<in> set (ord pu)" for key u
    using gm_load_mem_iff [OF assms(5)] set_visits [OF assms(6), of pu] assms(4) by simp
  then show "set (map snd (ord pu)) = ran P" by (force simp: ran_def)
  have "inj_on (update_at \<circ> snd) (set (ord pu))"
  proof (rule inj_onI)
    fix x y assume x: "x \<in> set (ord pu)" and y: "y \<in> set (ord pu)" and eq: "(update_at \<circ> snd) x = (update_at \<circ> snd) y"
    from x y have px: "P (fst x) = Some (snd x)" "P (fst y) = Some (snd y)" by (simp_all add: P)
    then have "fst x \<in> check_key ` W" "fst y \<in> check_key ` W" using assms(3) by (auto simp: owned_def)
    then obtain kx ky where k: "kx \<in> W" "check_key kx = fst x" "ky \<in> W" "check_key ky = fst y" by auto
    have "update_at (snd x) = target kx" "update_at (snd y) = target ky"
      using assms(1) k px unfolding follows_def by fastforce+
    with eq k(1,3) assms(2) have "kx = ky" by (auto simp: separate_def inj_on_def)
    with k have f: "fst x = fst y" by simp
    with px have "snd x = snd y" by simp
    with f show "x = y" by (rule prod_eqI)
  qed
  moreover have "distinct (ord pu)" using distinct_visits [OF assms(6,5)] by (simp add: distinct_map)
  ultimately show "distinct (map update_at (map snd (ord pu)))" by (simp add: distinct_map)
qed

text \<open>One check is written at once, or is not listed.\<close>

lemma follows_write:
  assumes "follows W Map.empty m" and "separate W" and "k \<in> W" and "target k' = target k"
    and "m' = writes [target k \<mapsto> check_state k'] m"
  shows "follows (insert k' (W - {k})) Map.empty m'"
proof -
  have "target x \<noteq> target k" if "x \<in> W - {k}" for x using assms(2,3) that by (auto simp: separate_def inj_on_def)
  with assms(1,4,5) show ?thesis unfolding follows_def writes_def by (auto split: option.splits)
qed

definition wset :: "CheckRunner \<Rightarrow> HealthCheck set" where
  "wset c = (\<lambda>a. esm_check (heap c a)) ` ran (gm_load (checks c))"

definition pend_of :: "CheckRunner \<Rightarrow> string \<rightharpoonup> pendingCheckUpdate" where
  "pend_of c = (case batcher c of None \<Rightarrow> Map.empty | Some b \<Rightarrow> gm_load (pendingUpdates b))"

definition in_step :: "CheckRunner \<Rightarrow> (string \<times> string \<rightharpoonup> string \<times> string) \<Rightarrow> bool" where
  "in_step c m \<longleftrightarrow> separate (wset c) \<and> owned (wset c) (pend_of c) \<and> follows (wset c) (pend_of c) m"

lemma wset_cong: "checks c' = checks c \<Longrightarrow> (\<And>x. esm_check (heap c' x) = esm_check (heap c x)) \<Longrightarrow> wset c' = wset c"
  by (simp add: wset_def)

lemma in_step_cong:
  "checks c' = checks c \<Longrightarrow> (\<And>x. esm_check (heap c' x) = esm_check (heap c x)) \<Longrightarrow> batcher c' = batcher c \<Longrightarrow>
   in_step c' m = in_step c m"
  using wset_cong [of c' c] by (simp add: in_step_def pend_of_def)

lemma wset_set:
  assumes "checks_inv c" and "gm_load (checks c) h = Some a" and "checks c' = checks c"
    and "\<And>x. esm_check (heap c' x) = (if x = a then k' else esm_check (heap c x))"
  shows "wset c' = insert k' (wset c - {esm_check (heap c a)})"
proof -
  have ne: "esm_check (heap c x) \<noteq> esm_check (heap c a)" if x: "x \<in> ran (gm_load (checks c))" "x \<noteq> a" for x
  proof
    assume eq: "esm_check (heap c x) = esm_check (heap c a)"
    from x(1) obtain h' where h': "gm_load (checks c) h' = Some x" by (auto simp: ran_def)
    from assms(1) h' assms(2) have "hashCheck (esm_check (heap c x)) = h'" "hashCheck (esm_check (heap c a)) = h"
      unfolding checks_inv_def by blast+
    with eq h' assms(2) x(2) show False by simp
  qed
  have a: "a \<in> ran (gm_load (checks c))" using assms(2) by (auto simp: ran_def)
  show ?thesis unfolding wset_def assms(3,4) using ne a by auto
qed

abbreviation with_state :: "string \<Rightarrow> string \<Rightarrow> HealthCheck \<Rightarrow> HealthCheck" where
  "with_state s t k \<equiv> k\<lparr>hc_Status := s, hc_Output := t\<rparr>"

lemma with_state_simps [simp]:
  "check_key (with_state s t k) = check_key k" "target (with_state s t k) = target k"
  "check_state (with_state s t k) = (s, t)" "node_opts (with_state s t k) = node_opts k"
  "catalog_id (with_state s t k) = catalog_id k"
  by (simp_all add: check_key_def target_def check_state_def node_opts_def catalog_id_def)

text \<open>A change that is accepted: \<open>d\<close> is the runner when it hands the change on; in agentless mode the check has its new
  state already.\<close>

definition accepted :: "CheckRunner \<Rightarrow> nat \<Rightarrow> string \<Rightarrow> string \<Rightarrow> CheckRunner \<Rightarrow> bool" where
  "accepted c a s t d \<longleftrightarrow> checks d = checks c \<and> batcher d = batcher c \<and> isAgentless d = isAgentless c \<and>
     (\<forall>x. esm_check (heap d x) =
       (if x = a \<and> isAgentless c then with_state s t (esm_check (heap c a)) else esm_check (heap c x)))"

lemma with_state_again: "with_state s t (with_state s t k) = with_state s t k"
  by simp

lemma accepted_wset:
  assumes "accepted c a s t d" and "checks_inv c" and "gm_load (checks c) h = Some a"
  shows "isAgentless c \<Longrightarrow> wset d = insert (with_state s t (esm_check (heap c a))) (wset c - {esm_check (heap c a)})"
    and "\<not> isAgentless c \<Longrightarrow> wset d = wset c"
    and "wset (modify_esm a (set_state s t) d) = insert (with_state s t (esm_check (heap c a))) (wset c - {esm_check (heap c a)})"
proof -
  let ?k = "esm_check (heap c a)"
  have d: "checks d = checks c" "\<And>x. esm_check (heap d x) = (if x = a \<and> isAgentless c then with_state s t ?k else esm_check (heap c x))"
    using assms(1) unfolding accepted_def by blast+
  show "isAgentless c \<Longrightarrow> wset d = insert (with_state s t ?k) (wset c - {?k})"
    by (rule wset_set [OF assms(2,3) d(1)]) (simp add: d(2))
  show "\<not> isAgentless c \<Longrightarrow> wset d = wset c" by (rule wset_cong [OF d(1)]) (simp add: d(2))
  show "wset (modify_esm a (set_state s t) d) = insert (with_state s t ?k) (wset c - {?k})"
    by (rule wset_set [OF assms(2,3)]) (simp_all add: d set_state_def)
qed

text \<open>A change that was handed on: the same checks are watched, nothing was added to or removed from the catalog \<open>m\<close>, and the
  check has its new state unless the catalog does not list it.\<close>

definition took :: "CheckRunner \<Rightarrow> nat \<Rightarrow> string \<Rightarrow> string \<Rightarrow> (string \<times> string \<rightharpoonup> string \<times> string) \<Rightarrow> CheckRunner \<Rightarrow>
    (string \<times> string \<rightharpoonup> string \<times> string) \<Rightarrow> bool" where
  "took c a s t m c2 m2 \<longleftrightarrow> checks c2 = checks c \<and> dom m2 = dom m \<and>
     (m (target (esm_check (heap c a))) \<noteq> None \<longrightarrow> esm_check (heap c2 a) = with_state s t (esm_check (heap c a)))"

lemma dom_writes [simp]: "dom (writes u m) = dom m"
  by (auto simp: writes_def split: option.splits)

lemma handle_immediate:
  assumes "lists_checks cl srv idx" and "commits_checks cl srv idx" and "in_step c (srv w)" and "checks_inv c"
    and "gm_load (checks c) h = Some a" and "accepted c a s t d" and "batcher c = None"
  shows "\<exists>c2 w2. handleCheckUpdateImmediate cl a s t (d, w) = (c2, w2) \<and> in_step c2 (srv w2) \<and> took c a s t (srv w) c2 (srv w2)"
proof -
  let ?k = "esm_check (heap c a)"
  have k: "?k \<in> wset c" using assms(5) by (auto simp: wset_def ran_def)
  have core: "separate (wset c)" "follows (wset c) Map.empty (srv w)" using assms(3,7) by (simp_all add: in_step_def pend_of_def)
  have kd: "target (esm_check (heap d a)) = target ?k" using assms(6) by (simp add: accepted_def)
  have bd: "batcher d = None" using assms(6,7) by (simp add: accepted_def)
  let ?W = "insert (with_state s t ?k) (wset c - {?k})"
  have new: "in_step e m'" if "wset e = ?W" "batcher e = None" "m' = writes [target ?k \<mapsto> (s, t)] (srv w)" for e m'
    using follows_write [OF core(2,1) k, of "with_state s t ?k" m'] separate_update [OF core(1) k, of "with_state s t ?k"] that
    by (simp add: in_step_def pend_of_def owned_def)
  obtain w2 where im: "handleCheckUpdateImmediate cl a s t (d, w) =
      (if srv w (target ?k) = None then d else modify_esm a (set_state s t) d, w2)"
    and w2: "srv w2 = writes [target ?k \<mapsto> (s, t)] (srv w)"
    using immediate_works [OF assms(1,2), of a s t d w] unfolding kd by (elim exE conjE)
  show ?thesis
  proof (cases "srv w (target ?k) = None \<and> \<not> isAgentless c")
    case True
    then have "srv w2 = srv w" unfolding w2 by (auto simp: writes_def fun_eq_iff split: option.splits)
    then have "in_step d (srv w2)" using accepted_wset(2) [OF assms(6,4,5)] True bd assms(3,7)
      by (simp add: in_step_def pend_of_def)
    with im True w2 assms(6) show ?thesis by (auto simp: took_def accepted_def)
  next
    case False
    let ?e = "if srv w (target ?k) = None then d else modify_esm a (set_state s t) d"
    have "wset ?e = ?W"
    proof (cases "srv w (target ?k) = None")
      case True
      with False have "isAgentless c" by simp
      with accepted_wset(1) [OF assms(6,4,5)] True show ?thesis by simp
    qed (auto simp: accepted_wset(3) [OF assms(6,4,5)])
    moreover have "batcher ?e = None" using bd by simp
    ultimately have "in_step ?e (srv w2)" using w2 by (rule new)
    moreover have "took c a s t (srv w) ?e (srv w2)"
      using assms(6) w2 by (auto simp: took_def accepted_def set_state_def)
    ultimately show ?thesis using im by (intro exI conjI)
  qed
qed

text \<open>Draining the batch and processing it.\<close>

lemma drained_in_step:
  assumes "lists_checks cl srv idx" and "commits_checks cl srv idx" and "in_step c (srv w)"
    and "pend_of c = gm_load pu" and "gm_ok pu" and "visits ord" and "pendingUpdates b' = []"
  shows "\<exists>w'. processUpdates (Some (processBatchedUpdates cl ord')) (map snd (ord pu)) (d, w) = Inr (d, w') \<and>
    in_step (c\<lparr>batcher := Some b'\<rparr>) (srv w') \<and> dom (srv w') = dom (srv w)"
proof -
  have core: "separate (wset c)" "owned (wset c) (pend_of c)" "follows (wset c) (pend_of c) (srv w)"
    using assms(3) by (simp_all add: in_step_def)
  note t = targets_distinct [OF core(3,1,2) assms(4-6)]
  obtain w' where p: "processBatchedUpdates cl ord' (map snd (ord pu)) (d, w) = Inr (d, w')"
    and w': "srv w' = writes (update_map (map snd (ord pu))) (srv w)"
    using processBatched_works [OF assms(1,2) t(1), of ord' d w] by blast
  have e: "wset (c\<lparr>batcher := Some b'\<rparr>) = wset c" "pend_of (c\<lparr>batcher := Some b'\<rparr>) = Map.empty"
    using assms(7) by (auto simp: wset_def pend_of_def)
  have i: "in_step (c\<lparr>batcher := Some b'\<rparr>) (srv w')"
    unfolding in_step_def e w' using follows_drain [OF core(3,1,2) t(2,1)] core(1) by (simp add: owned_def)
  show ?thesis
  proof (cases "pu = []")
    case True
    then have "ord pu = []" using length_visits [OF assms(6), of pu] by simp
    with w' i show ?thesis by (intro exI [of _ w]) (simp add: processUpdates_def update_map_def)
  next
    case False
    then have "ord pu \<noteq> []" using length_visits [OF assms(6), of pu] by auto
    with p i w' show ?thesis by (simp add: processUpdates_def)
  qed
qed

lemma handle_batched:
  assumes "lists_checks (env_client e) srv idx" and "commits_checks (env_client e) srv idx" and "in_step c (srv w)"
    and "checks_inv c" and "gm_load (checks c) h = Some a" and "accepted c a s t d" and "batcher c = Some b"
    and "isAgentless c" and "batcher_inv b" and "visits (env_updates e)"
  shows "\<exists>c2 w2. handleCheckUpdate e a s t os ot (d, w) = Inr (c2, w2) \<and> in_step c2 (srv w2) \<and> batcher c2 \<noteq> None \<and>
    took c a s t (srv w) c2 (srv w2)"
proof -
  let ?k = "esm_check (heap c a)"
  let ?u = "\<lparr>pu_check = with_state s t ?k, pu_status = s, pu_output = t, pu_oldStatus = os, pu_oldOutput = ot\<rparr>"
  let ?pu = "gm_store (update_key ?u) ?u (pendingUpdates b)"
  have k: "?k \<in> wset c" using assms(5) by (auto simp: wset_def ran_def)
  have key: "update_key ?u = check_key ?k" by (simp add: update_key_def check_key_def)
  have at: "update_at ?u = target ?k" by (simp add: update_at_def)
  have core: "separate (wset c)" "owned (wset c) (pend_of c)" "follows (wset c) (pend_of c) (srv w)"
    using assms(3) by (simp_all add: in_step_def)
  have p: "pend_of c = gm_load (pendingUpdates b)" by (simp add: pend_of_def assms(7))
  have d: "batcher d = Some b" "esm_check (heap d a) = with_state s t ?k" using assms(6-8) by (simp_all add: accepted_def)
  note wd = accepted_wset(1) [OF assms(6,4,5,8)]
  have tk: "took c a s t (srv w) (d\<lparr>batcher := b2\<rparr>) m2" if "dom m2 = dom (srv w)" for b2 m2
    using that assms(6) d(2) by (simp add: took_def accepted_def)
  define q where "q = d\<lparr>batcher := Some (b\<lparr>pendingUpdates := ?pu\<rparr>)\<rparr>"
  have q: "wset q = wset d" "pend_of q = (pend_of c)(check_key ?k \<mapsto> ?u)"
    by (simp_all add: q_def wset_def pend_of_def assms(7) gm_load_store_fun key)
  have "follows (wset q) (pend_of q) (srv w)" unfolding q wd
    by (rule follows_store [OF core(3,1) k]) (simp_all add: at)
  moreover have "separate (wset q)" unfolding q wd by (rule separate_update [OF core(1) k]) simp_all
  moreover have "owned (wset q) (pend_of q)"
    using owned_update [OF core(2) k, of "with_state s t ?k"] unfolding q wd owned_def by auto
  ultimately have iq: "in_step q (srv w)" by (simp add: in_step_def)
  show ?thesis
  proof (cases "int (length ?pu) < maxBatchSize b")
    case True
    from Add_locked_queued [OF True, of "env_updates e"] d
    have "handleCheckUpdate e a s t os ot (d, w) = Inr (d\<lparr>batcher := Some (b\<lparr>pendingUpdates := ?pu,
        flushTimer := (case flushTimer b of None \<Rightarrow> Some (flushInterval b) | Some t \<Rightarrow> Some t)\<rparr>)\<rparr>, w)" (is "_ = Inr (?c2, w)")
      by (simp add: handleCheckUpdate_def Add_def processUpdates_def processFunc_def)
    moreover have "in_step ?c2 (srv w)" using iq by (simp add: in_step_def wset_def pend_of_def q_def)
    ultimately show ?thesis using tk [OF refl, of "batcher ?c2"] by (intro exI conjI) simp_all
  next
    case False
    let ?b = "b\<lparr>flushTimer := None, pendingUpdates := []\<rparr>"
    have ad: "Add_locked (env_updates e) ?u b = (map snd (env_updates e ?pu), ?b)" by (rule Add_locked_full) (use False in simp)
    have ok: "gm_ok ?pu" using assms(9) by (simp add: batcher_inv_def)
    have pq: "pend_of q = gm_load ?pu" by (simp add: q_def pend_of_def)
    obtain w' where pr: "processUpdates (Some (processBatchedUpdates (env_client e) (env_failed e)))
        (map snd (env_updates e ?pu)) (d, w) = Inr (d, w')" and i: "in_step (q\<lparr>batcher := Some ?b\<rparr>) (srv w')"
      and dm: "dom (srv w') = dom (srv w)"
      using drained_in_step [OF assms(1,2) iq pq ok assms(10), of ?b "env_failed e" d] by auto
    have "handleCheckUpdate e a s t os ot (d, w) = Inr (d\<lparr>batcher := Some ?b\<rparr>, w')"
      using d ad pr by (simp add: handleCheckUpdate_def Add_def processFunc_def)
    moreover have "in_step (d\<lparr>batcher := Some ?b\<rparr>) (srv w')" using i by (simp add: q_def)
    ultimately show ?thesis using tk [OF dm, of "Some ?b"] by (intro exI conjI) simp_all
  qed
qed

text \<open>With no interval for deferring output, a result is ignored or counted, or accepted.\<close>

definition not_yet :: "CheckRunner \<Rightarrow> nat \<Rightarrow> string \<Rightarrow> string \<Rightarrow> bool" where
  "not_yet c a s t \<longleftrightarrow> check_state (esm_check (heap c a)) = (s, t) \<or> counter s (heap c a) < threshold s c"

lemma result_counted:
  assumes "gm_load (checks c) h = Some a" and "\<not> esm_mu (heap c a)" and "not_yet c a s t"
  shows "\<exists>c'. UpdateCheck e h s t (c, w) = Inr (c', w) \<and> checks c' = checks c \<and> batcher c' = batcher c \<and>
      deferCheck c' = deferCheck c \<and> (\<forall>x. esm_check (heap c' x) = esm_check (heap c x))"
  using assms(3) unfolding UpdateCheck_unfold [OF assms(1,2)] UpdateCheck_locked_def Let_def
  by (auto simp: mu_Unlock_def trackCritical_def not_yet_def check_state_def counter_def threshold_def split: if_splits)

lemma result_accepted:
  assumes "gm_load (checks c) h = Some a" and "\<not> esm_mu (heap c a)" and "CheckUpdateInterval c \<le> 0" and "\<not> not_yet c a s t"
  shows "\<exists>d os ot. accepted c a s t d \<and> deferCheck d = deferCheck c \<and> UpdateCheck e h s t (c, w) =
      bindR (handleCheckUpdate e a s t os ot (d, w)) (\<lambda>(c2, w2). Inr (mu_Unlock a c2, w2))"
proof -
  let ?m = "modify_esm a (\<lambda>k. k\<lparr>esm_mu := True\<rparr>) c"
  let ?r = "acceptResult h (env_now e) a s ?m"
  let ?d = "if isAgentless c then modify_esm a (set_state s t) ?r else ?r"
  have "accepted c a s t ?d" by (auto simp: accepted_def acceptResult_def set_state_def trackCritical_def)
  moreover have "UpdateCheck_locked e h a s t (?m, w) =
      handleCheckUpdate e a s t (hc_Status (esm_check (heap c a))) (hc_Output (esm_check (heap c a))) (?d, w)"
    using assms(3,4) by (auto simp: UpdateCheck_locked_def Let_def not_yet_def check_state_def counter_def threshold_def)
  ultimately show ?thesis unfolding UpdateCheck_unfold [OF assms(1,2)]
    by (intro exI [of _ ?d] exI conjI) (simp_all add: acceptResult_def)
qed

subsection \<open>Every operation keeps in step\<close>

text \<open>A catalog list that \<^verbatim>\<open>UpdateChecks\<close> is given in time: nothing waits in the batch, and the list has the checks as they
  are. Node names and check IDs do not run into each other.\<close>

definition current :: "HealthCheck list \<Rightarrow> (string \<times> string \<rightharpoonup> string \<times> string) \<Rightarrow> bool" where
  "current cs m \<longleftrightarrow> distinct_hashes cs \<and> separate {k \<in> set cs. runnable k} \<and>
     (\<forall>k \<in> set cs. single_protocol (hc_Definition k) \<and> m (target k) \<in> {None, Some (check_state k)})"

inductive calm_step :: "'w check_client \<Rightarrow> ('w, (string \<times> string) option) catalog_view \<Rightarrow>
    CheckRunner \<times> 'w \<Rightarrow> CheckRunner \<times> 'w \<Rightarrow> bool"
  for cl :: "'w check_client" and srv :: "('w, (string \<times> string) option) catalog_view" where
  calm_sync: "visits ord \<Longrightarrow> pend_of c = Map.empty \<Longrightarrow> current cs (srv w) \<Longrightarrow>
    calm_step cl srv (c, w) (fst (UpdateChecks ord cs c), w)"
| calm_result: "env_client e = cl \<Longrightarrow> visits (env_updates e) \<Longrightarrow> UpdateCheck e h s t st = Inr st' \<Longrightarrow> calm_step cl srv st st'"
| calm_defer: "env_client e = cl \<Longrightarrow> visits (env_updates e) \<Longrightarrow> deferFired e h st = Inr st' \<Longrightarrow> calm_step cl srv st st'"
| calm_flush: "env_client e = cl \<Longrightarrow> visits (env_updates e) \<Longrightarrow> flushFired e st = Inr st' \<Longrightarrow> calm_step cl srv st st'"
| calm_others: "\<forall>k \<in> wset c. srv w' (target k) \<in> {None, srv w (target k)} \<Longrightarrow> calm_step cl srv (c, w) (c, w')"

inductive calm_init :: "CheckRunner \<times> 'w \<Rightarrow> bool" where
  "ui \<le> 0 \<Longrightarrow> calm_init (NewCheckRunner ui mi tls pass crit ag bf, w)"

inductive_cases calm_initE: "calm_init st"
inductive_cases calm_stepE: "calm_step cl srv st st'"

definition calm :: "('w, (string \<times> string) option) catalog_view \<Rightarrow> CheckRunner \<times> 'w \<Rightarrow> bool" where
  "calm srv st \<longleftrightarrow> good st \<and> CheckUpdateInterval (fst st) \<le> 0 \<and> deferCheck (fst st) = [] \<and>
     (batcher (fst st) \<noteq> None \<longrightarrow> isAgentless (fst st)) \<and> in_step (fst st) (srv (snd st))"

lemma calm_facts:
  assumes "calm srv (c, w)"
  shows "good (c, w)" "CheckUpdateInterval c \<le> 0" "deferCheck c = []" "batcher c \<noteq> None \<Longrightarrow> isAgentless c"
    "in_step c (srv w)" "checks_inv c" "unlocked c" "\<And>b. batcher c = Some b \<Longrightarrow> batcher_inv b"
  using assms by (auto simp: calm_def good_def runner_inv_def batch_ok_def)

text \<open>Handling a result returns, and keeps in step.\<close>

lemma handle_calm:
  assumes "lists_checks (env_client e) srv idx" and "commits_checks (env_client e) srv idx" and "visits (env_updates e)"
    and "calm srv (c, w)" and "gm_load (checks c) h = Some a" and "accepted c a s t d"
  shows "\<exists>c2 w2. handleCheckUpdate e a s t os ot (d, w) = Inr (c2, w2) \<and> in_step c2 (srv w2) \<and>
    (batcher c2 = None \<longleftrightarrow> batcher c = None) \<and> took c a s t (srv w) c2 (srv w2)"
proof (cases "batcher c")
  case None
  note f = calm_facts [OF assms(4)]
  obtain c2 w2 where h: "handleCheckUpdateImmediate (env_client e) a s t (d, w) = (c2, w2)" "in_step c2 (srv w2)"
    "took c a s t (srv w) c2 (srv w2)" using handle_immediate [OF assms(1,2) f(5,6) assms(5,6) None] by (elim exE conjE)
  have d: "batcher d = None" using assms(6) None by (simp add: accepted_def)
  with h(1) have "batcher c2 = None"
    by (auto simp: handleCheckUpdateImmediate_def Let_def split: prod.splits sum.splits option.splits if_splits)
  with h d None show ?thesis by (simp add: handleCheckUpdate_def)
next
  case (Some b)
  note f = calm_facts [OF assms(4)]
  have "isAgentless c" using f(4) Some by simp
  from handle_batched [OF assms(1,2) f(5,6) assms(5,6) Some this f(8) [OF Some] assms(3), of os ot] Some
  show ?thesis by (elim exE conjE) (intro exI conjI, simp_all)
qed

text \<open>The rest of what it takes to stay calm after a result.\<close>

lemma calm_after:
  assumes "calm srv (c, w)" and "UpdateCheck e h s t (c, w) = Inr (c', w')" and "visits (env_updates e)" and "in_step c' (srv w')"
    and "batcher c' = None \<longleftrightarrow> batcher c = None" and "deferCheck c' = deferCheck c"
  shows "calm srv (c', w')"
proof -
  note f = calm_facts [OF assms(1)]
  have "frame c c'" using UpdateCheck_touched [OF assms(2)] by (simp add: touched_def)
  with assms f good_result [OF f(1) assms(2)] show ?thesis by (auto simp: calm_def frame_def)
qed

lemma calm_accepted:
  assumes "lists_checks (env_client e) srv idx" and "commits_checks (env_client e) srv idx" and "visits (env_updates e)"
    and "calm srv (c, w)" and "gm_load (checks c) h = Some a" and "\<not> not_yet c a s t"
  shows "\<exists>c' w'. UpdateCheck e h s t (c, w) = Inr (c', w') \<and> calm srv (c', w') \<and> took c a s t (srv w) c' (srv w')"
proof -
  note f = calm_facts [OF assms(4)]
  have free: "\<not> esm_mu (heap c a)" using f(7) by (simp add: unlocked_def)
  obtain d os ot where d: "accepted c a s t d" "deferCheck d = deferCheck c" and u: "UpdateCheck e h s t (c, w) =
      bindR (handleCheckUpdate e a s t os ot (d, w)) (\<lambda>(c2, w2). Inr (mu_Unlock a c2, w2))"
    using result_accepted [OF assms(5) free f(2) assms(6), of e w] by (elim exE conjE)
  obtain c2 w2 where h: "handleCheckUpdate e a s t os ot (d, w) = Inr (c2, w2)" "in_step c2 (srv w2)"
    "batcher c2 = None \<longleftrightarrow> batcher c = None" "took c a s t (srv w) c2 (srv w2)"
    using handle_calm [OF assms(1-5) d(1), of os ot] by (elim exE conjE)
  from u h(1) have r: "UpdateCheck e h s t (c, w) = Inr (mu_Unlock a c2, w2)" by simp
  have i: "in_step (mu_Unlock a c2) (srv w2)" using h(2) in_step_cong [of "mu_Unlock a c2" c2] by (simp add: mu_Unlock_def)
  have t: "took c a s t (srv w) (mu_Unlock a c2) (srv w2)" using h(4) by (simp add: took_def mu_Unlock_def)
  have "calm srv (mu_Unlock a c2, w2)"
    by (rule calm_after [OF assms(4) r assms(3) i]) (use h(3) d(2) handle_frame [OF h(1)] in \<open>simp_all add: mu_Unlock_def\<close>)
  with r t show ?thesis by (intro exI conjI)
qed

lemma calm_result_returns:
  assumes "lists_checks (env_client e) srv idx" and "commits_checks (env_client e) srv idx" and "visits (env_updates e)"
    and "calm srv (c, w)"
  shows "\<exists>c' w'. UpdateCheck e h s t (c, w) = Inr (c', w') \<and> calm srv (c', w')"
proof (cases "gm_load (checks c) h")
  case None
  then show ?thesis using assms(4) by (simp add: UpdateCheck_def)
next
  case (Some a)
  note f = calm_facts [OF assms(4)]
  have free: "\<not> esm_mu (heap c a)" using f(7) by (simp add: unlocked_def)
  show ?thesis
  proof (cases "not_yet c a s t")
    case True
    from result_counted [OF Some free True, of e w] obtain c' where u: "UpdateCheck e h s t (c, w) = Inr (c', w)"
      and c': "checks c' = checks c" "batcher c' = batcher c" "deferCheck c' = deferCheck c"
        "\<And>x. esm_check (heap c' x) = esm_check (heap c x)" by blast
    have "in_step c' (srv w)" using f(5) in_step_cong [OF c'(1,4,2)] by simp
    from calm_after [OF assms(4) u assms(3) this] c' u show ?thesis by simp
  qed (use calm_accepted [OF assms Some] in blast)
qed

lemma calm_flush_returns:
  assumes "lists_checks (env_client e) srv idx" and "commits_checks (env_client e) srv idx" and "visits (env_updates e)"
    and "calm srv (c, w)"
  shows "\<exists>c' w'. flushFired e (c, w) = Inr (c', w') \<and> calm srv (c', w') \<and> pend_of c' = Map.empty \<and> wset c' = wset c \<and>
    checks c' = checks c \<and> heap c' = heap c \<and> dom (srv w') = dom (srv w)"
proof (cases "batcher c")
  case None
  with assms(4) show ?thesis by (simp add: flushFired_def pend_of_def)
next
  case (Some b)
  note f = calm_facts [OF assms(4)]
  let ?b = "b\<lparr>flushTimer := None, pendingUpdates := []\<rparr>"
  have p: "pend_of c = gm_load (pendingUpdates b)" "gm_ok (pendingUpdates b)"
    using Some f(8) [OF Some] by (simp_all add: pend_of_def batcher_inv_def)
  obtain w' where pr: "processUpdates (processFunc e) (map snd (env_updates e (pendingUpdates b))) (c, w) = Inr (c, w')"
    and i: "in_step (c\<lparr>batcher := Some ?b\<rparr>) (srv w')" and dm: "dom (srv w') = dom (srv w)"
    using drained_in_step [OF assms(1,2) f(5) p assms(3), of ?b "env_failed e" c] by (auto simp: processFunc_def)
  have dr: "drainLocked (env_updates e) b = (map snd (env_updates e (pendingUpdates b)), ?b)"
    using length_visits [OF assms(3), of "pendingUpdates b"] by (cases "pendingUpdates b") (simp_all add: drainLocked_simp)
  have fl: "flushFired e (c, w) = Inr (c\<lparr>batcher := Some ?b\<rparr>, w')"
    using Some dr pr by (simp add: flushFired_def Flush_def)
  have "calm srv (c\<lparr>batcher := Some ?b\<rparr>, w')" using good_flush [OF f(1) fl] f(2,3,4) Some i by (simp add: calm_def)
  with fl dm show ?thesis by (simp add: pend_of_def wset_def gm_load_map_of)
qed

text \<open>\<^verbatim>\<open>UpdateChecks\<close> keeps the settings, the deferred updates and the batch.\<close>

definition settings :: "CheckRunner \<Rightarrow> CheckUpdateBatcher option \<times> (string, deferTimer) go_map \<times> int \<times> bool" where
  "settings c = (batcher c, deferCheck c, CheckUpdateInterval c, isAgentless c)"

lemma updateOne_settings: "updateOne k (c, f, u, x) = (c', f', u', x') \<Longrightarrow> settings c' = settings c"
  unfolding updateOne_def updateCheckHTTP_def updateCheckTCP_def updateCheckGRPC_def stopExistingChecks_def Let_def
  by (auto simp: settings_def storeCheck_def Let_def startHTTP_def startTCP_def startGRPC_def stop_checker_def
      split: if_splits option.splits prod.splits bool.splits)

lemma fold_updateOne_settings: "fold updateOne cs (c, f, u, x) = (c', f', u', x') \<Longrightarrow> settings c' = settings c"
proof (induction cs arbitrary: c f u x)
  case (Cons k cs)
  obtain c1 f1 u1 x1 where 1: "updateOne k (c, f, u, x) = (c1, f1, u1, x1)" using prod_cases4 by blast
  with Cons.IH [of c1 f1 u1 x1] Cons.prems updateOne_settings [OF 1] show ?case by simp
qed simp

lemma removeOne_settings: "removeOne f kv (c, r) = (c', r') \<Longrightarrow> settings c' = settings c"
  by (auto simp: removeOne_def settings_def Let_def stop_checker_def split: option.splits if_splits)

lemma fold_removeOne_settings: "fold (removeOne f) kvs (c, r) = (c', r') \<Longrightarrow> settings c' = settings c"
proof (induction kvs arbitrary: c r)
  case (Cons kv kvs)
  obtain c1 r1 where 1: "removeOne f kv (c, r) = (c1, r1)" by fastforce
  with Cons.IH [of c1 r1] Cons.prems removeOne_settings [OF 1] show ?case by simp
qed simp

lemma UpdateChecks_settings: "settings (fst (UpdateChecks ord cs c)) = settings c"
  unfolding UpdateChecks_def
  by (auto split: prod.splits dest!: fold_updateOne_settings fold_removeOne_settings)

lemma UpdateChecks_wset:
  assumes "runner_inv c" and "visits ord" and "current cs m"
  shows "wset (fst (UpdateChecks ord cs c)) = {k \<in> set cs. runnable k}"
proof -
  obtain c' found added updated removed where up: "UpdateChecks ord cs c = (c', found, added, updated, removed)"
    using prod_cases5 by blast
  have cs: "\<forall>k \<in> set cs. single_protocol (hc_Definition k)" "distinct_hashes cs" using assms(3) by (simp_all add: current_def)
  have st: "map_option (\<lambda>a. esm_check (heap c' a)) (gm_load (checks c') (hashCheck k)) = Some k" if "k \<in> set cs" "runnable k" for k
    using UpdateChecks_settled [OF up assms(1,2) cs that] by (simp add: settled_def view_def option.map_comp comp_def)
  note dm = UpdateChecks_effect(3) [OF up assms(1,2) cs(1)]
  have "wset c' = {k \<in> set cs. runnable k}"
  proof (intro equalityI subsetI)
    fix k assume "k \<in> wset c'"
    then obtain h a where h: "gm_load (checks c') h = Some a" "k = esm_check (heap c' a)" by (auto simp: wset_def ran_def)
    then have "h \<in> hashes cs" using dm by auto
    then obtain k2 where k2: "k2 \<in> set cs" "runnable k2" "hashCheck k2 = h" by (auto simp: hashes_def)
    with st [OF k2(1,2)] h show "k \<in> {k \<in> set cs. runnable k}" by simp
  next
    fix k assume "k \<in> {k \<in> set cs. runnable k}"
    with st [of k] show "k \<in> wset c'" by (auto simp: wset_def ran_def)
  qed
  then show ?thesis by (simp add: up)
qed

lemma calm_sync_kept:
  assumes "calm srv (c, w)" and "visits ord" and "pend_of c = Map.empty" and "current cs (srv w)"
  shows "calm srv (fst (UpdateChecks ord cs c), w)"
proof -
  let ?c = "fst (UpdateChecks ord cs c)"
  note f = calm_facts [OF assms(1)]
  have g: "good (?c, w)" using good_sync [OF f(1) assms(2)] assms(4) by (simp add: current_def)
  have s: "batcher ?c = batcher c" "deferCheck ?c = deferCheck c" "CheckUpdateInterval ?c = CheckUpdateInterval c"
    "isAgentless ?c = isAgentless c" using UpdateChecks_settings [of ord cs c] by (simp_all add: settings_def)
  have "runner_inv c" using f(1) by (simp add: good_def)
  note W = UpdateChecks_wset [OF this assms(2,4)]
  have P: "pend_of ?c = Map.empty" using s(1) assms(3) by (simp add: pend_of_def)
  have "in_step ?c (srv w)" using assms(4) unfolding in_step_def W P by (auto simp: current_def owned_def follows_def)
  with g s f(2-4) show ?thesis by (simp add: calm_def)
qed

lemma calm_inv:
  assumes "lists_checks cl srv idx" and "commits_checks cl srv idx" and "reach calm_init (calm_step cl srv) st"
  shows "calm srv st"
  using assms(3)
proof (induction rule: reach.induct)
  case (reach_init st)
  then obtain ui mi tls pass crit ag bf w where st: "st = (NewCheckRunner ui mi tls pass crit ag bf, w)" and ui: "ui \<le> 0"
    by (rule calm_initE)
  have "in_step (NewCheckRunner ui mi tls pass crit ag bf) (srv w)"
    by (auto simp: in_step_def wset_def pend_of_def NewCheckRunner_def separate_def owned_def follows_def
        NewCheckUpdateBatcher_def ran_def dom_def)
  with good_New [of ui mi tls pass crit ag bf w] ui show ?case by (simp add: calm_def st) (simp add: NewCheckRunner_def)
next
  case (reach_step st st')
  from reach_step.hyps(2) show ?case
  proof (cases rule: calm_step.cases)
    case (calm_sync ord c cs w)
    from calm_sync_kept [OF reach_step.IH [unfolded calm_sync(1)] calm_sync(3-5)] show ?thesis unfolding calm_sync(2) .
  next
    case (calm_result e h s t)
    obtain c w where st: "st = (c, w)" by fastforce
    obtain c' w' where "UpdateCheck e h s t (c, w) = Inr (c', w')" "calm srv (c', w')"
      using calm_result_returns [OF assms(1,2) [folded calm_result(1)] calm_result(2) reach_step.IH [unfolded st], of h s t] by (elim exE conjE)
    with calm_result(3) show ?thesis unfolding st by simp
  next
    case (calm_defer e h)
    obtain c w where st: "st = (c, w)" by fastforce
    have "deferCheck c = []" using calm_facts(3) [OF reach_step.IH [unfolded st]] .
    with calm_defer(3) have "st' = st" by (simp add: deferFired_def st)
    with reach_step.IH show ?thesis by simp
  next
    case (calm_flush e)
    obtain c w where st: "st = (c, w)" by fastforce
    obtain c' w' where "flushFired e (c, w) = Inr (c', w')" "calm srv (c', w')"
      using calm_flush_returns [OF assms(1,2) [folded calm_flush(1)] calm_flush(2) reach_step.IH [unfolded st]] by (elim exE conjE)
    with calm_flush(3) show ?thesis unfolding st by simp
  next
    case (calm_others c w' w)
    from reach_step.IH [unfolded calm_others(1)] have "in_step c (srv w)" and c: "calm srv (c, w)" by (simp_all add: calm_def)
    with follows_others [of "wset c" "pend_of c" "srv w" "srv w'"] calm_others(3) have "in_step c (srv w')" by (simp add: in_step_def)
    with c show ?thesis unfolding calm_others(2) by (simp add: calm_def good_def)
  qed
qed


text \<open>A catalog that is a list of checks, with compare-and-set.\<close>

definition list_find :: "HealthCheck list \<Rightarrow> string \<times> string \<Rightarrow> HealthCheck option" where
  "list_find w x = find (\<lambda>k. check_at k = x) w"

definition list_srv :: "HealthCheck list \<Rightarrow> string \<times> string \<Rightarrow> (string \<times> string) option" where
  "list_srv w x = map_option check_state (list_find w x)"

definition list_idx :: "HealthCheck list \<Rightarrow> string \<times> string \<Rightarrow> nat" where
  "list_idx w x = (case list_find w x of None \<Rightarrow> 0 | Some k \<Rightarrow> hc_ModifyIndex k)"

definition list_client :: "HealthCheck list check_client" where
  "list_client = \<lparr>Health_Node = (\<lambda>n q w. (Inr (filter (\<lambda>k. hc_Node k = n \<and> list_find w (check_at k) = Some k) w), w)),
     Txn_Txn = (\<lambda>ops q w. if list_ex (cas_stale w) ops then (Inl ''index is stale'', w) else (Inr (True, []), fold cas_apply ops w)),
     Catalog_Deregister = (\<lambda>n s w. (None, w))\<rparr>"

lemma list_find_at: "list_find w x = Some k \<Longrightarrow> k \<in> set w \<and> check_at k = x"
  by (auto simp: list_find_def find_Some_iff)

lemma list_lists: "lists_checks list_client list_srv list_idx"
  unfolding lists_checks_def
proof (intro allI)
  fix n q and w :: "HealthCheck list"
  let ?cs = "filter (\<lambda>k. hc_Node k = n \<and> list_find w (check_at k) = Some k) w"
  have "Health_Node list_client n q w = (Inr ?cs, w)" by (simp add: list_client_def)
  moreover have "\<forall>k \<in> set ?cs. hc_Node k = n \<and> list_srv w (check_at k) = Some (check_state k) \<and> hc_ModifyIndex k = list_idx w (check_at k)"
    by (simp add: list_srv_def list_idx_def)
  moreover have "i \<in> hc_CheckID ` set ?cs" if i: "list_srv w (n, i) \<noteq> None" for i
  proof -
    from i obtain k where k: "list_find w (n, i) = Some k" by (auto simp: list_srv_def)
    with list_find_at [OF k] have "k \<in> set ?cs" "hc_CheckID k = i" by (auto simp: check_at_def)
    then show ?thesis by blast
  qed
  ultimately show "\<exists>cs w'. Health_Node list_client n q w = (Inr cs, w') \<and> list_srv w' = list_srv w \<and> list_idx w' = list_idx w \<and>
      (\<forall>k \<in> set cs. hc_Node k = n \<and> list_srv w (check_at k) = Some (check_state k) \<and> hc_ModifyIndex k = list_idx w (check_at k)) \<and>
      (\<forall>i. list_srv w (n, i) \<noteq> None \<longrightarrow> i \<in> hc_CheckID ` set cs)" by blast
qed

lemma list_find_apply:
  "list_find (cas_apply (TxnCheck CheckCAS k) w) x =
     (if x = check_at k then map_option (\<lambda>_. k\<lparr>hc_ModifyIndex := hc_ModifyIndex k + 1\<rparr>) (list_find w x) else list_find w x)"
  unfolding list_find_def cas_apply_def by (induction w) (auto simp: check_at_def)

lemma list_fold:
  "distinct (map check_at ks) \<Longrightarrow>
   list_srv (fold cas_apply (map (TxnCheck CheckCAS) ks) w) = writes (map_of (map (\<lambda>k. (check_at k, check_state k)) ks)) (list_srv w) \<and>
   (\<forall>x. x \<notin> check_at ` set ks \<longrightarrow> list_find (fold cas_apply (map (TxnCheck CheckCAS) ks) w) x = list_find w x)"
proof (induction ks arbitrary: w)
  case (Cons k ks)
  let ?w = "cas_apply (TxnCheck CheckCAS k) w"
  let ?m = "map_of (map (\<lambda>k. (check_at k, check_state k)) ks)"
  have s: "list_srv ?w = writes [check_at k \<mapsto> check_state k] (list_srv w)"
    by (auto simp: fun_eq_iff list_srv_def list_find_apply writes_def check_state_def split: option.splits)
  have "check_at k \<notin> dom ?m" using Cons.prems by (simp add: dom_map_of_conv_image_fst image_image)
  then have m: "map_of (map (\<lambda>k. (check_at k, check_state k)) (k # ks)) = [check_at k \<mapsto> check_state k] ++ ?m"
    by (auto simp: fun_eq_iff map_add_def split: option.splits)
  from Cons.IH [of ?w] Cons.prems have "list_srv (fold cas_apply (map (TxnCheck CheckCAS) ks) ?w) = writes ?m (list_srv ?w)"
    "\<forall>x. x \<notin> check_at ` set ks \<longrightarrow> list_find (fold cas_apply (map (TxnCheck CheckCAS) ks) ?w) x = list_find ?w x" by simp_all
  then show ?case unfolding m by (simp add: s writes_writes list_find_apply)
qed simp

lemma list_commits: "commits_checks list_client list_srv list_idx"
  unfolding commits_checks_def
proof (intro allI impI)
  fix ks q and w :: "HealthCheck list"
  assume d: "distinct (map check_at ks)"
    and k: "\<forall>k \<in> set ks. list_srv w (check_at k) \<noteq> None \<and> hc_ModifyIndex k = list_idx w (check_at k)"
  let ?w = "fold cas_apply (map (TxnCheck CheckCAS) ks) w"
  have "\<not> cas_stale w (TxnCheck CheckCAS x)" if x: "x \<in> set ks" for x
  proof -
    from k x obtain y where y: "list_find w (check_at x) = Some y" by (auto simp: list_srv_def)
    with list_find_at [OF y] k x show ?thesis by (auto simp: cas_stale_def list_ex_iff list_idx_def check_at_def)
  qed
  then have "Txn_Txn list_client (map (TxnCheck CheckCAS) ks) q w = (Inr (True, []), ?w)"
    by (auto simp: list_client_def list_ex_iff)
  with list_fold [OF d, of w] show "\<exists>w'. Txn_Txn list_client (map (TxnCheck CheckCAS) ks) q w = (Inr (True, []), w') \<and>
      list_srv w' = writes (map_of (map (\<lambda>k. (check_at k, check_state k)) ks)) (list_srv w) \<and>
      (\<forall>x. x \<notin> check_at ` set ks \<longrightarrow> list_idx w' x = list_idx w x)"
    by (intro exI [of _ ?w] conjI) (auto simp: list_idx_def)
qed

text \<open>A runner in agentless mode with a threshold for critical results: the check turns critical, the update waits in the batch and is flushed.\<close>

definition calm_new :: "int \<Rightarrow> CheckRunner" where
  "calm_new crit = NewCheckRunner 0 Second \<lparr>tls_InsecureSkipVerify = False, tls_ServerName = ''''\<rparr> 0 crit True Second"

definition calm_runner :: "int \<Rightarrow> CheckRunner" where
  "calm_runner crit = fst (UpdateChecks (\<lambda>m. m) [sample_check] (calm_new crit))"

lemma calm_start: "reach calm_init (calm_step list_client list_srv) (calm_runner crit, [sample_check])"
proof -
  have "calm_init (calm_new crit, [sample_check])" unfolding calm_new_def by (rule calm_init.intros) simp
  then have r: "reach calm_init (calm_step list_client list_srv) (calm_new crit, [sample_check])" by (rule reach_init)
  have "list_srv [sample_check] (target sample_check) = Some (check_state sample_check)" by code_simp
  then have "current [sample_check] (list_srv [sample_check])"
    using sample_distinct single_protocol_sample by (auto simp: current_def separate_def inj_on_def)
  moreover have "pend_of (calm_new crit) = Map.empty"
    by (simp add: pend_of_def calm_new_def NewCheckRunner_def NewCheckUpdateBatcher_def gm_load_map_of)
  ultimately show ?thesis unfolding calm_runner_def by (intro reach_step [OF r] calm_sync visits_id)
qed


subsection \<open>A deferred update that is out of date\<close>


definition slow_runner :: CheckRunner where
  "slow_runner = fst (UpdateChecks (\<lambda>m. m) [sample_check] sample_runner)"


end
