(* ===== verification/Result_Reported.thy ===== *)
theory Result_Reported
  imports Catalog_Follows
begin

text \<open>
  From a result to the catalog: how many equal results it takes until a change of status is reported, and that it then is, in both
  modes (\<^verbatim>\<open>UpdateCheck\<close>, the batch and the flush timer together).
\<close>

text \<open>Any sequence of results of one check is handled.\<close>

lemma calm_results_return:
  assumes "lists_checks cl srv idx" and "commits_checks cl srv idx" and "calm srv (c, w)"
    and "\<forall>x \<in> set outs. env_client (fst x) = cl \<and> visits (env_updates (fst x))"
  shows "\<exists>c' w'. foldR (\<lambda>(e, t). UpdateCheck e h s t) outs (c, w) = Inr (c', w') \<and> calm srv (c', w')"
  using assms(3,4)
proof (induction outs arbitrary: c w)
  case (Cons x outs)
  obtain e t where x: "x = (e, t)" by fastforce
  with Cons.prems have e: "env_client e = cl" "visits (env_updates e)" by simp_all
  obtain c1 w1 where u: "UpdateCheck e h s t (c, w) = Inr (c1, w1)" "calm srv (c1, w1)"
    using calm_result_returns [OF assms(1,2) [folded e(1)] e(2) Cons.prems(1), of h s t] by (elim exE conjE)
  from Cons.IH [OF u(2)] Cons.prems(2) u(1) show ?case by (simp add: x)
qed simp

text \<open>A change of status is taken over, and the next flush leaves it in the catalog.\<close>

lemma calm_change_reported:
  assumes "lists_checks cl srv idx" and "commits_checks cl srv idx" and "calm srv (c, w)"
    and "env_client e = cl" and "visits (env_updates e)" and "env_client f = cl" and "visits (env_updates f)"
    and "gm_load (checks c) h = Some a" and "\<not> not_yet c a s t" and "srv w (target (esm_check (heap c a))) \<noteq> None"
  shows "\<exists>c1 w1 c2 w2. UpdateCheck e h s t (c, w) = Inr (c1, w1) \<and> flushFired f (c1, w1) = Inr (c2, w2) \<and>
    state_at c1 h = Some (s, t) \<and> state_at c2 h = Some (s, t) \<and> pend_of c2 = Map.empty \<and>
    srv w2 (target (esm_check (heap c a))) = Some (s, t)"
proof -
  let ?k = "esm_check (heap c a)"
  obtain c1 w1 where u: "UpdateCheck e h s t (c, w) = Inr (c1, w1)" "calm srv (c1, w1)" "took c a s t (srv w) c1 (srv w1)"
    using calm_accepted [OF assms(1,2) [folded assms(4)] assms(5,3,8,9)] by (elim exE conjE)
  obtain c2 w2 where fl: "flushFired f (c1, w1) = Inr (c2, w2)" "calm srv (c2, w2)" "pend_of c2 = Map.empty"
    "checks c2 = checks c1" "heap c2 = heap c1" "dom (srv w2) = dom (srv w1)"
    using calm_flush_returns [OF assms(1,2) [folded assms(6)] assms(7) u(2)] by (elim exE conjE)
  have k: "checks c1 = checks c" "esm_check (heap c1 a) = with_state s t ?k" "dom (srv w1) = dom (srv w)"
    using u(3) assms(10) by (simp_all add: took_def)
  then have st: "state_at c1 h = Some (s, t)" "state_at c2 h = Some (s, t)"
    using assms(8) fl(4,5) by (simp_all add: state_at_def)
  have "with_state s t ?k \<in> wset c2" using assms(8) k(1,2) fl(4,5) by (force simp: wset_def ran_def)
  then have "srv w2 (target ?k) \<in> {None, Some (s, t)}"
    using calm_facts(5) [OF fl(2)] fl(3) by (fastforce simp: in_step_def follows_def)
  moreover have "target ?k \<in> dom (srv w2)" using assms(10) fl(6) k(3) by blast
  ultimately have "srv w2 (target ?k) = Some (s, t)" by auto
  with u(1) fl(1,3) st show ?thesis by (intro exI conjI)
qed



end
