(* ===== verification/Reaper.thy ===== *)
theory Reaper
  imports Check_Claims
begin

text \<open>
  The loop of \<^verbatim>\<open>reapServices\<close> in \<^verbatim>\<open>src/check.go\<close>: a pass whenever 30 seconds have gone by since the last one ended. Between two passes
  the runner and the servers change as they like.
\<close>

text \<open>What is open of one pass: the runner and the order of its map when it begins, what happened to the servers since the
  last one, and how long it takes.\<close>

record 'w reap_pass =
  rp_runner :: CheckRunner
  rp_order :: "int range_order"
  rp_before :: "'w \<Rightarrow> 'w"
  rp_took :: int

text \<open>The passes that the timer starts before the shutdown, the first one at the given time: the time of each and what it
  reaped.\<close>

fun reapServices :: "'w check_client \<Rightarrow> int \<Rightarrow> 'w reap_pass list \<Rightarrow> 'w \<Rightarrow> (int \<times> (string \<times> string) list) list \<times> 'w" where
  "reapServices cl now [] w = ([], w)"
| "reapServices cl now (p # ps) w =
     (case reapServicesInternal cl (rp_order p) now (rp_runner p) (rp_before p w) of
        (reaped, w1) \<Rightarrow>
          (case reapServices cl (now + rp_took p + 30 * Second) ps w1 of
             (rs, w2) \<Rightarrow> ((now, reaped) # rs, w2)))"

text \<open>A check of the service that has been critical since a time, with its timeout.\<close>

definition critical_since :: "string \<Rightarrow> int \<Rightarrow> int \<Rightarrow> string \<times> string \<Rightarrow> CheckRunner \<Rightarrow> bool" where
  "critical_since h since timeout i c \<longleftrightarrow> gm_load (checksCritical c) h = Some since \<and>
     (\<exists>a. gm_load (checks c) h = Some a \<and> (hc_Node (esm_check (heap c a)), hc_ServiceID (esm_check (heap c a))) = i \<and>
        hc_ServiceID (esm_check (heap c a)) \<noteq> '''' \<and> 0 < timeout \<and>
        def_DeregisterCriticalServiceAfterDuration (hc_Definition (esm_check (heap c a))) = timeout)"

lemma critical_overdue:
  assumes "critical_since h since timeout i c" and "since + timeout < now"
  shows "(h, since) \<in> set (checksCritical c) \<and> overdue now c (h, since) = Some i"
  using assms by (auto simp: critical_since_def overdue_def Let_def dest: gm_load_eq_SomeD)

lemma reapServices_only:
  assumes "reapServices cl now ps w = (rs, w')" and "\<forall>p \<in> set ps. visits (rp_order p)"
  shows "\<forall>(t, reaped) \<in> set rs. distinct reaped \<and>
    (\<forall>i \<in> set reaped. \<exists>p \<in> set ps. \<exists>x \<in> set (checksCritical (rp_runner p)). overdue t (rp_runner p) x = Some i)"
  using assms
proof (induction cl now ps w arbitrary: rs w' rule: reapServices.induct)
  case (2 cl now p ps w)
  obtain reaped w1 where r: "reapServicesInternal cl (rp_order p) now (rp_runner p) (rp_before p w) = (reaped, w1)" by fastforce
  obtain rs1 w2 where rest: "reapServices cl (now + rp_took p + 30 * Second) ps w1 = (rs1, w2)" by fastforce
  have rs: "rs = (now, reaped) # rs1" using 2(2) rest by (simp add: r)
  have "visits (rp_order p)" using 2(3) by simp
  from reap_fold [OF r [unfolded reapServicesInternal_def]] set_visits [OF this, of "checksCritical (rp_runner p)"]
  have "distinct reaped \<and> (\<forall>i \<in> set reaped. \<exists>x \<in> set (checksCritical (rp_runner p)). overdue now (rp_runner p) x = Some i)" by auto
  moreover from 2(1) [OF r [symmetric] rest] 2(3) have "\<forall>(t, reaped) \<in> set rs1. distinct reaped \<and>
      (\<forall>i \<in> set reaped. \<exists>p \<in> set ps. \<exists>x \<in> set (checksCritical (rp_runner p)). overdue t (rp_runner p) x = Some i)" by simp
  ultimately show ?case unfolding rs by fastforce
qed simp

lemma reapServices_time:
  assumes "reapServices cl now ps w = (rs, w')" and "now \<le> since + timeout + 30 * Second + slack"
    and "\<forall>p \<in> set ps. critical_since h since timeout i (rp_runner p) \<and> visits (rp_order p) \<and> rp_took p \<le> slack"
    and "\<forall>n s w. fst (Catalog_Deregister cl n s w) = None" and "\<exists>(t, reaped) \<in> set rs. since + timeout < t"
  shows "\<exists>(t, reaped) \<in> set rs. i \<in> set reaped \<and> since + timeout < t \<and> t \<le> since + timeout + 30 * Second + slack"
  using assms
proof (induction cl now ps w arbitrary: rs w' rule: reapServices.induct)
  case (2 cl now p ps w)
  obtain reaped w1 where r: "reapServicesInternal cl (rp_order p) now (rp_runner p) (rp_before p w) = (reaped, w1)" by fastforce
  obtain rs1 w2 where rest: "reapServices cl (now + rp_took p + 30 * Second) ps w1 = (rs1, w2)" by fastforce
  have rs: "rs = (now, reaped) # rs1" using 2(2) rest by (simp add: r)
  show ?case
  proof (cases "since + timeout < now")
    case True
    have p: "critical_since h since timeout i (rp_runner p)" "visits (rp_order p)" using 2(4) by simp_all
    from critical_overdue [OF p(1) True] reap_all [OF p(2) 2(5)] have "i \<in> set reaped" using r by (metis fst_conv)
    with True 2(3) show ?thesis unfolding rs by auto
  next
    case False
    moreover have "rp_took p \<le> slack" using 2(4) by simp
    ultimately have "now + rp_took p + 30 * Second \<le> since + timeout + 30 * Second + slack" by simp
    from 2(1) [OF r [symmetric] rest this] 2(4-6) False have
      "\<exists>(t, reaped) \<in> set rs1. i \<in> set reaped \<and> since + timeout < t \<and> t \<le> since + timeout + 30 * Second + slack"
      unfolding rs by auto
    then show ?thesis unfolding rs by auto
  qed
qed simp


text \<open>A check with a timeout of one minute that is critical from the start on: the third pass reaps its service.\<close>

definition critical_pass :: "HealthCheck list reap_pass" where
  "critical_pass = \<lparr>rp_runner = overdue_runner, rp_order = rev, rp_before = (\<lambda>w. w), rp_took = Second\<rparr>"


end
