(* ===== verification/Config.thy ===== *)
theory Config
  imports Esm_Prelude
begin

text \<open>
  \<^verbatim>\<open>src/config.go\<close>: the configuration, its defaults, and how configuration files are merged into
  it and validated. A flag value that knows whether it was set (\<^verbatim>\<open>flags.StringValue\<close>,
  \<^verbatim>\<open>intValue\<close> and the like) is an option. The parsers (\<^verbatim>\<open>hcl\<close>, \<^verbatim>\<open>mapstructure\<close>), the directory
  walk \<^verbatim>\<open>flags.Visit\<close>, the files, the UUID generator and \<^verbatim>\<open>time.ParseDuration\<close> (whose fractions
  go through floating point) are arguments. An error is the text of the Go error.
\<close>

definition PingTypeUDP :: string where
  "PingTypeUDP = ''udp''"

definition PingTypeSocket :: string where
  "PingTypeSocket = ''socket''"

record Telemetry =
  ht_CirconusAPIApp :: "string option"
  ht_CirconusAPIToken :: "string option"
  ht_CirconusAPIURL :: "string option"
  ht_CirconusBrokerID :: "string option"
  ht_CirconusBrokerSelectTag :: "string option"
  ht_CirconusCheckDisplayName :: "string option"
  ht_CirconusCheckForceMetricActivation :: "string option"
  ht_CirconusCheckID :: "string option"
  ht_CirconusCheckInstanceID :: "string option"
  ht_CirconusCheckSearchTag :: "string option"
  ht_CirconusCheckTags :: "string option"
  ht_CirconusSubmissionInterval :: "string option"
  ht_CirconusSubmissionURL :: "string option"
  ht_DisableHostname :: "bool option"
  ht_DogstatsdAddr :: "string option"
  ht_DogstatsdTags :: "string list"
  ht_PrometheusRetentionTime :: "string option"
  ht_FilterDefault :: "bool option"
  ht_PrefixFilter :: "string list"
  ht_MetricsPrefix :: "string option"
  ht_StatsdAddr :: "string option"
  ht_StatsiteAddr :: "string option"

text \<open>\<^verbatim>\<open>lib.TelemetryConfig\<close>.\<close>

record TelemetryConfig =
  tc_CirconusAPIApp :: string
  tc_CirconusAPIToken :: string
  tc_CirconusAPIURL :: string
  tc_CirconusBrokerID :: string
  tc_CirconusBrokerSelectTag :: string
  tc_CirconusCheckDisplayName :: string
  tc_CirconusCheckForceMetricActivation :: string
  tc_CirconusCheckID :: string
  tc_CirconusCheckInstanceID :: string
  tc_CirconusCheckSearchTag :: string
  tc_CirconusCheckTags :: string
  tc_CirconusSubmissionInterval :: string
  tc_CirconusSubmissionURL :: string
  tc_DisableHostname :: bool
  tc_DogstatsdAddr :: string
  tc_DogstatsdTags :: "string list"
  tc_FilterDefault :: bool
  tc_AllowedPrefixes :: "string list"
  tc_BlockedPrefixes :: "string list"
  tc_MetricsPrefix :: string
  tc_StatsdAddr :: string
  tc_StatsiteAddr :: string
  tc_PrometheusExpiration :: int
  tc_PrometheusName :: string

record Config =
  cfg_LogLevel :: string
  cfg_EnableDebug :: bool
  cfg_EnableSyslog :: bool
  cfg_EnableAgentless :: bool
  cfg_SyslogFacility :: string
  cfg_LogJSON :: bool
  cfg_LogFile :: string
  cfg_LogRotateBytes :: int
  cfg_LogRotateMaxFiles :: int
  cfg_LogRotateDuration :: int
  cfg_Partition :: string
  cfg_Service :: string
  cfg_Tag :: string
  cfg_KVPath :: string
  cfg_InstanceID :: string
  cfg_NodeMeta :: "(string, string) go_map"
  cfg_Interval :: int
  cfg_DeregisterAfter :: int
  cfg_CheckUpdateInterval :: int
  cfg_BatchFlushInterval :: int
  cfg_CoordinateUpdateInterval :: int
  cfg_NodeHealthRefreshInterval :: int
  cfg_NodeReconnectTimeout :: int
  cfg_HTTPAddr :: string
  cfg_Token :: string
  cfg_Datacenter :: string
  cfg_CAFile :: string
  cfg_CAPath :: string
  cfg_CertFile :: string
  cfg_KeyFile :: string
  cfg_TLSServerName :: string
  cfg_HTTPSCAFile :: string
  cfg_HTTPSCAPath :: string
  cfg_HTTPSCertFile :: string
  cfg_HTTPSKeyFile :: string
  cfg_ClientAddress :: string
  cfg_PingType :: string
  cfg_DisableCoordinateUpdates :: bool
  cfg_StaleReadNodes :: bool
  cfg_Telemetry :: TelemetryConfig
  cfg_PassingThreshold :: int
  cfg_CriticalThreshold :: int

record HumanConfig =
  hum_LogLevel :: "string option"
  hum_EnableDebug :: "bool option"
  hum_EnableSyslog :: "bool option"
  hum_EnableAgentless :: "bool option"
  hum_SyslogFacility :: "string option"
  hum_LogJSON :: "bool option"
  hum_LogFile :: "string option"
  hum_LogRotateBytes :: "int option"
  hum_LogRotateMaxFiles :: "int option"
  hum_LogRotateDuration :: "int option"
  hum_InstanceID :: "string option"
  hum_Service :: "string option"
  hum_Tag :: "string option"
  hum_KVPath :: "string option"
  hum_NodeMeta :: "(string, string) go_map list"
  hum_Partition :: "string option"
  hum_NodeReconnectTimeout :: "int option"
  hum_NodeProbeInterval :: "int option"
  hum_BatchFlushInterval :: "int option"
  hum_HTTPAddr :: "string option"
  hum_Token :: "string option"
  hum_Datacenter :: "string option"
  hum_CAFile :: "string option"
  hum_CAPath :: "string option"
  hum_CertFile :: "string option"
  hum_KeyFile :: "string option"
  hum_TLSServerName :: "string option"
  hum_HTTPSCAFile :: "string option"
  hum_HTTPSCAPath :: "string option"
  hum_HTTPSCertFile :: "string option"
  hum_HTTPSKeyFile :: "string option"
  hum_ClientAddress :: "string option"
  hum_PingType :: "string option"
  hum_DisableCoordinateUpdates :: "bool option"
  hum_StaleReadNodes :: "bool option"
  hum_Telemetry :: "Telemetry list"
  hum_PassingThreshold :: "int option"
  hum_CriticalThreshold :: "int option"

text \<open>\<^verbatim>\<open>api.Config\<close>, as far as it is written here.\<close>

record api_Config =
  ac_Address :: string
  ac_Token :: string
  ac_Datacenter :: string
  ac_Partition :: string
  ac_CAFile :: string
  ac_CAPath :: string
  ac_CertFile :: string
  ac_KeyFile :: string
  ac_TLSAddress :: string

text \<open>\<open>conf\<close> is what \<^verbatim>\<open>api.DefaultConfig\<close> returned.\<close>

definition ClientConfig :: "Config \<Rightarrow> api_Config \<Rightarrow> api_Config" where
  "ClientConfig c conf =
     (let conf = (if cfg_HTTPAddr c \<noteq> '''' then conf\<lparr>ac_Address := cfg_HTTPAddr c\<rparr> else conf);
          conf = (if cfg_Token c \<noteq> '''' then conf\<lparr>ac_Token := cfg_Token c\<rparr> else conf);
          conf = (if cfg_Datacenter c \<noteq> '''' then conf\<lparr>ac_Datacenter := cfg_Datacenter c\<rparr> else conf);
          conf = (if cfg_Partition c \<noteq> '''' then conf\<lparr>ac_Partition := cfg_Partition c\<rparr> else conf);
          conf = (if cfg_CAFile c \<noteq> '''' then conf\<lparr>ac_CAFile := cfg_CAFile c\<rparr> else conf);
          conf = (if cfg_CAPath c \<noteq> '''' then conf\<lparr>ac_CAPath := cfg_CAPath c\<rparr> else conf);
          conf = (if cfg_CertFile c \<noteq> '''' then conf\<lparr>ac_CertFile := cfg_CertFile c\<rparr> else conf);
          conf = (if cfg_KeyFile c \<noteq> '''' then conf\<lparr>ac_KeyFile := cfg_KeyFile c\<rparr> else conf);
          conf = (if cfg_TLSServerName c \<noteq> '''' then conf\<lparr>ac_TLSAddress := cfg_TLSServerName c\<rparr> else conf)
      in conf)"

definition zero_telemetry :: TelemetryConfig where
  "zero_telemetry =
     \<lparr>tc_CirconusAPIApp = '''',
      tc_CirconusAPIToken = '''',
      tc_CirconusAPIURL = '''',
      tc_CirconusBrokerID = '''',
      tc_CirconusBrokerSelectTag = '''',
      tc_CirconusCheckDisplayName = '''',
      tc_CirconusCheckForceMetricActivation = '''',
      tc_CirconusCheckID = '''',
      tc_CirconusCheckInstanceID = '''',
      tc_CirconusCheckSearchTag = '''',
      tc_CirconusCheckTags = '''',
      tc_CirconusSubmissionInterval = '''',
      tc_CirconusSubmissionURL = '''',
      tc_DisableHostname = False,
      tc_DogstatsdAddr = '''',
      tc_DogstatsdTags = [],
      tc_FilterDefault = False,
      tc_AllowedPrefixes = [],
      tc_BlockedPrefixes = [],
      tc_MetricsPrefix = '''',
      tc_StatsdAddr = '''',
      tc_StatsiteAddr = '''',
      tc_PrometheusExpiration = 0,
      tc_PrometheusName = ''''\<rparr>"

definition DefaultConfig :: "string + string \<Rightarrow> string + Config" where
  "DefaultConfig uuid = (case uuid of Inl err \<Rightarrow> Inl err | Inr instanceID \<Rightarrow> Inr
     \<lparr>cfg_LogLevel = ''INFO'',
      cfg_EnableDebug = False,
      cfg_EnableSyslog = False,
      cfg_EnableAgentless = False,
      cfg_SyslogFacility = '''',
      cfg_LogJSON = False,
      cfg_LogFile = '''',
      cfg_LogRotateBytes = 0,
      cfg_LogRotateMaxFiles = 0,
      cfg_LogRotateDuration = 0,
      cfg_Partition = '''',
      cfg_Service = ''consul-esm'',
      cfg_Tag = '''',
      cfg_KVPath = ''consul-esm/'',
      cfg_InstanceID = instanceID,
      cfg_NodeMeta = [(''external-node'', ''true'')],
      cfg_Interval = 10 * Second,
      cfg_DeregisterAfter = 72 * Hour,
      cfg_CheckUpdateInterval = 5 * Minute,
      cfg_BatchFlushInterval = 500 * Millisecond,
      cfg_CoordinateUpdateInterval = 10 * Second,
      cfg_NodeHealthRefreshInterval = 1 * Hour,
      cfg_NodeReconnectTimeout = 72 * Hour,
      cfg_HTTPAddr = '''',
      cfg_Token = '''',
      cfg_Datacenter = '''',
      cfg_CAFile = '''',
      cfg_CAPath = '''',
      cfg_CertFile = '''',
      cfg_KeyFile = '''',
      cfg_TLSServerName = '''',
      cfg_HTTPSCAFile = '''',
      cfg_HTTPSCAPath = '''',
      cfg_HTTPSCertFile = '''',
      cfg_HTTPSKeyFile = '''',
      cfg_ClientAddress = '''',
      cfg_PingType = PingTypeUDP,
      cfg_DisableCoordinateUpdates = False,
      cfg_StaleReadNodes = False,
      cfg_Telemetry = zero_telemetry,
      cfg_PassingThreshold = 0,
      cfg_CriticalThreshold = 0\<rparr>)"

text \<open>The \<^verbatim>\<open>Merge\<close> methods of the flag values and of \<^verbatim>\<open>intValue\<close>: a value that was set replaces the
  old one.\<close>

definition Merge :: "'a option \<Rightarrow> 'a \<Rightarrow> 'a" where
  "Merge v onto = (case v of None \<Rightarrow> onto | Some x \<Rightarrow> x)"

definition stringVal :: "string option \<Rightarrow> string" where
  "stringVal v = (case v of None \<Rightarrow> '''' | Some s \<Rightarrow> s)"

definition boolVal :: "bool option \<Rightarrow> bool" where
  "boolVal v = (case v of None \<Rightarrow> False | Some b \<Rightarrow> b)"

text \<open>The verb \<^verbatim>\<open>%q\<close> of \<^verbatim>\<open>fmt\<close>, on strings without characters that it escapes.\<close>

definition quoted :: "string \<Rightarrow> string" where
  "quoted s = [CHR 0x22] @ s @ [CHR 0x22]"

text \<open>One round of the loop over the prefix filters: the allowed and the blocked prefixes so far.\<close>

definition addPrefix :: "string \<Rightarrow> string list \<times> string list \<Rightarrow> string list \<times> string list" where
  "addPrefix rule st = (case st of (allowed, blocked) \<Rightarrow>
     (case rule of
        [] \<Rightarrow> (allowed, blocked)
      | r # rest \<Rightarrow>
          if r = CHR ''+'' then (allowed @ [rest], blocked)
          else if r = CHR ''-'' then (allowed, blocked @ [rest])
          else (allowed, blocked)))"

definition convertTelemetry :: "(string \<Rightarrow> string + int) \<Rightarrow> Telemetry \<Rightarrow> string + TelemetryConfig" where
  "convertTelemetry ParseDuration telemetry =
     (case fold addPrefix (ht_PrefixFilter telemetry) ([], []) of
        (telemetryAllowedPrefixes, telemetryBlockedPrefixes) \<Rightarrow>
      (case (case ht_PrometheusRetentionTime telemetry of
               None \<Rightarrow> Inr 0
             | Some s \<Rightarrow> (case ParseDuration s of
                 Inl err \<Rightarrow> Inl (''prometheus_retention_time: invalid duration: '' @ quoted s @ '': '' @ err)
               | Inr d \<Rightarrow> Inr d)) of
         Inl err \<Rightarrow> Inl err
       | Inr prometheusRetentionTime \<Rightarrow> Inr
          \<lparr>tc_CirconusAPIApp = stringVal (ht_CirconusAPIApp telemetry),
           tc_CirconusAPIToken = stringVal (ht_CirconusAPIToken telemetry),
           tc_CirconusAPIURL = stringVal (ht_CirconusAPIURL telemetry),
           tc_CirconusBrokerID = stringVal (ht_CirconusBrokerID telemetry),
           tc_CirconusBrokerSelectTag = stringVal (ht_CirconusBrokerSelectTag telemetry),
           tc_CirconusCheckDisplayName = stringVal (ht_CirconusCheckDisplayName telemetry),
           tc_CirconusCheckForceMetricActivation = stringVal (ht_CirconusCheckForceMetricActivation telemetry),
           tc_CirconusCheckID = stringVal (ht_CirconusCheckID telemetry),
           tc_CirconusCheckInstanceID = stringVal (ht_CirconusCheckInstanceID telemetry),
           tc_CirconusCheckSearchTag = stringVal (ht_CirconusCheckSearchTag telemetry),
           tc_CirconusCheckTags = stringVal (ht_CirconusCheckTags telemetry),
           tc_CirconusSubmissionInterval = stringVal (ht_CirconusSubmissionInterval telemetry),
           tc_CirconusSubmissionURL = stringVal (ht_CirconusSubmissionURL telemetry),
           tc_DisableHostname = boolVal (ht_DisableHostname telemetry),
           tc_DogstatsdAddr = stringVal (ht_DogstatsdAddr telemetry),
           tc_DogstatsdTags = ht_DogstatsdTags telemetry,
           tc_FilterDefault = boolVal (ht_FilterDefault telemetry),
           tc_AllowedPrefixes = telemetryAllowedPrefixes,
           tc_BlockedPrefixes = telemetryBlockedPrefixes,
           tc_MetricsPrefix = stringVal (ht_MetricsPrefix telemetry),
           tc_StatsdAddr = stringVal (ht_StatsdAddr telemetry),
           tc_StatsiteAddr = stringVal (ht_StatsiteAddr telemetry),
           tc_PrometheusExpiration = prometheusRetentionTime,
           tc_PrometheusName = stringVal (ht_MetricsPrefix telemetry)\<rparr>))"

text \<open>\<^verbatim>\<open>MergeConfig\<close> up to the telemetry block, and after it.\<close>

definition mergeSettings :: "HumanConfig \<Rightarrow> Config \<Rightarrow> Config" where
  "mergeSettings src dst = dst\<lparr>cfg_LogLevel := Merge (hum_LogLevel src) (cfg_LogLevel dst),
     cfg_LogJSON := Merge (hum_LogJSON src) (cfg_LogJSON dst),
     cfg_EnableDebug := Merge (hum_EnableDebug src) (cfg_EnableDebug dst),
     cfg_EnableSyslog := Merge (hum_EnableSyslog src) (cfg_EnableSyslog dst),
     cfg_InstanceID := Merge (hum_InstanceID src) (cfg_InstanceID dst),
     cfg_Service := Merge (hum_Service src) (cfg_Service dst),
     cfg_Partition := Merge (hum_Partition src) (cfg_Partition dst),
     cfg_Tag := Merge (hum_Tag src) (cfg_Tag dst),
     cfg_KVPath := Merge (hum_KVPath src) (cfg_KVPath dst),
     cfg_NodeMeta := (if length (hum_NodeMeta src) = 1 then hd (hum_NodeMeta src) else cfg_NodeMeta dst),
     cfg_NodeReconnectTimeout := Merge (hum_NodeReconnectTimeout src) (cfg_NodeReconnectTimeout dst),
     cfg_CoordinateUpdateInterval := Merge (hum_NodeProbeInterval src) (cfg_CoordinateUpdateInterval dst),
     cfg_BatchFlushInterval := Merge (hum_BatchFlushInterval src) (cfg_BatchFlushInterval dst),
     cfg_HTTPAddr := Merge (hum_HTTPAddr src) (cfg_HTTPAddr dst),
     cfg_Token := Merge (hum_Token src) (cfg_Token dst),
     cfg_Datacenter := Merge (hum_Datacenter src) (cfg_Datacenter dst),
     cfg_CAFile := Merge (hum_CAFile src) (cfg_CAFile dst),
     cfg_CAPath := Merge (hum_CAPath src) (cfg_CAPath dst),
     cfg_CertFile := Merge (hum_CertFile src) (cfg_CertFile dst),
     cfg_KeyFile := Merge (hum_KeyFile src) (cfg_KeyFile dst),
     cfg_TLSServerName := Merge (hum_TLSServerName src) (cfg_TLSServerName dst),
     cfg_HTTPSCAFile := Merge (hum_HTTPSCAFile src) (cfg_HTTPSCAFile dst),
     cfg_HTTPSCAPath := Merge (hum_HTTPSCAPath src) (cfg_HTTPSCAPath dst),
     cfg_HTTPSCertFile := Merge (hum_HTTPSCertFile src) (cfg_HTTPSCertFile dst),
     cfg_HTTPSKeyFile := Merge (hum_HTTPSKeyFile src) (cfg_HTTPSKeyFile dst),
     cfg_ClientAddress := Merge (hum_ClientAddress src) (cfg_ClientAddress dst),
     cfg_PingType := Merge (hum_PingType src) (cfg_PingType dst),
     cfg_DisableCoordinateUpdates := Merge (hum_DisableCoordinateUpdates src) (cfg_DisableCoordinateUpdates dst),
     cfg_StaleReadNodes := Merge (hum_StaleReadNodes src) (cfg_StaleReadNodes dst)\<rparr>"

definition mergeThresholds :: "HumanConfig \<Rightarrow> Config \<Rightarrow> Config" where
  "mergeThresholds src dst = dst\<lparr>cfg_PassingThreshold := Merge (hum_PassingThreshold src) (cfg_PassingThreshold dst),
     cfg_CriticalThreshold := Merge (hum_CriticalThreshold src) (cfg_CriticalThreshold dst),
     cfg_LogFile := Merge (hum_LogFile src) (cfg_LogFile dst),
     cfg_LogRotateBytes := Merge (hum_LogRotateBytes src) (cfg_LogRotateBytes dst),
     cfg_LogRotateMaxFiles := Merge (hum_LogRotateMaxFiles src) (cfg_LogRotateMaxFiles dst),
     cfg_LogRotateDuration := Merge (hum_LogRotateDuration src) (cfg_LogRotateDuration dst),
     cfg_EnableAgentless := Merge (hum_EnableAgentless src) (cfg_EnableAgentless dst)\<rparr>"

definition MergeConfig :: "(string \<Rightarrow> string + int) \<Rightarrow> Config \<Rightarrow> HumanConfig \<Rightarrow> string + Config" where
  "MergeConfig ParseDuration dst src =
     (let dst = mergeSettings src dst in
      if length (hum_Telemetry src) = 1
      then (case convertTelemetry ParseDuration (hd (hum_Telemetry src)) of
              Inl err \<Rightarrow> Inl err
            | Inr t \<Rightarrow> Inr (mergeThresholds src (dst\<lparr>cfg_Telemetry := t\<rparr>)))
      else Inr (mergeThresholds src dst))"


subsection \<open>Reading files\<close>

text \<open>
  Values and types as reflection sees them: the types of kind \<^verbatim>\<open>int\<close> by name, \<^verbatim>\<open>intValue\<close>, and all others. A decode
  hook gets the type of the data, the type it is decoded into, and the data; it returns new data or an error.
\<close>

datatype go_type = TInt string | TIntValue | TOther string

datatype go_value = GInt string int | GIntValue "int option" | GOther string string

type_synonym decode_hook = "go_type \<Rightarrow> go_type \<Rightarrow> go_value \<Rightarrow> (string + go_value) res"

definition intTointValueFunc :: decode_hook where
  "intTointValueFunc f t data =
     (case f of
        TInt _ \<Rightarrow>
          if t \<noteq> TIntValue then Inr (Inr data)
          else (case data of
                  GInt name n \<Rightarrow> if name = ''int'' then Inr (Inr (GIntValue (Some n))) else Inl TypePanic
                | _ \<Rightarrow> Inl TypePanic)
      | _ \<Rightarrow> Inr (Inr data))"

text \<open>
  What \<^verbatim>\<open>DecodeConfig\<close> calls of \<^verbatim>\<open>hcl\<close> and \<^verbatim>\<open>mapstructure\<close>: the parser, whether the root is a list of
  objects, how many blocks have a name, and the two decoders.
\<close>

record ('n, 'l, 'm) hcl_lib =
  hcl_Parse :: "string \<Rightarrow> string + 'n"
  hcl_ObjectList :: "'n \<Rightarrow> 'l option"
  hcl_FilterCount :: "'l \<Rightarrow> string \<Rightarrow> nat"
  hcl_DecodeObject :: "'l \<Rightarrow> string + 'm"
  flags_BoolToBoolValueFunc :: decode_hook
  flags_StringToDurationValueFunc :: decode_hook
  flags_StringToStringValueFunc :: decode_hook
  ms_ComposeDecodeHookFunc :: "decode_hook list \<Rightarrow> decode_hook"
  ms_Decode :: "decode_hook \<Rightarrow> 'm \<Rightarrow> string + HumanConfig"

definition configDecodeHook :: "('n, 'l, 'm) hcl_lib \<Rightarrow> decode_hook" where
  "configDecodeHook hcl = ms_ComposeDecodeHookFunc hcl [flags_BoolToBoolValueFunc hcl, flags_StringToDurationValueFunc hcl,
     flags_StringToStringValueFunc hcl, intTointValueFunc]"

definition DecodeConfig :: "('n, 'l, 'm) hcl_lib \<Rightarrow> string + string \<Rightarrow> string + HumanConfig" where
  "DecodeConfig hcl r =
     (case r of Inl err \<Rightarrow> Inl err | Inr bytes \<Rightarrow>
      (case hcl_Parse hcl bytes of Inl err \<Rightarrow> Inl (''error parsing: '' @ err) | Inr root \<Rightarrow>
       (case hcl_ObjectList hcl root of None \<Rightarrow> Inl ''error parsing: root should be an object''
        | Some list \<Rightarrow>
          if hcl_FilterCount hcl list ''external_node_meta'' > 1 then Inl ''only one node_meta block allowed''
          else if hcl_FilterCount hcl list ''telemetry'' > 1 then Inl ''only one telemetry block allowed''
          else (case hcl_DecodeObject hcl list of Inl err \<Rightarrow> Inl err
                | Inr m \<Rightarrow> ms_Decode hcl (configDecodeHook hcl) m))))"

text \<open>A number for a threshold becomes a value that is set, so that merging it sets the option; anything else that is decoded, and
  numbers for other options, pass unchanged, and no number of type \<^verbatim>\<open>int\<close> makes the hook panic.\<close>

lemma intTointValueFunc_decodes:
  "\<exists>v. intTointValueFunc (TInt ''int'') TIntValue (GInt ''int'' n) = Inr (Inr (GIntValue v)) \<and> Merge v old = n"
  "t \<noteq> TIntValue \<or> (\<forall>m. f \<noteq> TInt m) \<Longrightarrow> intTointValueFunc f t d = Inr (Inr d)"
  by (auto simp: intTointValueFunc_def Merge_def split: go_type.splits)

text \<open>A file as the visitor sees it: opening may fail, and so may asking for its name and size; its
  content is read last.\<close>

record file_info =
  fi_Name :: string
  fi_Size :: nat
  fi_Content :: "string + string"

type_synonym open_file = "string + (string + file_info)"

definition visitor :: "('n, 'l, 'm) hcl_lib \<Rightarrow> (string \<Rightarrow> string + int) \<Rightarrow> (string \<Rightarrow> open_file) \<Rightarrow>
    string \<Rightarrow> Config \<Rightarrow> string + Config" where
  "visitor hcl ParseDuration os_Open path dst =
     (case os_Open path of Inl err \<Rightarrow> Inl err | Inr f \<Rightarrow>
      (case f of Inl err \<Rightarrow> Inl err | Inr fi \<Rightarrow>
       if \<not> HasSuffix (fi_Name fi) ''.json'' \<and> \<not> HasSuffix (fi_Name fi) ''.hcl'' then Inr dst
       else if fi_Size fi = 0 then Inr dst
       else (case DecodeConfig hcl (fi_Content fi) of Inl err \<Rightarrow> Inl err
             | Inr src \<Rightarrow> MergeConfig ParseDuration dst src)))"

text \<open>The files that \<^verbatim>\<open>flags.Visit\<close> passes to its visitor, in order, or its error; the first error of
  the visitor ends the walk.\<close>

fun visit_all :: "(string \<Rightarrow> Config \<Rightarrow> string + Config) \<Rightarrow> string list \<Rightarrow> Config \<Rightarrow> string + Config" where
  "visit_all v [] dst = Inr dst"
| "visit_all v (p # ps) dst = (case v p dst of Inl err \<Rightarrow> Inl err | Inr dst' \<Rightarrow> visit_all v ps dst')"

fun MergeConfigPaths :: "(string \<Rightarrow> string + string list) \<Rightarrow> (string \<Rightarrow> Config \<Rightarrow> string + Config) \<Rightarrow>
    Config \<Rightarrow> string list \<Rightarrow> string + Config" where
  "MergeConfigPaths Visit v dst [] = Inr dst"
| "MergeConfigPaths Visit v dst (path # paths) =
     (case Visit path of Inl err \<Rightarrow> Inl err | Inr files \<Rightarrow>
      (case visit_all v files dst of Inl err \<Rightarrow> Inl err
       | Inr dst' \<Rightarrow> MergeConfigPaths Visit v dst' paths))"

definition ValidateConfig :: "Config \<Rightarrow> string option" where
  "ValidateConfig conf =
     (if cfg_PingType conf \<notin> {PingTypeUDP, PingTypeSocket}
      then Some (''ping_type must be one of either '' @ quoted ''udp'' @ '' or '' @ quoted ''socket'')
      else if cfg_CoordinateUpdateInterval conf < Second
      then Some ''node_probe_interval cannot be lower than 1 second''
      else if cfg_PassingThreshold conf < 0 then Some ''passing_threshold cannot be negative''
      else if cfg_CriticalThreshold conf < 0 then Some ''critical_threshold cannot be negative''
      else None)"

definition BuildConfig :: "string + string \<Rightarrow> (string \<Rightarrow> string + string list) \<Rightarrow>
    (string \<Rightarrow> Config \<Rightarrow> string + Config) \<Rightarrow> string list \<Rightarrow> string + Config" where
  "BuildConfig uuid Visit v configFiles =
     (case DefaultConfig uuid of Inl err \<Rightarrow> Inl err | Inr config \<Rightarrow>
      (case MergeConfigPaths Visit v config configFiles of
         Inl err \<Rightarrow> Inl (''Error loading config: '' @ err)
       | Inr config \<Rightarrow>
           (let config = (if \<not> HasSuffix (cfg_KVPath config) ''/''
                          then config\<lparr>cfg_KVPath := cfg_KVPath config @ ''/''\<rparr> else config) in
            case ValidateConfig config of
              Some err \<Rightarrow> Inl (''Error parsing config: '' @ err)
            | None \<Rightarrow> Inr config)))"


subsection \<open>Merging\<close>

lemma Merge_simps [simp]: "Merge None x = x" "Merge (Some v) x = v"
  by (simp_all add: Merge_def)

lemma MergeConfig_cases:
  assumes "MergeConfig PD dst src = Inr dst'"
  obtains d where "dst' = mergeThresholds src d"
    and "d = mergeSettings src dst \<or> (\<exists>t. d = (mergeSettings src dst)\<lparr>cfg_Telemetry := t\<rparr>)"
  using assms unfolding MergeConfig_def Let_def by (auto split: sum.splits if_splits)

lemma mergeSettings_fixed [simp]:
  "cfg_SyslogFacility (mergeSettings src d) = cfg_SyslogFacility d"
  "cfg_Interval (mergeSettings src d) = cfg_Interval d"
  "cfg_DeregisterAfter (mergeSettings src d) = cfg_DeregisterAfter d"
  "cfg_CheckUpdateInterval (mergeSettings src d) = cfg_CheckUpdateInterval d"
  "cfg_NodeHealthRefreshInterval (mergeSettings src d) = cfg_NodeHealthRefreshInterval d"
  by (simp_all add: mergeSettings_def)

lemma mergeThresholds_fixed [simp]:
  "cfg_SyslogFacility (mergeThresholds src d) = cfg_SyslogFacility d"
  "cfg_Interval (mergeThresholds src d) = cfg_Interval d"
  "cfg_DeregisterAfter (mergeThresholds src d) = cfg_DeregisterAfter d"
  "cfg_CheckUpdateInterval (mergeThresholds src d) = cfg_CheckUpdateInterval d"
  "cfg_NodeHealthRefreshInterval (mergeThresholds src d) = cfg_NodeHealthRefreshInterval d"
  by (simp_all add: mergeThresholds_def)

lemma MergeConfig_fixed:
  "MergeConfig PD dst src = Inr dst' \<Longrightarrow>
   cfg_SyslogFacility dst' = cfg_SyslogFacility dst \<and> cfg_Interval dst' = cfg_Interval dst \<and>
   cfg_DeregisterAfter dst' = cfg_DeregisterAfter dst \<and>
   cfg_CheckUpdateInterval dst' = cfg_CheckUpdateInterval dst \<and>
   cfg_NodeHealthRefreshInterval dst' = cfg_NodeHealthRefreshInterval dst"
  by (erule MergeConfig_cases) auto

text \<open>A property of configurations that every merge keeps holds after all files are merged.\<close>

lemma visit_all_invariant:
  "visit_all v ps dst = Inr dst' \<Longrightarrow> P dst \<Longrightarrow>
   (\<And>p d d'. P d \<Longrightarrow> v p d = Inr d' \<Longrightarrow> P d') \<Longrightarrow> P dst'"
  by (induction v ps dst rule: visit_all.induct) (auto split: sum.splits)

lemma MergeConfigPaths_invariant:
  assumes "MergeConfigPaths Visit v dst ps = Inr dst'" and "P dst"
    and "\<And>p d d'. P d \<Longrightarrow> v p d = Inr d' \<Longrightarrow> P d'"
  shows "P dst'"
  using assms(1,2)
proof (induction ps arbitrary: dst)
  case (Cons p ps)
  then obtain fs d where "visit_all v fs dst = Inr d" and d: "MergeConfigPaths Visit v d ps = Inr dst'"
    by (auto split: sum.splits)
  then have "P d" using visit_all_invariant [of v fs dst d P] Cons.prems(2) assms(3) by blast
  with Cons.IH [OF d] show ?case by simp
qed simp

lemma visitor_cases:
  "visitor hcl PD op p d = Inr d' \<Longrightarrow> d' = d \<or> (\<exists>src. MergeConfig PD d src = Inr d')"
  by (auto simp: visitor_def split: sum.splits if_splits)

subsection \<open>Properties\<close>

lemma built_config:
  assumes "BuildConfig uuid Visit (visitor hcl PD os_Open) files = Inr c"
  shows "HasSuffix (cfg_KVPath c) ''/'' \<and> cfg_PingType c \<in> {''udp'', ''socket''} \<and>
    1000000000 \<le> cfg_CoordinateUpdateInterval c \<and> 0 \<le> cfg_PassingThreshold c \<and>
    0 \<le> cfg_CriticalThreshold c \<and> cfg_Interval c = 10 * Second \<and> cfg_DeregisterAfter c = 72 * Hour \<and>
    cfg_CheckUpdateInterval c = 5 * Minute \<and> cfg_NodeHealthRefreshInterval c = Hour"
proof -
  obtain d m where d: "DefaultConfig uuid = Inr d"
    and m: "MergeConfigPaths Visit (visitor hcl PD os_Open) d files = Inr m"
    and c: "c = (if \<not> HasSuffix (cfg_KVPath m) ''/'' then m\<lparr>cfg_KVPath := cfg_KVPath m @ ''/''\<rparr> else m)"
    and v: "ValidateConfig c = None"
    using assms by (auto simp: BuildConfig_def Let_def split: sum.splits option.splits)
  let ?P = "\<lambda>x. cfg_Interval x = 10 * Second \<and> cfg_DeregisterAfter x = 72 * Hour \<and>
    cfg_CheckUpdateInterval x = 5 * Minute \<and> cfg_NodeHealthRefreshInterval x = Hour"
  have "?P d" using d by (auto simp: DefaultConfig_def split: sum.splits)
  then have "?P m"
    by (rule MergeConfigPaths_invariant [where P = ?P, OF m])
      (metis visitor_cases MergeConfig_fixed)
  moreover have "HasSuffix (cfg_KVPath c) ''/''" unfolding c by (auto simp: HasSuffix_def)
  ultimately show ?thesis using v unfolding c
    by (auto simp: ValidateConfig_def PingTypeUDP_def PingTypeSocket_def split: if_splits)
qed

text \<open>C34. A configuration that \<^verbatim>\<open>BuildConfig\<close> returns, from whatever files, is usable by the rest of the
  program: the KV path ends in a slash, the ping type is one of the two known ones, nodes are
  probed at most once per second, no threshold is negative, and the settings that no file can
  change have their defaults.\<close>

theorem BuildConfig_valid:
  assumes "BuildConfig uuid Visit (visitor hcl PD os_Open) files = Inr c"
  shows "HasSuffix (cfg_KVPath c) ''/'' \<and> cfg_PingType c \<in> {''udp'', ''socket''} \<and>
    1000000000 \<le> cfg_CoordinateUpdateInterval c \<and> 0 \<le> cfg_PassingThreshold c \<and>
    0 \<le> cfg_CriticalThreshold c \<and> cfg_Interval c = 10 * Second \<and> cfg_DeregisterAfter c = 72 * Hour \<and>
    cfg_CheckUpdateInterval c = 5 * Minute \<and> cfg_NodeHealthRefreshInterval c = Hour"
  using assms by (rule built_config)

text \<open>A library that knows one file, for the witness.\<close>

definition empty_human :: HumanConfig where
  "empty_human = \<lparr>hum_LogLevel = None,
     hum_EnableDebug = None,
     hum_EnableSyslog = None,
     hum_EnableAgentless = None,
     hum_SyslogFacility = None,
     hum_LogJSON = None,
     hum_LogFile = None,
     hum_LogRotateBytes = None,
     hum_LogRotateMaxFiles = None,
     hum_LogRotateDuration = None,
     hum_InstanceID = None,
     hum_Service = None,
     hum_Tag = None,
     hum_KVPath = None,
     hum_NodeMeta = [],
     hum_Partition = None,
     hum_NodeReconnectTimeout = None,
     hum_NodeProbeInterval = None,
     hum_BatchFlushInterval = None,
     hum_HTTPAddr = None,
     hum_Token = None,
     hum_Datacenter = None,
     hum_CAFile = None,
     hum_CAPath = None,
     hum_CertFile = None,
     hum_KeyFile = None,
     hum_TLSServerName = None,
     hum_HTTPSCAFile = None,
     hum_HTTPSCAPath = None,
     hum_HTTPSCertFile = None,
     hum_HTTPSKeyFile = None,
     hum_ClientAddress = None,
     hum_PingType = None,
     hum_DisableCoordinateUpdates = None,
     hum_StaleReadNodes = None,
     hum_Telemetry = [],
     hum_PassingThreshold = None,
     hum_CriticalThreshold = None\<rparr>"

definition sample_hcl :: "(unit, unit, unit) hcl_lib" where
  "sample_hcl = \<lparr>hcl_Parse = (\<lambda>s. Inr ()), hcl_ObjectList = Some, hcl_FilterCount = (\<lambda>l n. 0),
     hcl_DecodeObject = Inr, flags_BoolToBoolValueFunc = (\<lambda>f t d. Inr (Inr d)), flags_StringToDurationValueFunc = (\<lambda>f t d. Inr (Inr d)),
     flags_StringToStringValueFunc = (\<lambda>f t d. Inr (Inr d)), ms_ComposeDecodeHookFunc = last, ms_Decode = (\<lambda>h m. Inr (empty_human\<lparr>hum_KVPath := Some ''esm'',
       hum_PingType := Some ''socket'', hum_SyslogFacility := Some ''LOCAL5''\<rparr>))\<rparr>"

definition sample_file :: "string \<Rightarrow> open_file" where
  "sample_file p = Inr (Inr \<lparr>fi_Name = p, fi_Size = 10, fi_Content = Inr ''...''\<rparr>)"

definition no_duration :: "string \<Rightarrow> string + int" where
  "no_duration s = Inl ''invalid''"

definition sample_build :: "string + Config" where
  "sample_build = BuildConfig (Inr ''id'') (\<lambda>p. Inr [p]) (visitor sample_hcl no_duration sample_file) [''a.hcl'']"

theorem BuildConfig_valid_witness:
  "\<exists>c. sample_build = Inr c \<and> cfg_KVPath c = ''esm/'' \<and> HasSuffix (cfg_KVPath c) ''/'' \<and>
     cfg_Interval c = 10 * Second"
proof -
  have "case sample_build of Inl e \<Rightarrow> False | Inr c \<Rightarrow> cfg_KVPath c = ''esm/''" by code_simp
  then obtain c where c: "sample_build = Inr c" "cfg_KVPath c = ''esm/''" by (auto split: sum.splits)
  from BuildConfig_valid [OF c(1) [unfolded sample_build_def]] c show ?thesis by blast
qed

text \<open>The facility for syslog that a file sets has no effect: merging gives the same configuration
  whatever \<^verbatim>\<open>syslog_facility\<close> says.\<close>

theorem syslog_facility_ignored:
  "MergeConfig PD dst (src\<lparr>hum_SyslogFacility := f\<rparr>) = MergeConfig PD dst src"
proof -
  let ?s = "src\<lparr>hum_SyslogFacility := f\<rparr>"
  have eq: "mergeSettings ?s = mergeSettings src" "mergeThresholds ?s = mergeThresholds src"
    "hum_Telemetry ?s = hum_Telemetry src"
    by (rule ext, simp add: mergeSettings_def, rule ext, simp add: mergeThresholds_def, simp)
  show ?thesis unfolding MergeConfig_def Let_def eq ..
qed

text \<open>The value that the last file to set an option gave it.\<close>

definition last_set :: "'a option list \<Rightarrow> 'a \<Rightarrow> 'a" where
  "last_set vs d = fold Merge vs d"

fun merge_all :: "(string \<Rightarrow> string + int) \<Rightarrow> HumanConfig list \<Rightarrow> Config \<Rightarrow> string + Config" where
  "merge_all PD [] dst = Inr dst"
| "merge_all PD (s # ss) dst = (case MergeConfig PD dst s of Inl e \<Rightarrow> Inl e | Inr d \<Rightarrow> merge_all PD ss d)"

lemma merge_all_field:
  assumes "merge_all PD ss dst = Inr dst'"
    and "\<And>d s d'. MergeConfig PD d s = Inr d' \<Longrightarrow> get d' = Merge (hget s) (get d)"
  shows "get dst' = last_set (map hget ss) (get dst)"
  using assms(1)
proof (induction ss arbitrary: dst)
  case (Cons s ss)
  then obtain d where "MergeConfig PD dst s = Inr d" "merge_all PD ss d = Inr dst'"
    by (auto split: sum.splits)
  with Cons.IH assms(2) show ?case by (simp add: last_set_def)
qed (simp add: last_set_def)

lemma mergeSettings_fields [simp]:
  "cfg_LogLevel (mergeSettings s d) = Merge (hum_LogLevel s) (cfg_LogLevel d)"
  "cfg_LogJSON (mergeSettings s d) = Merge (hum_LogJSON s) (cfg_LogJSON d)"
  "cfg_EnableDebug (mergeSettings s d) = Merge (hum_EnableDebug s) (cfg_EnableDebug d)"
  "cfg_EnableSyslog (mergeSettings s d) = Merge (hum_EnableSyslog s) (cfg_EnableSyslog d)"
  "cfg_InstanceID (mergeSettings s d) = Merge (hum_InstanceID s) (cfg_InstanceID d)"
  "cfg_Service (mergeSettings s d) = Merge (hum_Service s) (cfg_Service d)"
  "cfg_Partition (mergeSettings s d) = Merge (hum_Partition s) (cfg_Partition d)"
  "cfg_Tag (mergeSettings s d) = Merge (hum_Tag s) (cfg_Tag d)"
  "cfg_KVPath (mergeSettings s d) = Merge (hum_KVPath s) (cfg_KVPath d)"
  "cfg_NodeReconnectTimeout (mergeSettings s d) = Merge (hum_NodeReconnectTimeout s) (cfg_NodeReconnectTimeout d)"
  "cfg_CoordinateUpdateInterval (mergeSettings s d) = Merge (hum_NodeProbeInterval s) (cfg_CoordinateUpdateInterval d)"
  "cfg_BatchFlushInterval (mergeSettings s d) = Merge (hum_BatchFlushInterval s) (cfg_BatchFlushInterval d)"
  "cfg_HTTPAddr (mergeSettings s d) = Merge (hum_HTTPAddr s) (cfg_HTTPAddr d)"
  "cfg_Token (mergeSettings s d) = Merge (hum_Token s) (cfg_Token d)"
  "cfg_Datacenter (mergeSettings s d) = Merge (hum_Datacenter s) (cfg_Datacenter d)"
  "cfg_CAFile (mergeSettings s d) = Merge (hum_CAFile s) (cfg_CAFile d)"
  "cfg_CAPath (mergeSettings s d) = Merge (hum_CAPath s) (cfg_CAPath d)"
  "cfg_CertFile (mergeSettings s d) = Merge (hum_CertFile s) (cfg_CertFile d)"
  "cfg_KeyFile (mergeSettings s d) = Merge (hum_KeyFile s) (cfg_KeyFile d)"
  "cfg_TLSServerName (mergeSettings s d) = Merge (hum_TLSServerName s) (cfg_TLSServerName d)"
  "cfg_HTTPSCAFile (mergeSettings s d) = Merge (hum_HTTPSCAFile s) (cfg_HTTPSCAFile d)"
  "cfg_HTTPSCAPath (mergeSettings s d) = Merge (hum_HTTPSCAPath s) (cfg_HTTPSCAPath d)"
  "cfg_HTTPSCertFile (mergeSettings s d) = Merge (hum_HTTPSCertFile s) (cfg_HTTPSCertFile d)"
  "cfg_HTTPSKeyFile (mergeSettings s d) = Merge (hum_HTTPSKeyFile s) (cfg_HTTPSKeyFile d)"
  "cfg_ClientAddress (mergeSettings s d) = Merge (hum_ClientAddress s) (cfg_ClientAddress d)"
  "cfg_PingType (mergeSettings s d) = Merge (hum_PingType s) (cfg_PingType d)"
  "cfg_DisableCoordinateUpdates (mergeSettings s d) = Merge (hum_DisableCoordinateUpdates s) (cfg_DisableCoordinateUpdates d)"
  "cfg_StaleReadNodes (mergeSettings s d) = Merge (hum_StaleReadNodes s) (cfg_StaleReadNodes d)"
  "cfg_PassingThreshold (mergeSettings s d) = cfg_PassingThreshold d"
  "cfg_CriticalThreshold (mergeSettings s d) = cfg_CriticalThreshold d"
  "cfg_LogFile (mergeSettings s d) = cfg_LogFile d"
  "cfg_LogRotateBytes (mergeSettings s d) = cfg_LogRotateBytes d"
  "cfg_LogRotateMaxFiles (mergeSettings s d) = cfg_LogRotateMaxFiles d"
  "cfg_LogRotateDuration (mergeSettings s d) = cfg_LogRotateDuration d"
  "cfg_EnableAgentless (mergeSettings s d) = cfg_EnableAgentless d"
  by (simp_all add: mergeSettings_def)

lemma mergeThresholds_fields [simp]:
  "cfg_PassingThreshold (mergeThresholds s d) = Merge (hum_PassingThreshold s) (cfg_PassingThreshold d)"
  "cfg_CriticalThreshold (mergeThresholds s d) = Merge (hum_CriticalThreshold s) (cfg_CriticalThreshold d)"
  "cfg_LogFile (mergeThresholds s d) = Merge (hum_LogFile s) (cfg_LogFile d)"
  "cfg_LogRotateBytes (mergeThresholds s d) = Merge (hum_LogRotateBytes s) (cfg_LogRotateBytes d)"
  "cfg_LogRotateMaxFiles (mergeThresholds s d) = Merge (hum_LogRotateMaxFiles s) (cfg_LogRotateMaxFiles d)"
  "cfg_LogRotateDuration (mergeThresholds s d) = Merge (hum_LogRotateDuration s) (cfg_LogRotateDuration d)"
  "cfg_EnableAgentless (mergeThresholds s d) = Merge (hum_EnableAgentless s) (cfg_EnableAgentless d)"
  "cfg_LogLevel (mergeThresholds s d) = cfg_LogLevel d"
  "cfg_LogJSON (mergeThresholds s d) = cfg_LogJSON d"
  "cfg_EnableDebug (mergeThresholds s d) = cfg_EnableDebug d"
  "cfg_EnableSyslog (mergeThresholds s d) = cfg_EnableSyslog d"
  "cfg_InstanceID (mergeThresholds s d) = cfg_InstanceID d"
  "cfg_Service (mergeThresholds s d) = cfg_Service d"
  "cfg_Partition (mergeThresholds s d) = cfg_Partition d"
  "cfg_Tag (mergeThresholds s d) = cfg_Tag d"
  "cfg_KVPath (mergeThresholds s d) = cfg_KVPath d"
  "cfg_NodeReconnectTimeout (mergeThresholds s d) = cfg_NodeReconnectTimeout d"
  "cfg_CoordinateUpdateInterval (mergeThresholds s d) = cfg_CoordinateUpdateInterval d"
  "cfg_BatchFlushInterval (mergeThresholds s d) = cfg_BatchFlushInterval d"
  "cfg_HTTPAddr (mergeThresholds s d) = cfg_HTTPAddr d"
  "cfg_Token (mergeThresholds s d) = cfg_Token d"
  "cfg_Datacenter (mergeThresholds s d) = cfg_Datacenter d"
  "cfg_CAFile (mergeThresholds s d) = cfg_CAFile d"
  "cfg_CAPath (mergeThresholds s d) = cfg_CAPath d"
  "cfg_CertFile (mergeThresholds s d) = cfg_CertFile d"
  "cfg_KeyFile (mergeThresholds s d) = cfg_KeyFile d"
  "cfg_TLSServerName (mergeThresholds s d) = cfg_TLSServerName d"
  "cfg_HTTPSCAFile (mergeThresholds s d) = cfg_HTTPSCAFile d"
  "cfg_HTTPSCAPath (mergeThresholds s d) = cfg_HTTPSCAPath d"
  "cfg_HTTPSCertFile (mergeThresholds s d) = cfg_HTTPSCertFile d"
  "cfg_HTTPSKeyFile (mergeThresholds s d) = cfg_HTTPSKeyFile d"
  "cfg_ClientAddress (mergeThresholds s d) = cfg_ClientAddress d"
  "cfg_PingType (mergeThresholds s d) = cfg_PingType d"
  "cfg_DisableCoordinateUpdates (mergeThresholds s d) = cfg_DisableCoordinateUpdates d"
  "cfg_StaleReadNodes (mergeThresholds s d) = cfg_StaleReadNodes d"
  by (simp_all add: mergeThresholds_def)

lemma MergeConfig_field:
  assumes "MergeConfig PD d s = Inr d'"
    and "\<And>d. get (mergeThresholds s (mergeSettings s d)) = v d"
    and "\<And>d t. get (mergeThresholds s ((mergeSettings s d)\<lparr>cfg_Telemetry := t\<rparr>)) = v d"
  shows "get d' = v d"
  using assms(1) by (rule MergeConfig_cases) (auto simp: assms(2,3))



end
