(* ===== verification/Agent_Core.thy ===== *)
theory Agent_Core
  imports Config Consul_Api
begin

text \<open>
  \<^verbatim>\<open>src/agent.go\<close>, first part: the agent's state, its names and options, registration with
  Consul (through a local agent, or in the catalog in agentless mode), the loops that keep it
  registered, and the detection of the Consul edition and versions.

  A long-running loop is one definition per pass, over the state of the servers; sleeping
  and logging leave no trace.
\<close>

definition LeaderKey :: string where
  "LeaderKey = ''leader''"

definition maxRetriesEntDetection :: nat where
  "maxRetriesEntDetection = 3"

definition sessionTTL :: string where
  "sessionTTL = ''30s''"

definition sessionMonitorRetries :: int where
  "sessionMonitorRetries = 6"

definition agentTTL :: int where
  "agentTTL = 30 * Second"

definition retryTime :: int where
  "retryTime = 10 * Second"

definition deregisterTime :: int where
  "deregisterTime = 30 * Minute"

definition minimumInterval :: int where
  "minimumInterval = 1 * Second"

record lastKnownStatus =
  lks_status :: string
  lks_time :: int

definition isExpired :: "lastKnownStatus \<Rightarrow> int \<Rightarrow> int \<Rightarrow> bool" where
  "isExpired s ttl now = (let statusAge = now - lks_time s in statusAge \<ge> ttl)"

record Agent =
  config :: Config
  agent_id :: string
  shutdown :: bool \<comment> \<open>with \<^verbatim>\<open>shutdownCh\<close> closed exactly when it is set\<close>
  inflightPings :: "(string, unit) go_map"
  knownNodeStatuses :: "(string, lastKnownStatus) go_map"
  namespaceWildcard :: string
  namespaceWildcardDetected :: bool

definition isAgentLess :: "Agent \<Rightarrow> bool" where
  "isAgentLess a = cfg_EnableAgentless (config a)"

text \<open>Closing \<^verbatim>\<open>shutdownCh\<close> a second time would panic; the second result counts the closings.\<close>

definition Shutdown :: "Agent \<times> nat \<Rightarrow> Agent \<times> nat" where
  "Shutdown st = (case st of (a, closed) \<Rightarrow>
     if \<not> shutdown a then (a\<lparr>shutdown := True\<rparr>, closed + 1) else (a, closed))"


subsection \<open>Names and options\<close>

definition serviceID :: "Agent \<Rightarrow> string" where
  "serviceID a = cfg_Service (config a) @ '':'' @ agent_id a"

definition serviceMeta :: "(string, string) go_map" where
  "serviceMeta = [(''external-source'', ''consul-esm'')]"

definition agentlessCheckID :: "Agent \<Rightarrow> string" where
  "agentlessCheckID a = serviceID a @ '':session-check''"

definition agentlessSessionID :: "Agent \<Rightarrow> string" where
  "agentlessSessionID a = serviceID a @ '':health-session''"

definition agentlessNodeID :: "Agent \<Rightarrow> string" where
  "agentlessNodeID a = serviceID a @ '':node''"

definition kvNodeListPath :: "Agent \<Rightarrow> string" where
  "kvNodeListPath a = cfg_KVPath (config a) @ ''agents/''"

definition PartitionOrEmpty :: "Agent \<Rightarrow> string" where
  "PartitionOrEmpty a = (if cfg_Partition (config a) = '''' then '''' else cfg_Partition (config a))"

definition HasPartition :: "Agent \<Rightarrow> (string \<Rightarrow> 'a \<Rightarrow> 'a) \<Rightarrow> 'a \<Rightarrow> 'a" where
  "HasPartition a callback x =
     (let partition = PartitionOrEmpty a in
      if partition = '''' \<or> ToLower partition = ''default'' then x
      else callback (cfg_Partition (config a)) x)"

definition ConsulQueryOption :: "Agent \<Rightarrow> QueryOptions" where
  "ConsulQueryOption a = HasPartition a (\<lambda>p o'. o'\<lparr>qo_Partition := p\<rparr>) zero_opts"

record WriteOptions =
  wo_Datacenter :: string
  wo_Partition :: string

definition ConsulWriteOption :: "Agent \<Rightarrow> WriteOptions" where
  "ConsulWriteOption a = HasPartition a (\<lambda>p o'. o'\<lparr>wo_Partition := p\<rparr>)
     \<lparr>wo_Datacenter = '''', wo_Partition = ''''\<rparr>"


subsection \<open>What is registered\<close>

record reg_check =
  rc_Node :: string
  rc_CheckID :: string
  rc_Name :: string
  rc_Status :: string
  rc_SessionName :: string
  rc_DeregisterCriticalServiceAfter :: int
  rc_Type :: string

record CatalogRegistration =
  cr_Node :: string
  cr_Address :: string
  cr_Checks :: "reg_check list"
  cr_Service :: "AgentService option"
  cr_SkipNodeUpdate :: bool

definition createCatalogRegistration :: "Agent \<Rightarrow> bool \<Rightarrow> bool \<Rightarrow> CatalogRegistration" where
  "createCatalogRegistration a addService addChecks =
     (let nodeName = agentlessNodeID a;
          address = ''esm-'' @ serviceID a;
          reg = \<lparr>cr_Node = nodeName, cr_Address = address, cr_Checks = [], cr_Service = None,
                 cr_SkipNodeUpdate = False\<rparr>;
          reg = (if addChecks then
             reg\<lparr>cr_Checks := [\<lparr>rc_Node = nodeName, rc_CheckID = agentlessCheckID a,
               rc_Name = ''Consul External Service Monitor Alive'',
               rc_Status = (if gm_load (cfg_NodeMeta (config a)) ''initial-health'' = Some ''passing''
                            then HealthPassing else HealthCritical),
               rc_SessionName = agentlessSessionID a,
               rc_DeregisterCriticalServiceAfter = deregisterTime, rc_Type = ''session''\<rparr>]\<rparr>
             else reg)
      in if addService then
           reg\<lparr>cr_Service := Some \<lparr>svc_ID = serviceID a, svc_Service = cfg_Service (config a),
             svc_Meta = serviceMeta,
             svc_Tags = (if cfg_Tag (config a) \<noteq> '''' then [cfg_Tag (config a)] else [])\<rparr>\<rparr>
         else reg)"

definition createCatalogHealthCheck :: "Agent \<Rightarrow> string \<Rightarrow> CatalogRegistration" where
  "createCatalogHealthCheck a status =
     (let reg = createCatalogRegistration a False True in
      reg\<lparr>cr_Checks := (cr_Checks reg)[0 := (cr_Checks reg ! 0)\<lparr>rc_Status := status\<rparr>],
          cr_SkipNodeUpdate := True\<rparr>)"

record AgentServiceRegistration =
  asr_ID :: string
  asr_Name :: string
  asr_Meta :: "(string, string) go_map"
  asr_Partition :: string
  asr_Tags :: "string list"

record AgentCheckRegistration =
  acr_ID :: string
  acr_Name :: string
  acr_Notes :: string
  acr_ServiceID :: string
  acr_TTL :: int
  acr_Status :: string
  acr_DeregisterCriticalServiceAfter :: int
  acr_Partition :: string

text \<open>The values of \<^verbatim>\<open>/v1/agent/self\<close> that the source looks at: a string, or something else.\<close>

datatype self_value = SelfString string | SelfOther

type_synonym self_info = "(string, (string, self_value) go_map) go_map"

record 'w agent_client =
  Catalog_Service :: "string \<Rightarrow> string \<Rightarrow> QueryOptions \<Rightarrow> 'w \<Rightarrow> (string + CatalogService list) \<times> 'w"
  Catalog_Node :: "string \<Rightarrow> QueryOptions option \<Rightarrow> 'w \<Rightarrow> (string + api_node option) \<times> 'w"
  Catalog_Register :: "CatalogRegistration \<Rightarrow> WriteOptions \<Rightarrow> 'w \<Rightarrow> string option \<times> 'w"
  Agent_Service :: "string \<Rightarrow> QueryOptions \<Rightarrow> 'w \<Rightarrow> AgentService option \<times> 'w"
  Agent_ServiceRegister :: "AgentServiceRegistration \<Rightarrow> 'w \<Rightarrow> string option \<times> 'w"
  Agent_Services :: "QueryOptions \<Rightarrow> 'w \<Rightarrow> (string + string list) \<times> 'w"
  Agent_CheckRegister :: "AgentCheckRegistration \<Rightarrow> QueryOptions \<Rightarrow> 'w \<Rightarrow> string option \<times> 'w"
  Agent_UpdateTTL :: "string \<Rightarrow> string \<Rightarrow> string \<Rightarrow> QueryOptions \<Rightarrow> 'w \<Rightarrow> string option \<times> 'w"
  Agent_Self :: "'w \<Rightarrow> (string + self_info) \<times> 'w"
  Catalog_DeregisterService :: "string \<Rightarrow> string \<Rightarrow> string \<Rightarrow> WriteOptions \<Rightarrow> 'w \<Rightarrow> string option \<times> 'w"
  Agent_ServiceDeregister :: "string \<Rightarrow> QueryOptions \<Rightarrow> 'w \<Rightarrow> string option \<times> 'w"

datatype reg_error = ApiError string | AlreadyExists string

definition alreadyExistsError_Error :: "string \<Rightarrow> string" where
  "alreadyExistsError_Error sid =
     ''ESM instance with service id '' @ [CHR 0x27] @ sid @ [CHR 0x27] @ '' is already registered with Consul''"

definition containsService :: "string \<Rightarrow> CatalogService list \<Rightarrow> bool" where
  "containsService sid services = list_ex (\<lambda>s. cs_ServiceID s = sid) services"


subsection \<open>Registration\<close>

definition registerCatalog :: "'w agent_client \<Rightarrow> Agent \<Rightarrow> 'w \<Rightarrow> reg_error option \<times> 'w" where
  "registerCatalog cl a w =
     (case Catalog_Service cl (cfg_Service (config a)) '''' (ConsulQueryOption a) w of
        (Inl err, w1) \<Rightarrow> (Some (ApiError err), w1)
      | (Inr services, w1) \<Rightarrow>
          if containsService (serviceID a) services then (Some (AlreadyExists (serviceID a)), w1)
          else
            (let opts = \<lparr>wo_Datacenter = cfg_Datacenter (config a), wo_Partition = PartitionOrEmpty a\<rparr> in
             case Catalog_Node cl (agentlessNodeID a) None w1 of
               (Inl err, w2) \<Rightarrow> (Some (ApiError err), w2)
             | (Inr node, w2) \<Rightarrow>
                 (case (if node = None then Catalog_Register cl (createCatalogRegistration a False False) opts w2
                        else (None, w2)) of
                    (Some err, w3) \<Rightarrow> (Some (ApiError err), w3)
                  | (None, w3) \<Rightarrow>
                      (case Catalog_Register cl (createCatalogRegistration a True True) opts w3 of
                         (Some err, w4) \<Rightarrow> (Some (ApiError err), w4)
                       | (None, w4) \<Rightarrow> (None, w4)))))"

definition register :: "'w agent_client \<Rightarrow> Agent \<Rightarrow> 'w \<Rightarrow> reg_error option \<times> 'w" where
  "register cl a w =
     (case Agent_Service cl (serviceID a) (ConsulQueryOption a) w of
        (Some existing, w1) \<Rightarrow> (Some (AlreadyExists (serviceID a)), w1)
      | (None, w1) \<Rightarrow>
          (let service = HasPartition a (\<lambda>p s. s\<lparr>asr_Partition := p\<rparr>)
                 \<lparr>asr_ID = serviceID a, asr_Name = cfg_Service (config a), asr_Meta = serviceMeta,
                  asr_Partition = '''', asr_Tags = []\<rparr>;
               service = (if cfg_Tag (config a) \<noteq> '''' then service\<lparr>asr_Tags := [cfg_Tag (config a)]\<rparr>
                          else service) in
           case Agent_ServiceRegister cl service w1 of
             (Some err, w2) \<Rightarrow> (Some (ApiError err), w2)
           | (None, w2) \<Rightarrow> (None, w2)))"

text \<open>One pass of \<^verbatim>\<open>runRegister\<close> and of \<^verbatim>\<open>runAgentlessRegister\<close> after the timer fired: whether the
  service is known to be registered when the pass ends.\<close>

definition runRegister_pass :: "'w agent_client \<Rightarrow> Agent \<Rightarrow> 'w \<Rightarrow> bool \<times> 'w" where
  "runRegister_pass cl a w =
     (case Agent_Services cl (ConsulQueryOption a) w of
        (Inl err, w1) \<Rightarrow> (False, w1)
      | (Inr services, w1) \<Rightarrow>
          if serviceID a \<notin> set services then
            (case register cl a w1 of (Some err, w2) \<Rightarrow> (False, w2) | (None, w2) \<Rightarrow> (True, w2))
          else (True, w1))"

definition runAgentlessRegister_pass :: "'w agent_client \<Rightarrow> Agent \<Rightarrow> 'w \<Rightarrow> bool \<times> 'w" where
  "runAgentlessRegister_pass cl a w =
     (case Catalog_Service cl (cfg_Service (config a)) '''' (ConsulQueryOption a) w of
        (Inl err, w1) \<Rightarrow> (False, w1)
      | (Inr services, w1) \<Rightarrow>
          if \<not> containsService (serviceID a) services then
            (case registerCatalog cl a w1 of (Some err, w2) \<Rightarrow> (False, w2) | (None, w2) \<Rightarrow> (True, w2))
          else (True, w1))"

text \<open>The two states of \<^verbatim>\<open>runTTL\<close>: about to register the TTL check, or refreshing it.\<close>

datatype ttl_state = TTL_Register | TTL_Refresh | TTL_Done

definition ttlID :: "Agent \<Rightarrow> string" where
  "ttlID a = serviceID a @ '':agent-ttl''"

text \<open>The registration has the durations themselves, the request their printed form.\<close>

definition ttl_check :: "Agent \<Rightarrow> AgentCheckRegistration" where
  "ttl_check a = HasPartition a (\<lambda>p c. c\<lparr>acr_Partition := p\<rparr>)
     \<lparr>acr_ID = ttlID a, acr_Name = ''Consul External Service Monitor Alive'',
      acr_Notes = ''This check is periodically updated as long as the agent is alive.'',
      acr_ServiceID = serviceID a, acr_TTL = agentTTL, acr_Status = HealthPassing,
      acr_DeregisterCriticalServiceAfter = deregisterTime, acr_Partition = ''''\<rparr>"

text \<open>The first argument is the branch that the \<^verbatim>\<open>select\<close> of the refresh loop takes: the timer's, or the one of the
  shutdown channel, which is ready only when the channel is closed.\<close>

definition runTTL_step :: "bool \<Rightarrow> 'w agent_client \<Rightarrow> Agent \<Rightarrow> ttl_state \<times> 'w \<Rightarrow> ttl_state \<times> 'w" where
  "runTTL_step timer cl a st =
     (case st of
        (TTL_Register, w) \<Rightarrow>
          if shutdown a then (TTL_Done, w)
          else (case Agent_CheckRegister cl (ttl_check a) (ConsulQueryOption a) w of
                  (Some err, w1) \<Rightarrow> (TTL_Register, w1)
                | (None, w1) \<Rightarrow> (TTL_Refresh, w1))
      | (TTL_Refresh, w) \<Rightarrow>
          if \<not> timer then (if shutdown a then TTL_Done else TTL_Refresh, w)
          else (case Agent_UpdateTTL cl (ttlID a) '''' HealthPassing (ConsulQueryOption a) w of
                  (Some err, w1) \<Rightarrow> (TTL_Register, w1)
                | (None, w1) \<Rightarrow> (TTL_Refresh, w1))
      | (TTL_Done, w) \<Rightarrow> (TTL_Done, w))"

text \<open>The beginning and the end of \<^verbatim>\<open>Run\<close>: the initial registration, whose error ends the agent, and
  the clean-up after shutdown.\<close>

definition Run_start :: "'w agent_client \<Rightarrow> Agent \<Rightarrow> 'w \<Rightarrow> reg_error option \<times> 'w" where
  "Run_start cl a w = (if isAgentLess a then registerCatalog cl a w else register cl a w)"

datatype goroutine = RunHTTP | RunRegister | RunAgentlessRegister | RunTTL | RunAgentlessSession
  | WatchNodeList | RunLeaderLoop

definition Run_goroutines :: "Agent \<Rightarrow> goroutine list" where
  "Run_goroutines a = [RunHTTP, if isAgentLess a then RunAgentlessRegister else RunRegister,
     if isAgentLess a then RunAgentlessSession else RunTTL, WatchNodeList, RunLeaderLoop]"

text \<open>The address and the routes that \<^verbatim>\<open>runHTTP\<close> serves; None when it returns at once.\<close>

definition runHTTP :: "Agent \<Rightarrow> (string \<times> string list) option" where
  "runHTTP a =
     (if cfg_ClientAddress (config a) = '''' then None
      else
        (let enableMetrics = tc_PrometheusExpiration (cfg_Telemetry (config a)) \<ge> 1 in
         if \<not> enableMetrics \<and> \<not> cfg_EnableDebug (config a) then None
         else Some (cfg_ClientAddress (config a),
           (if enableMetrics then [''/metrics''] else []) @
           (if cfg_EnableDebug (config a)
            then [''/debug/pprof/'', ''/debug/pprof/cmdline'', ''/debug/pprof/profile'',
                  ''/debug/pprof/symbol'', ''/debug/pprof/trace''] else []))))"

text \<open>When the shutdown channel is closed, the server gets five seconds: the deadline of its shutdown at time \<open>now\<close>.\<close>

definition runHTTP_stop :: "Agent \<Rightarrow> int \<Rightarrow> int option" where
  "runHTTP_stop a now =
     (case runHTTP a of
        None \<Rightarrow> None
      | Some srv \<Rightarrow> if shutdown a then Some (now + 5 * Second) else None)"

definition Run_cleanup :: "'w agent_client \<Rightarrow> Agent \<Rightarrow> 'w \<Rightarrow> 'w" where
  "Run_cleanup cl a w =
     (if isAgentLess a
      then snd (Catalog_DeregisterService cl (agentlessNodeID a) (serviceID a) (PartitionOrEmpty a)
                  (ConsulWriteOption a) w)
      else snd (Agent_ServiceDeregister cl (serviceID a) (ConsulQueryOption a) w))"

end
