(* ===== verification/Version.thy ===== *)
theory Version
  imports Esm_Prelude
begin

text \<open>
  \<^verbatim>\<open>src/version/version.go\<close>: the program's version string and the check of the versions of Consul.
  The package's variables that the linker sets are a record; \<^verbatim>\<open>go-version\<close> is an argument: its
  parser (\<open>None\<close> on an error) and the constraint's check (of \<open>None\<close> for the nil version, on which
  it may panic).
\<close>

definition consulVersionConstraint :: string where
  "consulVersionConstraint = ''>= 1.4.1''"

text \<open>\<^verbatim>\<open>init\<close>, which runs before \<^verbatim>\<open>main\<close>: the parsed constraint, or the message with which the program ends. The
  parser of constraints is an argument.\<close>

definition version_init :: "(string \<Rightarrow> string + 'c) \<Rightarrow> string + 'c" where
  "version_init NewConstraint =
     (case NewConstraint consulVersionConstraint of
        Inl err \<Rightarrow> Inl (''invalid Consul version constraint '' @ [CHR 0x22] @ consulVersionConstraint @ [CHR 0x22] @ '': '' @ err)
      | Inr vc \<Rightarrow> Inr vc)"

record version_vars =
  vv_Name :: string
  vv_Version :: string
  vv_VersionPrerelease :: string
  vv_GitCommit :: string

definition GetHumanVersion :: "version_vars \<Rightarrow> string" where
  "GetHumanVersion g =
     (let version = vv_Name g @ '' v'' @ vv_Version g;
          version = (if vv_VersionPrerelease g \<noteq> '''' then version @ ''-'' @ vv_VersionPrerelease g else version);
          version = (if vv_GitCommit g \<noteq> '''' then version @ '' ('' @ vv_GitCommit g @ '')'' else version)
      in filter (\<lambda>c. c \<noteq> CHR 0x27) version)"

definition GetConsulVersionConstraint :: string where
  "GetConsulVersionConstraint = consulVersionConstraint"

definition NewConsulVersionError :: "string \<Rightarrow> string list \<Rightarrow> string" where
  "NewConsulVersionError Version consulVersions =
     (let versions = Join consulVersions '', '' in
      [CHR 0x0A] @ ''Consul ESM version '' @ Version @
      '' is incompatible with the running versions of the local'' @ [CHR 0x0A] @
      ''Consul agent or Consul servers ('' @ versions @
      ''), please refer to the documentation'' @ [CHR 0x0A] @
      ''to safely upgrade Consul or change to a version of ESM that is compatible.'' @ [CHR 0x0A] @
      [CHR 0x0A] @ ''https://www.consul.io/docs/upgrading.html'' @ [CHR 0x0A])"

text \<open>\<^verbatim>\<open>strings.SplitN(s, "-", 2)[0]\<close>.\<close>

definition trimPrerelease :: "string \<Rightarrow> string" where
  "trimPrerelease s = takeWhile (\<lambda>c. c \<noteq> CHR ''-'') s"

text \<open>One round of the loop over the versions: the unsupported ones so far.\<close>

definition checkVersion :: "(string \<Rightarrow> 'v option) \<Rightarrow> ('v option \<Rightarrow> bool res) \<Rightarrow> string \<Rightarrow> string list \<Rightarrow>
    string list res" where
  "checkVersion NewSemver Check s unsupported =
     (let v = NewSemver (trimPrerelease s);
          unsupported = (if v = None then unsupported @ [s] else unsupported)
      in bindR (Check v) (\<lambda>ok. Inr (if \<not> ok then unsupported @ [s] else unsupported)))"

definition CheckConsulVersions :: "(string \<Rightarrow> 'v option) \<Rightarrow> ('v option \<Rightarrow> bool res) \<Rightarrow> string \<Rightarrow>
    string list \<Rightarrow> (string option) res" where
  "CheckConsulVersions NewSemver Check Version versions =
     (if length versions = 0 then Inr (Some ''no Consul versions'')
      else bindR (foldR (checkVersion NewSemver Check) versions []) (\<lambda>unsupported.
        if length unsupported \<noteq> 0 then Inr (Some (NewConsulVersionError Version unsupported)) else Inr None))"


subsection \<open>The version check\<close>

lemma checkVersion_parsed:
  "NewSemver (trimPrerelease s) = Some v \<Longrightarrow> Check (Some v) = Inr (sat v) \<Longrightarrow>
   checkVersion NewSemver Check s us = Inr (if sat v then us else us @ [s])"
  by (simp add: checkVersion_def)

lemma foldR_checkVersion_parsed:
  assumes "\<forall>v. Check (Some v) = Inr (sat v)" and "\<forall>s \<in> set vs. NewSemver (trimPrerelease s) \<noteq> None"
  shows "foldR (checkVersion NewSemver Check) vs us =
    Inr (us @ filter (\<lambda>s. \<not> sat (the (NewSemver (trimPrerelease s)))) vs)"
  using assms(2)
proof (induction vs arbitrary: us)
  case (Cons s vs)
  then obtain v where v: "NewSemver (trimPrerelease s) = Some v" by auto
  show ?case using Cons checkVersion_parsed [of NewSemver s v Check sat us] assms(1) v by simp
qed simp

text \<open>Versions that were found unsupported stay so.\<close>

lemma foldR_checkVersion_mono:
  "foldR (checkVersion NewSemver Check) vs us = Inr us' \<Longrightarrow> length us \<le> length us'"
  by (induction vs arbitrary: us)
    (force simp: checkVersion_def bindR_def Let_def split: sum.splits if_splits)+

lemma foldR_checkVersion_nil:
  assumes "\<forall>v. Check (Some v) = Inr (sat v)" and "\<exists>s \<in> set vs. NewSemver (trimPrerelease s) = None"
  shows "case Check None of Inl f \<Rightarrow> foldR (checkVersion NewSemver Check) vs us = Inl f
    | Inr b \<Rightarrow> \<exists>us'. foldR (checkVersion NewSemver Check) vs us = Inr us' \<and> us' \<noteq> []"
  using assms(2)
proof (induction vs arbitrary: us)
  case (Cons s vs)
  show ?case
  proof (cases "NewSemver (trimPrerelease s)")
    case (Some v)
    with Cons checkVersion_parsed [of NewSemver s v Check sat us] assms(1) show ?thesis
      by (cases "Check None") auto
  next
    case None
    show ?thesis
    proof (cases "Check None")
      case (Inr b)
      have total: "\<exists>us'. foldR (checkVersion NewSemver Check) vs us = Inr us'" for us
      proof -
        have "\<exists>t. checkVersion NewSemver Check x y = Inr t" for x y
          using assms(1) Inr by (cases "NewSemver (trimPrerelease x)") (simp_all add: checkVersion_def Let_def)
        then show ?thesis
          using foldR_returns [of "\<lambda>_. True" us vs "checkVersion NewSemver Check"] by blast
      qed
      let ?us = "if b then us @ [s] else us @ [s, s]"
      obtain us' where us': "foldR (checkVersion NewSemver Check) vs ?us = Inr us'" using total by blast
      with foldR_checkVersion_mono [OF us'] show ?thesis using None Inr
        by (auto simp: checkVersion_def split: if_splits)
    qed (simp add: None checkVersion_def bindR_def)
  qed
qed simp

lemma checked_versions:
  assumes "\<forall>v. Check (Some v) = Inr (sat v)"
  shows "(CheckConsulVersions NewSemver Check V vs = Inr None \<longleftrightarrow>
      vs \<noteq> [] \<and> (\<forall>s \<in> set vs. \<exists>v. NewSemver (trimPrerelease s) = Some v \<and> sat v)) \<and>
    (vs \<noteq> [] \<and> (\<forall>s \<in> set vs. NewSemver (trimPrerelease s) \<noteq> None) \<longrightarrow>
      CheckConsulVersions NewSemver Check V vs =
      (let bad = filter (\<lambda>s. \<not> sat (the (NewSemver (trimPrerelease s)))) vs in
       Inr (if bad = [] then None else Some (NewConsulVersionError V bad)))) \<and>
    (\<forall>f. (\<exists>s \<in> set vs. NewSemver (trimPrerelease s) = None) \<and> Check None = Inl f \<longrightarrow>
      CheckConsulVersions NewSemver Check V vs = Inl f)"
proof (cases "\<forall>s \<in> set vs. NewSemver (trimPrerelease s) \<noteq> None")
  case True
  let ?bad = "filter (\<lambda>s. \<not> sat (the (NewSemver (trimPrerelease s)))) vs"
  have eq: "vs \<noteq> [] \<Longrightarrow> CheckConsulVersions NewSemver Check V vs =
      Inr (if ?bad = [] then None else Some (NewConsulVersionError V ?bad))"
    using foldR_checkVersion_parsed [OF assms True, of "[]"] by (simp add: CheckConsulVersions_def)
  have "vs = [] \<Longrightarrow> CheckConsulVersions NewSemver Check V vs \<noteq> Inr None"
    by (simp add: CheckConsulVersions_def)
  moreover have "?bad = [] \<longleftrightarrow> (\<forall>s \<in> set vs. \<exists>v. NewSemver (trimPrerelease s) = Some v \<and> sat v)"
    using True by (fastforce simp: filter_empty_conv)
  ultimately show ?thesis using eq True by (cases "vs = []") (simp_all add: Let_def)
next
  case False
  then have un: "\<exists>s \<in> set vs. NewSemver (trimPrerelease s) = None" by auto
  then have ne: "vs \<noteq> []" by auto
  have "CheckConsulVersions NewSemver Check V vs \<noteq> Inr None"
    and "\<And>f. Check None = Inl f \<Longrightarrow> CheckConsulVersions NewSemver Check V vs = Inl f"
    using foldR_checkVersion_nil [OF assms un, of "[]"] ne
    by (auto simp: CheckConsulVersions_def bindR_def split: sum.splits)
  with un False show ?thesis by force
qed

text \<open>C37. The version check accepts exactly the non-empty lists in which every version, without its
  pre-release part, parses and satisfies the constraint. When all versions parse, it returns,
  and its error lists exactly the versions that do not satisfy the constraint, in order.
  When one does not parse, the constraint is still checked, on no version: if the
  constraint library panics on that, so does the version check.\<close>

theorem CheckConsulVersions_correct:
  assumes "\<forall>v. Check (Some v) = Inr (sat v)"
  shows "(CheckConsulVersions NewSemver Check V vs = Inr None \<longleftrightarrow>
      vs \<noteq> [] \<and> (\<forall>s \<in> set vs. \<exists>v. NewSemver (trimPrerelease s) = Some v \<and> sat v)) \<and>
    (vs \<noteq> [] \<and> (\<forall>s \<in> set vs. NewSemver (trimPrerelease s) \<noteq> None) \<longrightarrow>
      CheckConsulVersions NewSemver Check V vs =
      (let bad = filter (\<lambda>s. \<not> sat (the (NewSemver (trimPrerelease s)))) vs in
       Inr (if bad = [] then None else Some (NewConsulVersionError V bad)))) \<and>
    (\<forall>f. (\<exists>s \<in> set vs. NewSemver (trimPrerelease s) = None) \<and> Check None = Inl f \<longrightarrow>
      CheckConsulVersions NewSemver Check V vs = Inl f)"
  using assms by (rule checked_versions)

text \<open>A parser of single digits and the constraint that they are at least 4, for the witness.\<close>

definition digit_semver :: "string \<Rightarrow> nat option" where
  "digit_semver s = (case s of [c] \<Rightarrow> if c \<in> set ''0123456789'' then Some (of_char c - 48) else None | _ \<Rightarrow> None)"

definition at_least_4 :: "nat option \<Rightarrow> bool res" where
  "at_least_4 v = (case v of None \<Rightarrow> Inl NilPanic | Some n \<Rightarrow> Inr (4 \<le> n))"

theorem CheckConsulVersions_correct_witness:
  "CheckConsulVersions digit_semver at_least_4 ''0.11.2'' [''7'', ''5-beta''] = Inr None \<and>
   CheckConsulVersions digit_semver at_least_4 ''0.11.2'' [''7'', ''x''] = Inl NilPanic"
proof -
  have c: "\<forall>v. at_least_4 (Some v) = Inr (4 \<le> v)" by (simp add: at_least_4_def)
  note ok = CheckConsulVersions_correct [OF c, of digit_semver "''0.11.2''"]
  have "\<forall>s \<in> set [''7'', ''5-beta'']. \<exists>v. digit_semver (trimPrerelease s) = Some v \<and> 4 \<le> v"
    by (simp add: digit_semver_def trimPrerelease_def)
  moreover have "digit_semver (trimPrerelease ''x'') = None" "at_least_4 None = Inl NilPanic"
    by (simp_all add: digit_semver_def trimPrerelease_def at_least_4_def)
  ultimately show ?thesis using ok [of "[''7'', ''5-beta'']"] ok [of "[''7'', ''x'']"] by simp
qed

end
