(* ===== verification/Json.thy ===== *)
theory Json
  imports Esm_Prelude
begin

text \<open>
  The part of Go's \<^verbatim>\<open>encoding/json\<close> that carries the node lists from the leader to the agents:
  \<^verbatim>\<open>json.Marshal\<close> of a \<^verbatim>\<open>NodeWatchList\<close>, and \<^verbatim>\<open>json.Unmarshal\<close> into one, for documents in
  which strings are valid UTF-8. Strings are byte lists, as in Go. Not modelled: the limit on
  the nesting depth, and the reuse of a slice when an object repeats a key.
\<close>

subsection \<open>Encoding\<close>

definition hex_digit :: "nat \<Rightarrow> char" where
  "hex_digit n = ''0123456789abcdef'' ! n"

definition escape_char :: "char \<Rightarrow> string" where
  "escape_char c =
     (let n = (of_char c :: nat) in
      if c = CHR 0x22 then [CHR 0x5C, CHR 0x22]
      else if c = CHR 0x5C then [CHR 0x5C, CHR 0x5C]
      else if n = 8 then [CHR 0x5C, CHR ''b'']
      else if n = 12 then [CHR 0x5C, CHR ''f'']
      else if n = 10 then [CHR 0x5C, CHR ''n'']
      else if n = 13 then [CHR 0x5C, CHR ''r'']
      else if n = 9 then [CHR 0x5C, CHR ''t'']
      else if n < 32 \<or> c \<in> set ''<>&''
      then [CHR 0x5C, CHR ''u'', CHR ''0'', CHR ''0'', hex_digit (n div 16), hex_digit (n mod 16)]
      else [c])"

definition marshal_string :: "string \<Rightarrow> string" where
  "marshal_string s = CHR 0x22 # concat (map escape_char s) @ [CHR 0x22]"

text \<open>The lists of the source are nil exactly when they are empty.\<close>

definition marshal_strings :: "string list \<Rightarrow> string" where
  "marshal_strings xs = (if xs = [] then ''null'' else ''['' @ Join (map marshal_string xs) '','' @ '']'')"

record NodeWatchList =
  nw_Nodes :: "string list"
  nw_Probes :: "string list"

definition Marshal :: "NodeWatchList \<Rightarrow> string" where
  "Marshal l = ''{'' @ marshal_string ''Nodes'' @ '':'' @ marshal_strings (nw_Nodes l) @ '','' @
     marshal_string ''Probes'' @ '':'' @ marshal_strings (nw_Probes l) @ ''}''"


subsection \<open>Decoding\<close>

datatype json = JNull | JBool bool | JNum string | JStr string | JArr "json list"
  | JObj "(string \<times> json) list"

definition is_digit :: "char \<Rightarrow> bool" where
  "is_digit c = (CHR ''0'' \<le> c \<and> c \<le> CHR ''9'')"

definition hex_value :: "char \<Rightarrow> nat option" where
  "hex_value c =
     (let n = (of_char c :: nat) in
      if 48 \<le> n \<and> n \<le> 57 then Some (n - 48)
      else if 97 \<le> n \<and> n \<le> 102 then Some (n - 87)
      else if 65 \<le> n \<and> n \<le> 70 then Some (n - 55) else None)"

fun hex4 :: "string \<Rightarrow> (nat \<times> string) option" where
  "hex4 (a # b # c # d # s) =
     (case (hex_value a, hex_value b, hex_value c, hex_value d) of
        (Some w, Some x, Some y, Some z) \<Rightarrow> Some (((w * 16 + x) * 16 + y) * 16 + z, s)
      | _ \<Rightarrow> None)"
| "hex4 _ = None"

definition utf8 :: "nat \<Rightarrow> string" where
  "utf8 n =
     (if n < 128 then [char_of n]
      else if n < 2048 then [char_of (192 + n div 64), char_of (128 + n mod 64)]
      else if n < 65536 then
        [char_of (224 + n div 4096), char_of (128 + n div 64 mod 64), char_of (128 + n mod 64)]
      else [char_of (240 + n div 262144), char_of (128 + n div 4096 mod 64),
        char_of (128 + n div 64 mod 64), char_of (128 + n mod 64)])"

definition unescape :: "char \<Rightarrow> char option" where
  "unescape c =
     (if c = CHR 0x22 \<or> c = CHR 0x5C \<or> c = CHR ''/'' then Some c
      else if c = CHR ''b'' then Some (CHR 0x08) else if c = CHR ''f'' then Some (CHR 0x0C)
      else if c = CHR ''n'' then Some (CHR 0x0A) else if c = CHR ''r'' then Some (CHR 0x0D)
      else if c = CHR ''t'' then Some (CHR 0x09) else None)"

text \<open>A \<^verbatim>\<open>\u\<close> escape after the first four digits: the code point and the rest. Two escapes that form a
  surrogate pair are one code point; a lone surrogate is the replacement character.\<close>

definition surrogate :: "nat \<Rightarrow> string \<Rightarrow> nat \<times> string" where
  "surrogate v s =
     (if 55296 \<le> v \<and> v < 57344 then
        (case s of
           x # y # s1 \<Rightarrow>
             (if v < 56320 \<and> x = CHR 0x5C \<and> y = CHR ''u'' then
                (case hex4 s1 of
                   Some (w, s2) \<Rightarrow> if 56320 \<le> w \<and> w < 57344
                     then (65536 + (v - 55296) * 1024 + (w - 56320), s2) else (65533, s)
                 | None \<Rightarrow> (65533, s))
              else (65533, s))
         | _ \<Rightarrow> (65533, s))
      else (v, s))"

lemma hex4_length: "hex4 s = Some (v, s') \<Longrightarrow> length s' < length s"
  by (induction s rule: hex4.induct) (auto split: option.splits)

lemma surrogate_length: "length (snd (surrogate v s)) \<le> length s"
  by (auto simp: surrogate_def split: list.splits option.splits dest!: hex4_length)

text \<open>The rest of a string literal after its opening quote.\<close>

function parse_chars :: "string \<Rightarrow> (string \<times> string) option" where
  "parse_chars [] = None"
| "parse_chars (c # s) =
     (if c = CHR 0x22 then Some ([], s)
      else if c = CHR 0x5C then
        (case s of
           [] \<Rightarrow> None
         | e # s1 \<Rightarrow>
             if e = CHR ''u'' then
               (case hex4 s1 of
                  None \<Rightarrow> None
                | Some (v, s2) \<Rightarrow>
                    map_option (\<lambda>(t, r). (utf8 (fst (surrogate v s2)) @ t, r))
                      (parse_chars (snd (surrogate v s2))))
             else
               (case unescape e of
                  None \<Rightarrow> None
                | Some x \<Rightarrow> map_option (\<lambda>(t, r). (x # t, r)) (parse_chars s1)))
      else if of_char c < (32 :: nat) then None
      else map_option (\<lambda>(t, r). (c # t, r)) (parse_chars s))"
  by pat_completeness auto
termination
proof (relation "measure length")
  fix c s e s1 v s2 and p :: "nat \<times> string"
  assume "hex4 s1 = Some p" "(v, s2) = p" "s = e # s1"
  then show "(snd (surrogate v s2), c # s) \<in> measure length"
    using hex4_length [of s1 v s2] surrogate_length [of v s2] by auto
qed auto

fun skip_ws :: "string \<Rightarrow> string" where
  "skip_ws [] = []"
| "skip_ws (c # s) = (if c \<in> {CHR '' '', CHR 0x09, CHR 0x0A, CHR 0x0D} then skip_ws s else c # s)"

text \<open>A number: sign, integer part without leading zeros, fraction, exponent.\<close>

definition digits1 :: "string \<Rightarrow> (string \<times> string) option" where
  "digits1 s = (let d = takeWhile is_digit s in if d = [] then None else Some (d, dropWhile is_digit s))"

definition parse_fraction :: "string \<Rightarrow> (string \<times> string) option" where
  "parse_fraction s = (case s of
     c # s1 \<Rightarrow> if c = CHR ''.'' then map_option (\<lambda>(d, r). (c # d, r)) (digits1 s1) else Some ([], s)
   | [] \<Rightarrow> Some ([], s))"

definition parse_exponent :: "string \<Rightarrow> (string \<times> string) option" where
  "parse_exponent s = (case s of
     c # s1 \<Rightarrow> if c = CHR ''e'' \<or> c = CHR ''E'' then
         (case s1 of
            g # s2 \<Rightarrow> if g = CHR ''+'' \<or> g = CHR ''-''
              then map_option (\<lambda>(d, r). (c # g # d, r)) (digits1 s2)
              else map_option (\<lambda>(d, r). (c # d, r)) (digits1 s1)
          | [] \<Rightarrow> None)
       else Some ([], s)
   | [] \<Rightarrow> Some ([], s))"

definition parse_number :: "string \<Rightarrow> (string \<times> string) option" where
  "parse_number s =
     (let (sign, s1) = (case s of c # r \<Rightarrow> if c = CHR ''-'' then ([c], r) else ([], s) | [] \<Rightarrow> ([], s)) in
      case digits1 s1 of
        None \<Rightarrow> None
      | Some (d, s2) \<Rightarrow>
          (let (d, s2) = (if hd d = CHR ''0'' then ([CHR ''0''], tl s1) else (d, s2)) in
           case parse_fraction s2 of None \<Rightarrow> None | Some (f, s3) \<Rightarrow>
             (case parse_exponent s3 of None \<Rightarrow> None
              | Some (e, s4) \<Rightarrow> Some (sign @ d @ f @ e, s4))))"

text \<open>The recursive descent; the fuel bounds the number of nested calls and every call consumes input,
  so the length of the document is enough.\<close>

fun parse_value :: "nat \<Rightarrow> string \<Rightarrow> (json \<times> string) option"
  and parse_elems :: "nat \<Rightarrow> string \<Rightarrow> (json list \<times> string) option"
  and parse_members :: "nat \<Rightarrow> string \<Rightarrow> ((string \<times> json) list \<times> string) option" where
  "parse_value 0 s = None"
| "parse_value (Suc n) s =
     (case skip_ws s of
        [] \<Rightarrow> None
      | c # r \<Rightarrow>
          if c = CHR 0x22 then map_option (\<lambda>(t, r). (JStr t, r)) (parse_chars r)
          else if c = CHR ''['' then
            (case skip_ws r of
               d # r' \<Rightarrow> if d = CHR '']'' then Some (JArr [], r')
                 else map_option (\<lambda>(vs, r). (JArr vs, r)) (parse_elems n r)
             | [] \<Rightarrow> None)
          else if c = CHR ''{'' then
            (case skip_ws r of
               d # r' \<Rightarrow> if d = CHR ''}'' then Some (JObj [], r')
                 else map_option (\<lambda>(ms, r). (JObj ms, r)) (parse_members n r)
             | [] \<Rightarrow> None)
          else if prefix ''null'' (c # r) then Some (JNull, drop 4 (c # r))
          else if prefix ''true'' (c # r) then Some (JBool True, drop 4 (c # r))
          else if prefix ''false'' (c # r) then Some (JBool False, drop 5 (c # r))
          else map_option (\<lambda>(d, r). (JNum d, r)) (parse_number (c # r)))"
| "parse_elems 0 s = None"
| "parse_elems (Suc n) s =
     (case parse_value n s of
        None \<Rightarrow> None
      | Some (v, r) \<Rightarrow>
          (case skip_ws r of
             [] \<Rightarrow> None
           | c # r' \<Rightarrow>
               if c = CHR '','' then map_option (\<lambda>(vs, t). (v # vs, t)) (parse_elems n r')
               else if c = CHR '']'' then Some ([v], r')
               else None))"
| "parse_members 0 s = None"
| "parse_members (Suc n) s =
     (case skip_ws s of
        [] \<Rightarrow> None
      | q # s1 \<Rightarrow>
          if q \<noteq> CHR 0x22 then None
          else (case parse_chars s1 of
                  None \<Rightarrow> None
                | Some (k, s2) \<Rightarrow>
                    (case skip_ws s2 of
                       [] \<Rightarrow> None
                     | c # s3 \<Rightarrow>
                         if c \<noteq> CHR '':'' then None
                         else (case parse_value n s3 of
                                 None \<Rightarrow> None
                               | Some (v, s4) \<Rightarrow>
                                   (case skip_ws s4 of
                                      [] \<Rightarrow> None
                                    | d # s5 \<Rightarrow>
                                        if d = CHR '','' then
                                          map_option (\<lambda>(ms, t). ((k, v) # ms, t)) (parse_members n s5)
                                        else if d = CHR ''}'' then Some ([(k, v)], s5)
                                        else None)))))"

definition parse_json :: "string \<Rightarrow> json option" where
  "parse_json s = (case parse_value (length s) s of
     Some (v, r) \<Rightarrow> if skip_ws r = [] then Some v else None | None \<Rightarrow> None)"

text \<open>A JSON value as a Go \<^verbatim>\<open>[]string\<close>: null is the nil slice, a null element the empty string.\<close>

fun as_string :: "json \<Rightarrow> string option" where
  "as_string (JStr s) = Some s"
| "as_string JNull = Some ''''"
| "as_string _ = None"

fun as_strings :: "json \<Rightarrow> string list option" where
  "as_strings JNull = Some []"
| "as_strings (JArr vs) = those (map as_string vs)"
| "as_strings _ = None"

definition decode_field :: "string \<times> json \<Rightarrow> NodeWatchList \<Rightarrow> NodeWatchList option" where
  "decode_field kv l =
     (if ToLower (fst kv) = ''nodes'' then map_option (\<lambda>xs. l\<lparr>nw_Nodes := xs\<rparr>) (as_strings (snd kv))
      else if ToLower (fst kv) = ''probes'' then map_option (\<lambda>xs. l\<lparr>nw_Probes := xs\<rparr>) (as_strings (snd kv))
      else Some l)"

fun decode_fields :: "(string \<times> json) list \<Rightarrow> NodeWatchList \<Rightarrow> NodeWatchList option" where
  "decode_fields [] l = Some l"
| "decode_fields (kv # kvs) l = (case decode_field kv l of None \<Rightarrow> None | Some l' \<Rightarrow> decode_fields kvs l')"

definition Unmarshal :: "string \<Rightarrow> NodeWatchList option" where
  "Unmarshal s =
     (case parse_json s of
        Some (JObj kvs) \<Rightarrow> decode_fields kvs \<lparr>nw_Nodes = [], nw_Probes = []\<rparr>
      | Some JNull \<Rightarrow> Some \<lparr>nw_Nodes = [], nw_Probes = []\<rparr>
      | _ \<Rightarrow> None)"

subsection \<open>The round trip\<close>

definition ascii :: "string \<Rightarrow> bool" where
  "ascii s = list_all (\<lambda>c. of_char c < (128 :: nat)) s"

lemma ascii_simps [simp]: "ascii []" "ascii (c # s) \<longleftrightarrow> of_char c < (128 :: nat) \<and> ascii s"
  by (simp_all add: ascii_def)

lemma hex_value_digit: "n < 16 \<Longrightarrow> hex_value (hex_digit n) = Some n"
proof -
  have "\<forall>n \<in> {0..<16}. hex_value (hex_digit n) = Some n" by code_simp
  then show "n < 16 \<Longrightarrow> hex_value (hex_digit n) = Some n" by simp
qed

lemma hex4_escape:
  assumes "n < 128"
  shows "hex4 (CHR ''0'' # CHR ''0'' # hex_digit (n div 16) # hex_digit (n mod 16) # s) = Some (n, s)"
proof -
  have z: "hex_value (CHR ''0'') = Some 0" by code_simp
  have "n div 16 < 16" using assms by simp
  then have "hex_value (hex_digit (n div 16)) = Some (n div 16)" by (rule hex_value_digit)
  moreover have "hex_value (hex_digit (n mod 16)) = Some (n mod 16)" by (rule hex_value_digit) simp
  ultimately show ?thesis by (simp add: z)
qed

lemma parse_unicode:
  assumes "n < 128"
  shows "parse_chars (CHR 0x5C # CHR ''u'' # CHR ''0'' # CHR ''0'' # hex_digit (n div 16) #
      hex_digit (n mod 16) # s) = map_option (\<lambda>(t, r). (char_of n # t, r)) (parse_chars s)"
  using hex4_escape [OF assms, of s] assms by (simp add: surrogate_def utf8_def del: hex4.simps)

lemma parse_escaped:
  "unescape e = Some x \<Longrightarrow> e \<noteq> CHR ''u'' \<Longrightarrow>
   parse_chars (CHR 0x5C # e # s) = map_option (\<lambda>(t, r). (x # t, r)) (parse_chars s)"
  by simp

lemma char_of_nat_eq: "(of_char c :: nat) = n \<Longrightarrow> c = char_of n"
  by (metis char_of_char)

lemma parse_escape:
  assumes "of_char c < (128 :: nat)"
  shows "parse_chars (escape_char c @ s) = map_option (\<lambda>(t, r). (c # t, r)) (parse_chars s)"
proof -
  let ?n = "of_char c :: nat"
  have e: "unescape (CHR 0x22) = Some (CHR 0x22)" "unescape (CHR 0x5C) = Some (CHR 0x5C)"
    "unescape (CHR ''b'') = Some (CHR 0x08)" "unescape (CHR ''t'') = Some (CHR 0x09)"
    "unescape (CHR ''n'') = Some (CHR 0x0A)" "unescape (CHR ''f'') = Some (CHR 0x0C)"
    "unescape (CHR ''r'') = Some (CHR 0x0D)" by code_simp+
  have ch: "char_of (8 :: nat) = CHR 0x08" "char_of (9 :: nat) = CHR 0x09"
    "char_of (10 :: nat) = CHR 0x0A" "char_of (12 :: nat) = CHR 0x0C" "char_of (13 :: nat) = CHR 0x0D"
    by code_simp+
  have esc: "escape_char (CHR 0x08) = [CHR 0x5C, CHR ''b'']" "escape_char (CHR 0x09) = [CHR 0x5C, CHR ''t'']"
    "escape_char (CHR 0x0A) = [CHR 0x5C, CHR ''n'']" "escape_char (CHR 0x0C) = [CHR 0x5C, CHR ''f'']"
    "escape_char (CHR 0x0D) = [CHR 0x5C, CHR ''r'']" by code_simp+
  have ne: "(CHR ''b'' = CHR ''u'') = False" "(CHR ''t'' = CHR ''u'') = False" "(CHR ''n'' = CHR ''u'') = False"
    "(CHR ''f'' = CHR ''u'') = False" "(CHR ''r'' = CHR ''u'') = False" by simp_all
  consider "c = CHR 0x22" | "c = CHR 0x5C" | "?n \<in> {8, 9, 10, 12, 13}"
    | "c \<noteq> CHR 0x22" "c \<noteq> CHR 0x5C" "?n \<notin> {8, 9, 10, 12, 13}" "?n < 32 \<or> c \<in> set ''<>&''"
    | "c \<noteq> CHR 0x22" "c \<noteq> CHR 0x5C" "\<not> ?n < 32" "c \<notin> set ''<>&''" by fastforce
  then show ?thesis
  proof cases
    case 3
    then have "c \<in> {CHR 0x08, CHR 0x09, CHR 0x0A, CHR 0x0C, CHR 0x0D}"
      unfolding ch [symmetric] using char_of_nat_eq by blast
    then show ?thesis by (elim insertE emptyE) (simp_all only: esc append.simps parse_escaped [OF e(3)]
        parse_escaped [OF e(4)] parse_escaped [OF e(5)] parse_escaped [OF e(6)] parse_escaped [OF e(7)] ne not_False_eq_True)
  next
    case 4
    then have "escape_char c = [CHR 0x5C, CHR ''u'', CHR ''0'', CHR ''0'', hex_digit (?n div 16),
        hex_digit (?n mod 16)]" by (simp add: escape_char_def Let_def)
    then show ?thesis using parse_unicode [OF assms, of s] by simp
  next
    case 5
    then show ?thesis by (simp add: escape_char_def Let_def)
  qed (simp_all add: escape_char_def e)
qed

lemma parse_marshal_chars:
  "ascii s \<Longrightarrow> parse_chars (concat (map escape_char s) @ CHR 0x22 # r) = Some (s, r)"
  by (induction s) (simp_all add: parse_escape)

lemma parse_marshal_string:
  "ascii s \<Longrightarrow> parse_value (Suc n) (marshal_string s @ r) = Some (JStr s, r)"
  by (simp add: marshal_string_def parse_marshal_chars)

lemma parse_marshal_elems:
  "xs \<noteq> [] \<Longrightarrow> \<forall>x \<in> set xs. ascii x \<Longrightarrow> length xs < n \<Longrightarrow>
   parse_elems n (Join (map marshal_string xs) '','' @ CHR '']'' # r) = Some (map JStr xs, r)"
proof (induction xs arbitrary: n)
  case (Cons x xs)
  obtain m where n: "n = Suc (Suc m)" using Cons.prems(3) by (cases n; cases "n - 1") auto
  show ?case
  proof (cases xs)
    case Nil
    then show ?thesis using Cons.prems parse_marshal_string [of x m] n by (simp del: parse_value.simps)
  next
    case (Cons y ys)
    have "Join (map marshal_string (x # xs)) '','' @ CHR '']'' # r =
        marshal_string x @ CHR '','' # (Join (map marshal_string xs) '','' @ CHR '']'' # r)"
      using Cons by simp
    moreover have "parse_elems (Suc m) (Join (map marshal_string xs) '','' @ CHR '']'' # r) = Some (map JStr xs, r)"
      by (rule Cons.IH) (use Cons.prems Cons n in auto)
    ultimately show ?thesis using Cons.prems parse_marshal_string [of x m] n
      by (simp del: parse_value.simps)
  qed
qed simp

lemma those_JStr: "those (map as_string (map JStr xs)) = Some xs"
  by (induction xs) auto

lemma skip_ws_marshal: "xs \<noteq> [] \<Longrightarrow> \<exists>t. Join (map marshal_string xs) sep @ r = CHR 0x22 # t"
  by (cases xs; cases "tl xs") (auto simp: marshal_string_def)

definition json_strings :: "string list \<Rightarrow> json" where
  "json_strings xs = (if xs = [] then JNull else JArr (map JStr xs))"

lemma as_strings_json [simp]: "as_strings (json_strings xs) = Some xs"
  by (simp add: json_strings_def those_JStr del: map_map)

lemma parse_marshal_strings:
  assumes "\<forall>x \<in> set xs. ascii x" and "length xs + 1 < n"
  shows "parse_value n (marshal_strings xs @ r) = Some (json_strings xs, r)"
proof -
  obtain m where n: "n = Suc m" using assms(2) by (cases n) auto
  show ?thesis
  proof (cases "xs = []")
    case True
    then show ?thesis by (simp add: n marshal_strings_def json_strings_def)
  next
    case False
    let ?t = "Join (map marshal_string xs) '','' @ CHR '']'' # r"
    obtain t where t: "?t = CHR 0x22 # t" using skip_ws_marshal [OF False] by blast
    have "parse_elems m ?t = Some (map JStr xs, r)"
      by (rule parse_marshal_elems [OF False assms(1)]) (use assms(2) n in simp)
    then have "parse_elems m (CHR 0x22 # t) = Some (map JStr xs, r)" unfolding t .
    moreover have "marshal_strings xs @ r = CHR ''['' # CHR 0x22 # t"
      using False t by (simp add: marshal_strings_def)
    ultimately show ?thesis using False by (simp add: n json_strings_def)
  qed
qed

lemma parse_marshal_member:
  assumes "ascii k" and "\<forall>x \<in> set xs. ascii x" and "length xs + 1 < n"
  shows "parse_members (Suc n) (marshal_string k @ CHR '':'' # marshal_strings xs @ CHR ''}'' # r)
      = Some ([(k, json_strings xs)], r)"
    and "parse_members n s = Some (ms, r') \<Longrightarrow>
      parse_members (Suc n) (marshal_string k @ CHR '':'' # marshal_strings xs @ CHR '','' # s)
      = Some ((k, json_strings xs) # ms, r')"
  using parse_marshal_strings [OF assms(2,3)] parse_marshal_chars [OF assms(1)]
  by (simp_all add: marshal_string_def)

lemma length_marshal_strings: "xs \<noteq> [] \<Longrightarrow> 3 * length xs \<le> length (Join (map marshal_string xs) '','') + 1"
  by (induction xs rule: induct_list012) (auto simp: marshal_string_def)

lemma length_marshal_strings': "length xs + 3 \<le> length (marshal_strings xs)"
  using length_marshal_strings [of xs] by (cases xs) (auto simp: marshal_strings_def)

lemma json_round_trip:
  assumes "\<forall>x \<in> set (nw_Nodes l) \<union> set (nw_Probes l). ascii x"
  shows "Unmarshal (Marshal l) = Some l"
proof -
  let ?N = "nw_Nodes l" and ?P = "nw_Probes l"
  let ?s2 = "marshal_string ''Probes'' @ CHR '':'' # marshal_strings ?P @ CHR ''}'' # []"
  let ?s1 = "marshal_string ''Nodes'' @ CHR '':'' # marshal_strings ?N @ CHR '','' # ?s2"
  have M: "Marshal l = CHR ''{'' # ?s1" by (simp add: Marshal_def)
  have a: "ascii ''Nodes''" "ascii ''Probes''" by code_simp+
  obtain n where n: "length (Marshal l) = Suc (Suc (Suc n))" "length ?N + 1 < Suc n" "length ?P + 1 < n"
  proof (rule that [of "length (Marshal l) - 3"])
    have "length (Marshal l) \<ge> length (marshal_strings ?N) + length (marshal_strings ?P) + 10"
      unfolding M by (simp add: marshal_string_def escape_char_def)
    with length_marshal_strings' [of ?N] length_marshal_strings' [of ?P]
    show "length (Marshal l) = Suc (Suc (Suc (length (Marshal l) - 3)))"
      "length ?N + 1 < Suc (length (Marshal l) - 3)" "length ?P + 1 < length (Marshal l) - 3" by linarith+
  qed
  have p2: "parse_members (Suc n) ?s2 = Some ([(''Probes'', json_strings ?P)], [])"
    by (rule parse_marshal_member(1)) (use a assms n in auto)
  have "parse_members (Suc (Suc n)) ?s1 =
      Some ((''Nodes'', json_strings ?N) # [(''Probes'', json_strings ?P)], [])"
    by (rule parse_marshal_member(2) [OF a(1) _ n(2) p2]) (use assms in auto)
  moreover obtain t where "?s1 = CHR 0x22 # t" by (simp add: marshal_string_def)
  ultimately have "parse_value (Suc (Suc (Suc n))) (Marshal l) =
      Some (JObj [(''Nodes'', json_strings ?N), (''Probes'', json_strings ?P)], [])"
    unfolding M by simp
  then have "parse_json (Marshal l) = Some (JObj [(''Nodes'', json_strings ?N), (''Probes'', json_strings ?P)])"
    by (simp add: parse_json_def n(1))
  moreover have "ToLower ''Nodes'' = ''nodes''" "ToLower ''Probes'' = ''probes''" by code_simp+
  ultimately show ?thesis by (simp add: Unmarshal_def decode_field_def)
qed



end
