(* ===== verification/Agent_Watch.thy ===== *)
theory Agent_Watch
  imports Agent_Core Version Json Check_Update
begin

text \<open>
  \<^verbatim>\<open>src/agent.go\<close>, second part: the edition and the versions of Consul, the watch of the agent's
  own node list in the KV store, the watch of the health checks that feeds the check runner,
  the debouncing of node statuses, and the metrics.

  One pass of a watch loop is one definition: it takes what the loop keeps between passes and
  returns it, with what the pass sends to the other goroutines.
\<close>

subsection \<open>Debouncing node statuses\<close>

definition shouldUpdateNodeStatus :: "int \<Rightarrow> Agent \<Rightarrow> string \<Rightarrow> string \<Rightarrow> bool" where
  "shouldUpdateNodeStatus now a node newStatus =
     (let ttl = cfg_NodeHealthRefreshInterval (config a) in
      case gm_load (knownNodeStatuses a) node of
        None \<Rightarrow> True
      | Some lastStatus \<Rightarrow> if isExpired lastStatus ttl now then True else newStatus \<noteq> lks_status lastStatus)"

definition updateLastKnownNodeStatus :: "int \<Rightarrow> string \<Rightarrow> string \<Rightarrow> Agent \<Rightarrow> Agent" where
  "updateLastKnownNodeStatus now node newStatus a =
     a\<lparr>knownNodeStatuses := gm_store node \<lparr>lks_status = newStatus, lks_time = now\<rparr> (knownNodeStatuses a)\<rparr>"


subsection \<open>The edition of Consul\<close>

text \<open>The retries of \<^verbatim>\<open>/v1/agent/self\<close>: the last answer when all attempts fail.\<close>

fun fetchSelf :: "'w agent_client \<Rightarrow> nat \<Rightarrow> 'w \<Rightarrow> (string + self_info) \<times> 'w" where
  "fetchSelf cl 0 w = (Inl '''', w)"
| "fetchSelf cl (Suc n) w =
     (case Agent_Self cl w of
        (Inr info, w1) \<Rightarrow> (Inr info, w1)
      | (Inl err, w1) \<Rightarrow> if n = 0 then (Inl err, w1) else fetchSelf cl n w1)"

definition self_version :: "self_info \<Rightarrow> self_value option" where
  "self_version info = (case gm_load info ''Config'' of None \<Rightarrow> None | Some m \<Rightarrow> gm_load m ''Version'')"

definition getNamespaceWildcard :: "'w agent_client \<Rightarrow> Agent \<times> 'w \<Rightarrow> string \<times> Agent \<times> 'w" where
  "getNamespaceWildcard cl st =
     (case st of (a, w) \<Rightarrow>
      if namespaceWildcardDetected a then (namespaceWildcard a, a, w)
      else
        (case fetchSelf cl maxRetriesEntDetection w of
           (Inl err, w1) \<Rightarrow> ('''', a, w1)
         | (Inr agentInfo, w1) \<Rightarrow>
             (case self_version agentInfo of
                None \<Rightarrow> ('''', a, w1)
              | Some SelfOther \<Rightarrow> ('''', a, w1)
              | Some (SelfString consulVersion) \<Rightarrow>
                  (let ns = (if Contains consulVersion ''+ent'' then ''*'' else '''') in
                   (ns, a\<lparr>namespaceWildcard := ns, namespaceWildcardDetected := True\<rparr>, w1)))))"


subsection \<open>The versions of Consul\<close>

datatype server_query = QueryShutdown | QueryError string | QueryServices "CatalogService list"

text \<open>The query for the servers, repeated as long as the error is a 429. \<open>shut k\<close> says whether the
  shutdown channel is closed before attempt \<open>k\<close>; without fuel left the query is still
  repeating.\<close>

fun queryServers :: "'w agent_client \<Rightarrow> (nat \<Rightarrow> bool) \<Rightarrow> nat \<Rightarrow> nat \<Rightarrow> 'w \<Rightarrow> (server_query \<times> 'w) option" where
  "queryServers cl shut k 0 w = None"
| "queryServers cl shut k (Suc fuel) w =
     (if shut k then Some (QueryShutdown, w)
      else (case Catalog_Service cl ''consul'' '''' zero_opts w of
              (Inr svs, w1) \<Rightarrow> Some (QueryServices svs, w1)
            | (Inl err, w1) \<Rightarrow>
                if Contains err ''429'' then queryServers cl shut (Suc k) fuel w1
                else Some (QueryError err, w1)))"

definition addVersion :: "CatalogService \<Rightarrow> string list \<times> (string, bool) go_map \<times> bool \<Rightarrow>
    string list \<times> (string, bool) go_map \<times> bool" where
  "addVersion s st =
     (case st of (versions, uniqueVersions, foundServer) \<Rightarrow>
      (case gm_load (cs_ServiceMeta s) ''version'' of
         None \<Rightarrow> st
       | Some v \<Rightarrow>
           if gm_load uniqueVersions v \<noteq> Some True
           then (versions @ [v], gm_store v True uniqueVersions, True)
           else (versions, uniqueVersions, True)))"

text \<open>The error of \<^verbatim>\<open>VerifyConsulCompatibility\<close>, if any; a version that is no string panics.\<close>

definition VerifyConsulCompatibility :: "(string list \<Rightarrow> (string option) res) \<Rightarrow> 'w agent_client \<Rightarrow>
    (nat \<Rightarrow> bool) \<Rightarrow> nat \<Rightarrow> 'w \<Rightarrow> (string option \<times> 'w) res option" where
  "VerifyConsulCompatibility CheckVersions cl shut fuel w =
     (case Agent_Self cl w of
        (Inl err, w1) \<Rightarrow>
          Some (Inr (Some (''unable to check version compatibility with Consul agent: '' @ err), w1))
      | (Inr agentInfo, w1) \<Rightarrow>
          (case self_version agentInfo of
             None \<Rightarrow> Some (Inr (Some ''unable to check version compatibility with Consul agent'', w1))
           | Some SelfOther \<Rightarrow> Some (Inl TypePanic)
           | Some (SelfString agentVersion) \<Rightarrow>
               (case queryServers cl shut 0 fuel w1 of
                  None \<Rightarrow> None
                | Some (QueryShutdown, w2) \<Rightarrow> Some (Inr (None, w2))
                | Some (QueryError err, w2) \<Rightarrow>
                    Some (Inr (Some (''unable to check version compatibility with Consul servers: '' @ err), w2))
                | Some (QueryServices svs, w2) \<Rightarrow>
                    (let (versions, unique, found) =
                           fold addVersion svs ([agentVersion], [(agentVersion, True)], False)
                     in Some (bindR (CheckVersions versions) (\<lambda>err. Inr (err, w2)))))))"


subsection \<open>The agent's own node list\<close>

record 'w watch_client =
  KV_Get :: "string \<Rightarrow> nat \<Rightarrow> 'w \<Rightarrow> (string + KVPair option \<times> nat) \<times> 'w"
    \<comment> \<open>the key, the wait index; the pair and the last index\<close>
  Catalog_Nodes :: "QueryOptions \<Rightarrow> 'w \<Rightarrow> (string + api_node list) \<times> 'w"
  Health_State :: "string \<Rightarrow> QueryOptions \<Rightarrow> 'w \<Rightarrow> (string + HealthCheck list \<times> nat) \<times> 'w"

record node_watch =
  nwt_firstRun :: bool
  nwt_WaitIndex :: nat

text \<open>What a pass sends: the nodes to check, for the check runner, and the nodes to ping.\<close>

type_synonym node_update = "((string, bool) go_map \<times> api_node list) option"

definition healthNodes_of :: "NodeWatchList \<Rightarrow> (string, bool) go_map" where
  "healthNodes_of l = fold (\<lambda>n. gm_store n True) (nw_Probes l) (fold (\<lambda>n. gm_store n True) (nw_Nodes l) [])"

definition pingNodes_of :: "NodeWatchList \<Rightarrow> (string, bool) go_map" where
  "pingNodes_of l = fold (\<lambda>n. gm_store n True) (nw_Probes l) []"

definition watchNodeList_pass :: "'w watch_client \<Rightarrow> Agent \<Rightarrow> node_watch \<times> 'w \<Rightarrow>
    node_update \<times> node_watch \<times> 'w" where
  "watchNodeList_pass cl a st =
     (case st of (s, w) \<Rightarrow>
      (case KV_Get cl (kvNodeListPath a @ serviceID a) (nwt_WaitIndex s) w of
         (Inl err, w1) \<Rightarrow> (None, s, w1)
       | (Inr (None, lastIndex), w1) \<Rightarrow> (None, s\<lparr>nwt_WaitIndex := lastIndex\<rparr>, w1)
       | (Inr (Some kv, lastIndex), w1) \<Rightarrow>
           (let s1 = s\<lparr>nwt_firstRun := False\<rparr> in
            case Unmarshal (kp_Value kv) of
              None \<Rightarrow> (None, s1, w1)
            | Some nodeList \<Rightarrow>
                (case Catalog_Nodes cl (zero_opts\<lparr>qo_NodeMeta := cfg_NodeMeta (config a),
                        qo_AllowStale := cfg_StaleReadNodes (config a)\<rparr>) w1 of
                   (Inl err, w2) \<Rightarrow> (None, s1, w2)
                 | (Inr nodes, w2) \<Rightarrow>
                     (let pingList = filter (\<lambda>n. gm_load (pingNodes_of nodeList) (nd_Node n) = Some True) nodes in
                      (Some (healthNodes_of nodeList, pingList), s1\<lparr>nwt_WaitIndex := lastIndex\<rparr>, w2))))))"


subsection \<open>The health checks\<close>

definition getHealthChecks :: "'w agent_client \<Rightarrow> 'w watch_client \<Rightarrow> nat \<Rightarrow> (string, bool) go_map \<Rightarrow>
    Agent \<times> 'w \<Rightarrow> (HealthCheck list \<times> nat) \<times> Agent \<times> 'w" where
  "getHealthChecks acl cl waitIndex nodes st =
     (case getNamespaceWildcard acl st of (ns, a, w) \<Rightarrow>
      (let opts = HasPartition a (\<lambda>p o'. o'\<lparr>qo_Partition := p\<rparr>)
             (zero_opts\<lparr>qo_NodeMeta := cfg_NodeMeta (config a), qo_WaitIndex := waitIndex,
               qo_Namespace := ns, qo_WaitTime := 45 * Second,
               qo_AllowStale := cfg_StaleReadNodes (config a)\<rparr>) in
       case Health_State cl HealthAny opts w of
         (Inl err, w1) \<Rightarrow> (([], waitIndex), a, w1)
       | (Inr (cs, lastIndex), w1) \<Rightarrow>
           ((filter (\<lambda>c. gm_load nodes (hc_Node c) = Some True \<and> hc_CheckID c \<noteq> externalCheckName) cs,
             lastIndex), a, w1)))"

record check_watch =
  cw_ourNodes :: "(string, bool) go_map"
  cw_waitIndex :: nat
  cw_checkCount :: nat

text \<open>A pass of \<^verbatim>\<open>watchHealthChecks\<close>, woken by a new node list or by the timer.\<close>

definition watchHealthChecks_pass :: "nat range_order \<Rightarrow> 'w agent_client \<Rightarrow> 'w watch_client \<Rightarrow>
    (string, bool) go_map option \<Rightarrow> check_watch \<times> CheckRunner \<times> Agent \<times> 'w \<Rightarrow>
    check_watch \<times> CheckRunner \<times> Agent \<times> 'w" where
  "watchHealthChecks_pass ord acl cl msg st =
     (case st of (s, c, aw) \<Rightarrow>
      (let s1 = (case msg of Some nodes \<Rightarrow> s\<lparr>cw_ourNodes := nodes, cw_waitIndex := 0\<rparr> | None \<Rightarrow> s) in
       if length (cw_ourNodes s1) = 0 then (s1, c, aw)
       else
         (case getHealthChecks acl cl (cw_waitIndex s1) (cw_ourNodes s1) aw of
            ((ourChecks, lastIndex), aw1) \<Rightarrow>
              if length ourChecks = 0 then (s1, c, aw1)
              else (s1\<lparr>cw_waitIndex := lastIndex, cw_checkCount := length ourChecks\<rparr>,
                    fst (UpdateChecks ord ourChecks c), aw1))))"

text \<open>The runner that \<^verbatim>\<open>watchHealthChecks\<close> starts with; the TLS configuration comes from the client
  library.\<close>

definition agent_runner :: "Agent \<Rightarrow> tls_config \<Rightarrow> CheckRunner" where
  "agent_runner a tls = NewCheckRunner (cfg_CheckUpdateInterval (config a)) minimumInterval tls
     (cfg_PassingThreshold (config a)) (cfg_CriticalThreshold (config a)) (isAgentLess a)
     (cfg_BatchFlushInterval (config a))"


record TLSConfig =
  tls_CAFile :: string
  tls_CAPath :: string
  tls_CertFile :: string
  tls_KeyFile :: string

text \<open>The beginning of \<^verbatim>\<open>watchHealthChecks\<close>: without a TLS configuration the goroutine returns, otherwise it
  starts with a fresh runner and no nodes.\<close>

definition watchHealthChecks_start :: "(TLSConfig \<Rightarrow> string + tls_config) \<Rightarrow> Agent \<Rightarrow>
    (check_watch \<times> CheckRunner) option" where
  "watchHealthChecks_start SetupTLSConfig a =
     (case SetupTLSConfig \<lparr>tls_CAFile = cfg_HTTPSCAFile (config a), tls_CAPath = cfg_HTTPSCAPath (config a),
             tls_CertFile = cfg_HTTPSCertFile (config a), tls_KeyFile = cfg_HTTPSKeyFile (config a)\<rparr> of
        Inl err \<Rightarrow> None
      | Inr tls \<Rightarrow> Some (\<lparr>cw_ourNodes = [], cw_waitIndex = 0, cw_checkCount = 0\<rparr>, agent_runner a tls))"


subsection \<open>Metrics\<close>

text \<open>The calls of \<^verbatim>\<open>metrics.SetGauge\<close>: names and values.\<close>

type_synonym gauge_calls = "(string list \<times> nat) list"

definition updateCheckMetrics :: "HealthCheck list \<Rightarrow> gauge_calls" where
  "updateCheckMetrics cs =
     (let healthyCount = length (filter (\<lambda>c. hc_Status c = HealthPassing) cs) in
      [([''esm'', ''checks'', ''count''], length cs),
       ([''esm'', ''checks'', ''healthy''], healthyCount),
       ([''esm'', ''checks'', ''unhealthy''], length cs - healthyCount)])"

definition updateServiceMetrics :: "(string, bool) go_map \<Rightarrow> HealthCheck list \<Rightarrow> gauge_calls" where
  "updateServiceMetrics nodes cs =
     (let monitoredServices = fold (\<lambda>c m. if hc_ServiceID c \<noteq> ''''
            then gm_store (hc_Node c @ '':'' @ hc_ServiceID c) () m else m) cs [] in
      [([''esm'', ''nodes'', ''monitored''], length nodes),
       ([''esm'', ''services'', ''monitored''], length monitoredServices)])"

definition recordHealthCheckMetrics :: "(string, bool) go_map \<Rightarrow> HealthCheck list \<Rightarrow> gauge_calls" where
  "recordHealthCheckMetrics nodes cs = updateCheckMetrics cs @ updateServiceMetrics nodes cs"

text \<open>The gauges that a pass of \<^verbatim>\<open>watchHealthChecks\<close> sets.\<close>

definition watchHealthChecks_gauges :: "'w agent_client \<Rightarrow> 'w watch_client \<Rightarrow>
    (string, bool) go_map option \<Rightarrow> check_watch \<Rightarrow> Agent \<times> 'w \<Rightarrow> gauge_calls" where
  "watchHealthChecks_gauges acl cl msg s aw =
     (let s1 = (case msg of Some nodes \<Rightarrow> s\<lparr>cw_ourNodes := nodes, cw_waitIndex := 0\<rparr> | None \<Rightarrow> s) in
      if length (cw_ourNodes s1) = 0 then [([''esm'', ''nodes'', ''monitored''], 0)]
      else
        (case getHealthChecks acl cl (cw_waitIndex s1) (cw_ourNodes s1) aw of
           ((ourChecks, lastIndex), aw1) \<Rightarrow>
             if length ourChecks = 0 then [] else recordHealthCheckMetrics (cw_ourNodes s1) ourChecks))"

definition AgentGauges :: "string list list" where
  "AgentGauges = [[''esm'', ''agent'', ''isLeader'']]"

definition MonitoredGauges :: "string list list" where
  "MonitoredGauges = [[''esm'', ''nodes'', ''monitored''], [''esm'', ''services'', ''monitored'']]"

definition LeaderGauges :: "string list list" where
  "LeaderGauges = [[''esm'', ''agents'', ''healthy'']]"

definition ChecksGauges :: "string list list" where
  "ChecksGauges = [[''esm'', ''checks''], [''esm'', ''checks'', ''healthy''], [''esm'', ''checks'', ''unhealthy'']]"

definition ChecksSummary :: "string list list" where
  "ChecksSummary = [[''esm'', ''checks'', ''fetch_and_update'', ''duration'']]"

definition with_prefix :: "string \<Rightarrow> string list list \<Rightarrow> string list list" where
  "with_prefix p names = map (\<lambda>n. if p \<noteq> '''' then p # n else n) names"

text \<open>The names of the gauges that \<^verbatim>\<open>getPrometheusDefs\<close> returns, and of the summaries.\<close>

definition getPrometheusDefs :: "Config \<Rightarrow> string list list \<times> string list list" where
  "getPrometheusDefs cfg =
     (let p = tc_MetricsPrefix (cfg_Telemetry cfg) in
      (concat (map (with_prefix p) [AgentGauges, MonitoredGauges, LeaderGauges]),
       concat (map (with_prefix p) [ChecksSummary])))"

text \<open>The gauges of the checks are set, but not among the declared ones.\<close>

lemma check_gauges_undeclared:
  assumes "tc_MetricsPrefix (cfg_Telemetry cfg) = ''''"
  shows "set (map fst (updateCheckMetrics cs)) \<inter> set (fst (getPrometheusDefs cfg)) = {}"
  using assms by (simp add: updateCheckMetrics_def getPrometheusDefs_def with_prefix_def AgentGauges_def
      MonitoredGauges_def LeaderGauges_def Let_def)

end
