(* ===== verification/Leader.thy ===== *)
theory Leader
  imports Agent_Core Json Batcher
begin

text \<open>
  \<^verbatim>\<open>src/leader.go\<close>: the leader distributes the external nodes over the healthy ESM instances and
  writes one node list per instance to the KV store.

  \<^verbatim>\<open>sort.Slice\<close> is the stable sort by the same key (on distinct keys every sort gives the same
  list). Strings are compared byte by byte. The KV client is an argument.
\<close>

subsection \<open>Distribution\<close>

definition external_probe :: "api_node \<Rightarrow> bool" where
  "external_probe node = (case nd_Meta node of None \<Rightarrow> False
     | Some meta \<Rightarrow> gm_load meta ''external-probe'' = Some ''true'')"

definition append_node :: "string \<Rightarrow> string \<Rightarrow> (string, string list) go_map \<Rightarrow> (string, string list) go_map" where
  "append_node agentID node m =
     gm_store agentID ((case gm_load m agentID of None \<Rightarrow> [] | Some xs \<Rightarrow> xs) @ [node]) m"

text \<open>The loop of \<^verbatim>\<open>nodeLists\<close> from index \<open>i\<close> on, over the lists to check and to ping.\<close>

fun assign_nodes :: "ServiceEntry list \<Rightarrow> nat \<Rightarrow> api_node list \<Rightarrow>
    (string, string list) go_map \<times> (string, string list) go_map \<Rightarrow>
    (string, string list) go_map \<times> (string, string list) go_map" where
  "assign_nodes insts i [] st = st"
| "assign_nodes insts i (node # nodes) (healthNodes, pingNodes) =
     (let idx = i mod length insts;
          agentID = svc_ID (se_Service (insts ! idx)) in
      assign_nodes insts (i + 1) nodes
        (if external_probe node then (healthNodes, append_node agentID (nd_Node node) pingNodes)
         else (append_node agentID (nd_Node node) healthNodes, pingNodes)))"

definition nodeLists :: "api_node list \<Rightarrow> ServiceEntry list \<Rightarrow>
    (string, string list) go_map \<times> (string, string list) go_map" where
  "nodeLists nodes insts = (if length insts = 0 then ([], []) else assign_nodes insts 0 nodes ([], []))"


subsection \<open>Writing the lists\<close>

record 'w leader_client =
  KV_Txn :: "KVTxnOp list \<Rightarrow> QueryOptions \<Rightarrow> 'w \<Rightarrow> (string + bool) \<times> 'w"
  Catalog_Nodes_Q :: "QueryOptions \<Rightarrow> 'w \<Rightarrow> (string + api_node list \<times> nat) \<times> 'w"
  Health_Service :: "string \<Rightarrow> string \<Rightarrow> bool \<Rightarrow> QueryOptions \<Rightarrow> 'w \<Rightarrow> (string + ServiceEntry list \<times> nat) \<times> 'w"

definition commitOps :: "'w leader_client \<Rightarrow> Agent \<Rightarrow> KVTxnOp list \<Rightarrow> 'w \<Rightarrow> bool \<times> 'w" where
  "commitOps cl a ops w =
     (case KV_Txn cl ops (ConsulQueryOption a) w of
        (Inl err, w1) \<Rightarrow> (False, w1)
      | (Inr success, w1) \<Rightarrow> (success, w1))"

definition kv_op :: "Agent \<Rightarrow> KVOp \<Rightarrow> string \<Rightarrow> string \<Rightarrow> KVTxnOp" where
  "kv_op a verb key val = HasPartition a (\<lambda>p k. k\<lparr>kv_Partition := p\<rparr>)
     \<lparr>kv_Verb = verb, kv_Key = key, kv_Value = val, kv_Index = 0, kv_Partition = ''''\<rparr>"

definition list_at :: "(string, string list) go_map \<Rightarrow> string \<Rightarrow> string list" where
  "list_at m k = (case gm_load m k of None \<Rightarrow> [] | Some xs \<Rightarrow> xs)"

definition watch_op :: "Agent \<Rightarrow> (string, string list) go_map \<times> (string, string list) go_map \<Rightarrow>
    ServiceEntry \<Rightarrow> KVTxnOp" where
  "watch_op a wl agent =
     (let sid = svc_ID (se_Service agent) in
      kv_op a KVSet (kvNodeListPath a @ sid)
        (Marshal \<lparr>nw_Nodes = list_at (fst wl) sid, nw_Probes = list_at (snd wl) sid\<rparr>))"

text \<open>The loop over the instances, a commit whenever \<^verbatim>\<open>maxTxnOps\<close> operations are collected; the flag says
  whether all commits so far succeeded, and a failed one ends the loop.\<close>

fun write_lists :: "'w leader_client \<Rightarrow> Agent \<Rightarrow> (string, string list) go_map \<times> (string, string list) go_map \<Rightarrow>
    ServiceEntry list \<Rightarrow> KVTxnOp list \<Rightarrow> 'w \<Rightarrow> bool \<times> 'w" where
  "write_lists cl a wl [] ops w = commitOps cl a ops w"
| "write_lists cl a wl (agent # agents) ops w =
     (let ops1 = ops @ [watch_op a wl agent] in
      if int (length ops1) \<ge> maxTxnOps then
        (case commitOps cl a ops1 w of
           (True, w1) \<Rightarrow> write_lists cl a wl agents [] w1
         | (False, w1) \<Rightarrow> (False, w1))
      else write_lists cl a wl agents ops1 w)"

datatype leader_timer = NoTimer | RetryTimer int

record leader_watch =
  lw_externalNodes :: "api_node list"
  lw_healthyInstances :: "ServiceEntry list"
  lw_prev :: "((string, string list) go_map \<times> (string, string list) go_map) option"
  lw_retryTimer :: leader_timer

text \<open>What wakes the loop of \<^verbatim>\<open>computeWatchedNodes\<close> (the stop channel ends it).\<close>

datatype leader_input = NewNodes "api_node list" | NewInstances "ServiceEntry list" | RetryFired

definition receive :: "leader_input \<Rightarrow> leader_watch \<Rightarrow> leader_watch" where
  "receive i s = (case i of NewNodes ns \<Rightarrow> s\<lparr>lw_externalNodes := ns\<rparr>
     | NewInstances is \<Rightarrow> s\<lparr>lw_healthyInstances := is\<rparr> | RetryFired \<Rightarrow> s)"

definition computeWatchedNodes_pass :: "'w leader_client \<Rightarrow> Agent \<Rightarrow> leader_input \<Rightarrow>
    leader_watch \<times> 'w \<Rightarrow> leader_watch \<times> 'w" where
  "computeWatchedNodes_pass cl a i st =
     (case st of (s, w) \<Rightarrow>
      (let s1 = (receive i s)\<lparr>lw_retryTimer := NoTimer\<rparr> in
       if length (lw_healthyInstances s1) = 0 then (s1\<lparr>lw_retryTimer := RetryTimer retryTime\<rparr>, w)
       else
         (let wl = nodeLists (lw_externalNodes s1) (lw_healthyInstances s1);
              ops = [kv_op a KVDeleteTree (kvNodeListPath a) ''''] in
          case write_lists cl a wl (lw_healthyInstances s1) ops w of
            (False, w1) \<Rightarrow> (s1\<lparr>lw_retryTimer := RetryTimer retryTime\<rparr>, w1)
          | (True, w1) \<Rightarrow> (s1\<lparr>lw_prev := Some wl\<rparr>, w1))))"


subsection \<open>Watching nodes and instances\<close>

text \<open>One query of \<^verbatim>\<open>watchExternalNodes\<close>: the sorted nodes to send, if any, and the next wait index.\<close>

definition watchExternalNodes_pass :: "'w leader_client \<Rightarrow> Agent \<Rightarrow> nat \<times> 'w \<Rightarrow>
    api_node list option \<times> nat \<times> 'w" where
  "watchExternalNodes_pass cl a st =
     (case st of (waitIndex, w) \<Rightarrow>
      (let opts = HasPartition a (\<lambda>p o'. o'\<lparr>qo_Partition := p\<rparr>)
             (zero_opts\<lparr>qo_NodeMeta := cfg_NodeMeta (config a), qo_WaitIndex := waitIndex\<rparr>) in
       case Catalog_Nodes_Q cl opts w of
         (Inl err, w1) \<Rightarrow> (None, waitIndex, w1)
       | (Inr (externalNodes, lastIndex), w1) \<Rightarrow>
           (Some (sort_key nd_Node externalNodes), lastIndex, w1)))"

definition getServiceInstances :: "'w leader_client \<Rightarrow> Agent \<Rightarrow> QueryOptions \<times> 'w \<Rightarrow>
    (string + ServiceEntry list) \<times> QueryOptions \<times> 'w" where
  "getServiceInstances cl a st =
     (case st of (opts, w) \<Rightarrow>
      (case Health_Service cl (cfg_Service (config a)) (cfg_Tag (config a)) True opts w of
         (Inl err, w1) \<Rightarrow> (Inl err, opts, w1)
       | (Inr (healthyInstances, lastIndex), w1) \<Rightarrow>
           (Inr (sort_key (\<lambda>e. svc_ID (se_Service e)) healthyInstances),
            opts\<lparr>qo_WaitIndex := lastIndex\<rparr>, w1)))"

text \<open>One pass of \<^verbatim>\<open>watchServiceInstances\<close>.\<close>

definition watchServiceInstances_pass :: "'w leader_client \<Rightarrow> Agent \<Rightarrow> QueryOptions \<times> 'w \<Rightarrow>
    ServiceEntry list option \<times> QueryOptions \<times> 'w" where
  "watchServiceInstances_pass cl a st =
     (case getServiceInstances cl a st of
        (Inr healthyInstances, ow) \<Rightarrow> (Some healthyInstances, ow)
      | (Inl err, ow) \<Rightarrow> (None, ow))"

end
