(* ===== verification/Leader_Lists.thy ===== *)
theory Leader_Lists
  imports Leader Agent_Watch
begin

text \<open>
  What the leader's distribution guarantees: every node is on the list of exactly one instance,
  the lists are balanced, they are written in transactions within Consul's limit, and the
  agents that read them back watch all nodes, each of them once.
\<close>

subsection \<open>The lists\<close>

definition inst_id :: "ServiceEntry list \<Rightarrow> nat \<Rightarrow> string" where
  "inst_id insts j = svc_ID (se_Service (insts ! j))"

definition distinct_insts :: "ServiceEntry list \<Rightarrow> bool" where
  "distinct_insts insts \<longleftrightarrow> distinct (map (\<lambda>e. svc_ID (se_Service e)) insts)"

lemma inst_id_inj:
  "distinct_insts insts \<Longrightarrow> j < length insts \<Longrightarrow> k < length insts \<Longrightarrow>
   inst_id insts j = inst_id insts k \<longleftrightarrow> j = k"
  unfolding distinct_insts_def inst_id_def by (metis length_map nth_eq_iff_index_eq nth_map)

text \<open>The share of an instance: the nodes whose position is its index modulo the number of instances.\<close>

definition share :: "nat \<Rightarrow> nat \<Rightarrow> 'a list \<Rightarrow> 'a list" where
  "share n j xs = nths xs {i. i mod n = j}"

lemma list_at_append [simp]:
  "list_at (append_node k x m) k' = (if k' = k then list_at m k @ [x] else list_at m k')"
  by (auto simp: list_at_def append_node_def)

lemma assign_nodes_share:
  assumes "distinct_insts insts" and "j < length insts"
    and "assign_nodes insts i nodes (h, p) = (h', p')"
  shows "list_at h' (inst_id insts j) = list_at h (inst_id insts j) @
      map nd_Node (filter (\<lambda>n. \<not> external_probe n) (nths nodes {k. (i + k) mod length insts = j})) \<and>
    list_at p' (inst_id insts j) = list_at p (inst_id insts j) @
      map nd_Node (filter external_probe (nths nodes {k. (i + k) mod length insts = j}))"
  using assms(3)
proof (induction nodes arbitrary: i h p)
  case (Cons x nodes)
  let ?n = "length insts" and ?id = "inst_id insts (i mod length insts)"
  have "i mod ?n < ?n" using assms(2) by (intro mod_less_divisor) auto
  then have id: "inst_id insts j = ?id \<longleftrightarrow> i mod ?n = j"
    using inst_id_inj [OF assms(1,2), of "i mod ?n"] by auto
  have sets: "{k. Suc k \<in> {k. (i + k) mod ?n = j}} = {k. (i + 1 + k) mod ?n = j}" by simp
  show ?case
  proof (cases "external_probe x")
    case True
    with Cons.prems have "assign_nodes insts (i + 1) nodes (h, append_node ?id (nd_Node x) p) = (h', p')"
      by (simp add: inst_id_def)
    from Cons.IH [OF this] id True show ?thesis by (auto simp: nths_Cons sets)
  next
    case False
    with Cons.prems have "assign_nodes insts (i + 1) nodes (append_node ?id (nd_Node x) h, p) = (h', p')"
      by (simp add: inst_id_def)
    from Cons.IH [OF this] id False show ?thesis by (auto simp: nths_Cons sets)
  qed
qed simp

lemma nodeLists_share:
  assumes "distinct_insts insts" and "j < length insts" and "nodeLists nodes insts = (h, p)"
  shows "list_at h (inst_id insts j) =
      map nd_Node (filter (\<lambda>n. \<not> external_probe n) (share (length insts) j nodes))"
    and "list_at p (inst_id insts j) = map nd_Node (filter external_probe (share (length insts) j nodes))"
proof -
  have a: "assign_nodes insts 0 nodes ([], []) = (h, p)" using assms by (auto simp: nodeLists_def split: if_splits)
  have z: "list_at [] k = []" for k by (simp add: list_at_def)
  from assign_nodes_share [OF assms(1,2) a]
  show "list_at h (inst_id insts j) =
      map nd_Node (filter (\<lambda>n. \<not> external_probe n) (share (length insts) j nodes))"
    and "list_at p (inst_id insts j) = map nd_Node (filter external_probe (share (length insts) j nodes))"
    by (simp_all add: z share_def)
qed

lemma set_share: "set (share n j xs) = {xs ! i | i. i < length xs \<and> i mod n = j}"
  by (auto simp: share_def set_nths)

lemma length_share: "j < n \<Longrightarrow> length (share n j xs) = length xs div n + (if j < length xs mod n then 1 else 0)"
proof -
  assume j: "j < n"
  have "length (nths xs {i. i mod n = j}) = card {i. i < length xs \<and> i mod n = j}"
    by (simp add: length_nths)
  moreover have "card {i. i < m \<and> i mod n = j} = m div n + (if j < m mod n then 1 else 0)" for m
  proof (induction m)
    case (Suc m)
    have eq: "{i. i < Suc m \<and> i mod n = j} =
        (if m mod n = j then insert m {i. i < m \<and> i mod n = j} else {i. i < m \<and> i mod n = j})"
      by (auto simp: less_Suc_eq)
    show ?case unfolding eq using Suc j by (auto simp: div_Suc mod_Suc)
  qed simp
  ultimately show "length (share n j xs) = length xs div n + (if j < length xs mod n then 1 else 0)"
    by (simp add: share_def)
qed

lemma node_partition:
  assumes "distinct_insts insts" and "insts \<noteq> []" and "distinct (map nd_Node nodes)"
    and "nodeLists nodes insts = (health, ping)"
  shows "(\<forall>x \<in> set nodes. \<exists>!j. j < length insts \<and>
      nd_Node x \<in> set (list_at health (inst_id insts j)) \<union> set (list_at ping (inst_id insts j))) \<and>
    (\<forall>x \<in> set nodes. \<forall>j < length insts.
      (nd_Node x \<in> set (list_at ping (inst_id insts j)) \<longrightarrow> external_probe x) \<and>
      (nd_Node x \<in> set (list_at health (inst_id insts j)) \<longrightarrow> \<not> external_probe x)) \<and>
    (\<forall>j < length insts. set (list_at health (inst_id insts j)) \<union> set (list_at ping (inst_id insts j))
      \<subseteq> nd_Node ` set nodes)"
proof -
  let ?n = "length insts"
  have inj: "inj_on nd_Node (set nodes)" using assms(3) by (simp add: distinct_map)
  have nth: "nodes ! i = nodes ! k \<longleftrightarrow> i = k" if "i < length nodes" "k < length nodes" for i k
    using assms(3) that by (metis distinct_map nth_eq_iff_index_eq)
  have ls: "set (list_at health (inst_id insts j)) = nd_Node ` {x \<in> set (share ?n j nodes). \<not> external_probe x}"
    "set (list_at ping (inst_id insts j)) = nd_Node ` {x \<in> set (share ?n j nodes). external_probe x}"
    if "j < ?n" for j using nodeLists_share [OF assms(1) that assms(4)] by auto
  have sub: "set (share ?n j nodes) \<subseteq> set nodes" for j unfolding set_share by auto
  have mem: "nd_Node x \<in> set (list_at health (inst_id insts j)) \<union> set (list_at ping (inst_id insts j))
      \<longleftrightarrow> x \<in> set (share ?n j nodes)" if "j < ?n" "x \<in> set nodes" for j x
  proof -
    have "set (list_at health (inst_id insts j)) \<union> set (list_at ping (inst_id insts j)) =
        nd_Node ` set (share ?n j nodes)" unfolding ls [OF that(1)] by auto
    then show ?thesis using inj_on_image_mem_iff [OF inj that(2) sub] by simp
  qed
  have ex: "\<exists>!j. j < ?n \<and> x \<in> set (share ?n j nodes)" if "x \<in> set nodes" for x
  proof -
    from that obtain i where i: "i < length nodes" "nodes ! i = x" by (auto simp: in_set_conv_nth)
    have "x \<in> set (share ?n j nodes) \<longleftrightarrow> i mod ?n = j" for j
      unfolding set_share using i nth by auto
    then show ?thesis using assms(2) by auto
  qed
  have 1: "\<forall>x \<in> set nodes. \<exists>!j. j < ?n \<and>
      nd_Node x \<in> set (list_at health (inst_id insts j)) \<union> set (list_at ping (inst_id insts j))"
    using ex mem by (metis (no_types, lifting))
  have 2: "(nd_Node x \<in> set (list_at ping (inst_id insts j)) \<longrightarrow> external_probe x) \<and>
      (nd_Node x \<in> set (list_at health (inst_id insts j)) \<longrightarrow> \<not> external_probe x)"
    if "x \<in> set nodes" "j < ?n" for x j
    using that sub [of j] inj_onD [OF inj] unfolding ls [OF that(2)] by fastforce
  have 3: "set (list_at health (inst_id insts j)) \<union> set (list_at ping (inst_id insts j))
      \<subseteq> nd_Node ` set nodes" if "j < ?n" for j
    unfolding ls [OF that] using sub [of j] by auto
  show ?thesis using 1 2 3 by simp
qed

text \<open>The distribution is balanced: the numbers of nodes that two instances are responsible for
  differ by at most one.\<close>

lemma nodeLists_balanced:
  assumes "distinct_insts insts" and "nodeLists nodes insts = (health, ping)"
    and "j < length insts" and "k < length insts"
  shows "length (list_at health (inst_id insts j)) + length (list_at ping (inst_id insts j)) \<le>
    length (list_at health (inst_id insts k)) + length (list_at ping (inst_id insts k)) + 1"
proof -
  have sum: "length (list_at health (inst_id insts i)) + length (list_at ping (inst_id insts i)) =
      length (share (length insts) i nodes)" if "i < length insts" for i
    using nodeLists_share [OF assms(1) that assms(2)]
      sum_length_filter_compl [of external_probe "share (length insts) i nodes"] by simp
  show ?thesis unfolding sum [OF assms(3)] sum [OF assms(4)]
    using length_share [OF assms(3), of nodes] length_share [OF assms(4), of nodes] by simp
qed

text \<open>C18. Every external node is the responsibility of exactly one instance: for instances with
  distinct IDs and nodes with distinct names, each node is on the lists of exactly one
  instance, on its list of nodes to ping if its metadata ask for probes and on its list of
  nodes to check otherwise; the lists of an instance hold nothing but nodes; and the numbers of nodes on the lists of two
  instances differ by at most one.\<close>

theorem nodeLists_partition:
  assumes "distinct_insts insts" and "insts \<noteq> []" and "distinct (map nd_Node nodes)"
    and "nodeLists nodes insts = (health, ping)"
  shows "(\<forall>x \<in> set nodes. \<exists>!j. j < length insts \<and>
      nd_Node x \<in> set (list_at health (inst_id insts j)) \<union> set (list_at ping (inst_id insts j))) \<and>
    (\<forall>x \<in> set nodes. \<forall>j < length insts.
      (nd_Node x \<in> set (list_at ping (inst_id insts j)) \<longrightarrow> external_probe x) \<and>
      (nd_Node x \<in> set (list_at health (inst_id insts j)) \<longrightarrow> \<not> external_probe x)) \<and>
    (\<forall>j < length insts. set (list_at health (inst_id insts j)) \<union> set (list_at ping (inst_id insts j))
      \<subseteq> nd_Node ` set nodes) \<and>
    (\<forall>j < length insts. \<forall>k < length insts.
      length (list_at health (inst_id insts j)) + length (list_at ping (inst_id insts j)) \<le>
      length (list_at health (inst_id insts k)) + length (list_at ping (inst_id insts k)) + 1)"
  using node_partition [OF assms] nodeLists_balanced [OF assms(1,4)] by simp

subsection \<open>The KV store\<close>

text \<open>The documented effect of the leader's operations on the keys of the KV store.\<close>

definition apply_kv :: "KVTxnOp \<Rightarrow> (string \<Rightarrow> string option) \<Rightarrow> string \<Rightarrow> string option" where
  "apply_kv p m = (case kv_Verb p of KVSet \<Rightarrow> m(kv_Key p \<mapsto> kv_Value p)
     | KVDeleteTree \<Rightarrow> (\<lambda>k. if prefix (kv_Key p) k then None else m k) | KVDeleteCAS \<Rightarrow> m)"

definition kv_semantics :: "'w leader_client \<Rightarrow> ('w \<Rightarrow> string \<Rightarrow> string option) \<Rightarrow> bool" where
  "kv_semantics cl kv \<longleftrightarrow> (\<forall>ops q w w'. KV_Txn cl ops q w = (Inr True, w') \<longrightarrow>
     kv w' = fold apply_kv ops (kv w))"

lemma commitOps_kv:
  "kv_semantics cl kv \<Longrightarrow> commitOps cl a ops w = (True, w') \<Longrightarrow> kv w' = fold apply_kv ops (kv w)"
  by (auto simp: kv_semantics_def commitOps_def split: prod.splits sum.splits)

lemma write_lists_kv:
  assumes "kv_semantics cl kv" and "write_lists cl a wl agents ops w = (True, w')"
  shows "kv w' = fold apply_kv (ops @ map (watch_op a wl) agents) (kv w)"
  using assms(2)
proof (induction agents arbitrary: ops w)
  case Nil
  then show ?case using commitOps_kv [OF assms(1)] by simp
next
  case (Cons g agents)
  let ?ops = "ops @ [watch_op a wl g]"
  show ?case
  proof (cases "int (length ?ops) \<ge> maxTxnOps")
    case True
    then obtain w1 where c: "commitOps cl a ?ops w = (True, w1)"
      and r: "write_lists cl a wl agents [] w1 = (True, w')"
      using Cons.prems by (auto simp: Let_def split: prod.splits bool.splits)
    from Cons.IH [OF r] commitOps_kv [OF assms(1) c] show ?thesis by simp
  next
    case False
    then have "write_lists cl a wl agents ?ops w = (True, w')" using Cons.prems by simp
    from Cons.IH [OF this] show ?thesis by simp
  qed
qed

lemma kv_op_simps [simp]:
  "kv_Verb (kv_op a v k x) = v" "kv_Key (kv_op a v k x) = k" "kv_Value (kv_op a v k x) = x"
  by (simp_all add: kv_op_def HasPartition_def Let_def)

definition watch_value :: "(string, string list) go_map \<times> (string, string list) go_map \<Rightarrow> string \<Rightarrow> string" where
  "watch_value wl sid = Marshal \<lparr>nw_Nodes = list_at (fst wl) sid, nw_Probes = list_at (snd wl) sid\<rparr>"

lemma fold_watch_ops:
  "fold apply_kv (map (watch_op a wl) agents) m k =
   (if \<exists>g \<in> set agents. k = kvNodeListPath a @ svc_ID (se_Service g)
    then Some (watch_value wl (drop (length (kvNodeListPath a)) k)) else m k)"
  by (induction agents arbitrary: m)
    (auto simp: watch_op_def apply_kv_def watch_value_def Let_def)

lemma pass_kv:
  assumes "kv_semantics cl kv" and "computeWatchedNodes_pass cl a i (s, w) = (s', w')"
    and "lw_retryTimer s' = NoTimer"
  shows "kv w' k = (if \<exists>g \<in> set (lw_healthyInstances s'). k = kvNodeListPath a @ svc_ID (se_Service g)
      then Some (watch_value (nodeLists (lw_externalNodes s') (lw_healthyInstances s'))
        (drop (length (kvNodeListPath a)) k))
      else if prefix (kvNodeListPath a) k then None else kv w k)"
proof -
  let ?s = "(receive i s)\<lparr>lw_retryTimer := NoTimer\<rparr>"
  let ?wl = "nodeLists (lw_externalNodes ?s) (lw_healthyInstances ?s)"
  obtain w1 where wr: "write_lists cl a ?wl (lw_healthyInstances ?s)
      [kv_op a KVDeleteTree (kvNodeListPath a) ''''] w = (True, w1)"
    and s': "s' = ?s\<lparr>lw_prev := Some ?wl\<rparr>" "w' = w1"
    using assms(2,3) by (auto simp: computeWatchedNodes_pass_def Let_def split: if_splits prod.splits bool.splits)
  from write_lists_kv [OF assms(1) wr] have "kv w' = fold apply_kv (map (watch_op a ?wl) (lw_healthyInstances ?s))
      (apply_kv (kv_op a KVDeleteTree (kvNodeListPath a) '''') (kv w))" by (simp add: s')
  then show ?thesis unfolding s'(1) by (simp add: fold_watch_ops) (simp add: apply_kv_def)
qed

text \<open>The documented outcomes of a transaction: all its operations take effect when it succeeds and none
  when it is rejected; a call that ended in an error may have been applied or not.\<close>

definition kv_atomic :: "'w leader_client \<Rightarrow> ('w \<Rightarrow> string \<Rightarrow> string option) \<Rightarrow> bool" where
  "kv_atomic cl kv \<longleftrightarrow> kv_semantics cl kv \<and>
     (\<forall>ops q w w'. KV_Txn cl ops q w = (Inr False, w') \<longrightarrow> kv w' = kv w) \<and>
     (\<forall>ops q w w' err. KV_Txn cl ops q w = (Inl err, w') \<longrightarrow> kv w' = kv w \<or> kv w' = fold apply_kv ops (kv w))"

lemma commitOps_atomic:
  assumes "kv_atomic cl kv" and "commitOps cl a ops w = (b, w')"
  shows "(kv w' = kv w \<and> \<not> b) \<or> kv w' = fold apply_kv ops (kv w)"
proof -
  let ?txn = "KV_Txn cl ops (ConsulQueryOption a) w"
  from assms(2) consider err where "?txn = (Inl err, w')" "\<not> b" | "?txn = (Inr True, w')" | "?txn = (Inr False, w')" "\<not> b"
    by (cases b) (auto simp: commitOps_def split: prod.splits sum.splits)
  then show ?thesis using assms(1) unfolding kv_atomic_def kv_semantics_def by cases blast+
qed

lemma write_lists_partial:
  assumes "kv_atomic cl kv" and "write_lists cl a wl agents ops w = (b, w')"
  shows "(kv w' = kv w \<and> \<not> b) \<or>
    (\<exists>n \<le> length agents. kv w' = fold apply_kv (ops @ map (watch_op a wl) (take n agents)) (kv w))"
  using assms(2)
proof (induction agents arbitrary: ops w)
  case Nil
  then show ?case using commitOps_atomic [OF assms(1)] by simp
next
  case (Cons g agents)
  let ?ops = "ops @ [watch_op a wl g]"
  let ?upto = "\<lambda>n. kv w' = fold apply_kv (ops @ map (watch_op a wl) (take n (g # agents))) (kv w)"
  show ?case
  proof (cases "int (length ?ops) \<ge> maxTxnOps")
    case False
    then have "write_lists cl a wl agents ?ops w = (b, w')" using Cons.prems by simp
    from Cons.IH [OF this] show ?thesis
    proof
      assume "\<exists>n \<le> length agents. kv w' = fold apply_kv (?ops @ map (watch_op a wl) (take n agents)) (kv w)"
      then obtain n where "n \<le> length agents"
        "kv w' = fold apply_kv (?ops @ map (watch_op a wl) (take n agents)) (kv w)" by blast
      then show ?thesis by (intro disjI2 exI [of _ "Suc n"]) simp
    qed blast
  next
    case True
    obtain b1 w1 where c: "commitOps cl a ?ops w = (b1, w1)" by fastforce
    have r: "if b1 then write_lists cl a wl agents [] w1 = (b, w') else \<not> b \<and> w' = w1"
      using Cons.prems True c by (auto simp: Let_def)
    have one: "?upto 1" if "kv w' = kv w1" "kv w1 = fold apply_kv ?ops (kv w)" using that by simp
    from commitOps_atomic [OF assms(1) c] show ?thesis
    proof
      assume "kv w1 = kv w \<and> \<not> b1"
      with r show ?thesis by simp
    next
      assume k: "kv w1 = fold apply_kv ?ops (kv w)"
      show ?thesis
      proof (cases b1)
        case False
        with r have "?upto 1" using one k by simp
        then show ?thesis by (intro disjI2 exI [of _ 1]) simp
      next
        case True
        with r have "write_lists cl a wl agents [] w1 = (b, w')" by simp
        from Cons.IH [OF this] show ?thesis
        proof
          assume "kv w' = kv w1 \<and> \<not> b"
          then have "?upto 1" using one k by simp
          then show ?thesis by (intro disjI2 exI [of _ 1]) simp
        next
          assume "\<exists>n \<le> length agents. kv w' = fold apply_kv ([] @ map (watch_op a wl) (take n agents)) (kv w1)"
          then obtain n where "n \<le> length agents"
            "kv w' = fold apply_kv ([] @ map (watch_op a wl) (take n agents)) (kv w1)" by blast
          then show ?thesis using k by (intro disjI2 exI [of _ "Suc n"]) simp
        qed
      qed
    qed
  qed
qed

lemma fold_lists:
  "fold apply_kv (kv_op a KVDeleteTree (kvNodeListPath a) '''' # map (watch_op a wl) agents) m k =
   (if \<exists>g \<in> set agents. k = kvNodeListPath a @ svc_ID (se_Service g)
    then Some (watch_value wl (drop (length (kvNodeListPath a)) k))
    else if prefix (kvNodeListPath a) k then None else m k)"
  by (simp add: fold_watch_ops) (simp add: apply_kv_def)

lemma in_take_inst:
  "n \<le> length insts \<Longrightarrow> (\<exists>g \<in> set (take n insts). k = path @ svc_ID (se_Service g)) \<longleftrightarrow>
     (\<exists>j < n. k = path @ inst_id insts j)"
proof -
  assume n: "n \<le> length insts"
  have "set (take n insts) = (!) insts ` {j. j < n}"
    using n by (simp add: nth_image flip: lessThan_def atLeast0LessThan)
  then show ?thesis by (auto simp: inst_id_def)
qed

lemma pass_has_instances:
  "computeWatchedNodes_pass cl a i (s, w) = (s', w') \<Longrightarrow> lw_retryTimer s' = NoTimer \<Longrightarrow> lw_healthyInstances s' \<noteq> []"
  by (auto simp: computeWatchedNodes_pass_def Let_def split: if_splits prod.splits bool.splits)

lemma pass_failed:
  assumes "computeWatchedNodes_pass cl a i (s, w) = (s', w')" and "lw_retryTimer s' \<noteq> NoTimer"
  shows "lw_retryTimer s' = RetryTimer retryTime \<and>
    (if lw_healthyInstances s' = [] then w' = w
     else write_lists cl a (nodeLists (lw_externalNodes s') (lw_healthyInstances s')) (lw_healthyInstances s')
       [kv_op a KVDeleteTree (kvNodeListPath a) ''''] w = (False, w'))"
  using assms by (auto simp: computeWatchedNodes_pass_def Let_def split: if_splits prod.splits bool.splits)

text \<open>C17. What the KV store holds after a pass of the leader, whatever the transactions do. A pass that
  ends without scheduling a retry has published the distribution: under the path of the lists
  there are exactly the encoded lists of all healthy instances, nothing else is left there,
  and no other key changed. A pass that failed schedules the retry and has left the store as
  it was, or with exactly the new lists of the first instances: lists of the old and of the
  new distribution are never mixed, so no node is ever on two of them.\<close>

theorem leader_publishes:
  assumes "kv_atomic cl kv" and "computeWatchedNodes_pass cl a i (s, w) = (s', w')"
    and "nodeLists (lw_externalNodes s') (lw_healthyInstances s') = (health, ping)"
  shows "let insts = lw_healthyInstances s';
        lists = (\<lambda>sid. Marshal \<lparr>nw_Nodes = list_at health sid, nw_Probes = list_at ping sid\<rparr>);
        written = (\<lambda>n. \<forall>k. kv w' k =
          (if \<exists>j < n. k = kvNodeListPath a @ inst_id insts j
           then Some (lists (drop (length (kvNodeListPath a)) k))
           else if prefix (kvNodeListPath a) k then None else kv w k)) in
    (lw_retryTimer s' = NoTimer \<longrightarrow> insts \<noteq> [] \<and> written (length insts)) \<and>
    (lw_retryTimer s' \<noteq> NoTimer \<longrightarrow> lw_retryTimer s' = RetryTimer retryTime \<and>
       (kv w' = kv w \<or> (\<exists>n \<le> length insts. written n)))"
proof -
  let ?is = "lw_healthyInstances s'" and ?path = "kvNodeListPath a"
  let ?written = "\<lambda>n. \<forall>k. kv w' k =
      (if \<exists>j < n. k = ?path @ inst_id ?is j then Some (watch_value (health, ping) (drop (length ?path) k))
       else if prefix ?path k then None else kv w k)"
  have sem: "kv_semantics cl kv" using assms(1) by (simp add: kv_atomic_def)
  have ok: "?is \<noteq> [] \<and> ?written (length ?is)" if "lw_retryTimer s' = NoTimer"
    using pass_kv [OF sem assms(2) that, unfolded assms(3)] pass_has_instances [OF assms(2) that]
      in_take_inst [of "length ?is" ?is] by simp
  have bad: "lw_retryTimer s' = RetryTimer retryTime \<and> (kv w' = kv w \<or> (\<exists>n \<le> length ?is. ?written n))"
    if "lw_retryTimer s' \<noteq> NoTimer"
  proof -
    from pass_failed [OF assms(2) that] have t: "lw_retryTimer s' = RetryTimer retryTime" by simp
    show ?thesis
    proof (cases "?is = []")
      case True
      with pass_failed [OF assms(2) that] t show ?thesis by simp
    next
      case False
      with pass_failed [OF assms(2) that] assms(3) have "write_lists cl a (health, ping) ?is
          [kv_op a KVDeleteTree ?path ''''] w = (False, w')" by simp
      from write_lists_partial [OF assms(1) this] show ?thesis
      proof
        assume "\<exists>n \<le> length ?is. kv w' = fold apply_kv ([kv_op a KVDeleteTree ?path ''''] @
            map (watch_op a (health, ping)) (take n ?is)) (kv w)"
        then obtain n where n: "n \<le> length ?is" and k: "kv w' = fold apply_kv
          (kv_op a KVDeleteTree ?path '''' # map (watch_op a (health, ping)) (take n ?is)) (kv w)" by auto
        have "?written n" unfolding k fold_lists in_take_inst [OF n] by blast
        with n t show ?thesis by blast
      qed (simp add: t)
    qed
  qed
  show ?thesis unfolding Let_def
    by (intro conjI impI ok [unfolded watch_value_def fst_conv snd_conv, THEN conjunct1]
      ok [unfolded watch_value_def fst_conv snd_conv, THEN conjunct2]
      bad [unfolded watch_value_def fst_conv snd_conv, THEN conjunct1]
      bad [unfolded watch_value_def fst_conv snd_conv, THEN conjunct2])
qed


subsection \<open>From the leader to the agents\<close>

lemma dom_fold_store: "dom (gm_load (fold (\<lambda>n. gm_store n True) xs m)) = set xs \<union> dom (gm_load m)"
  by (induction xs arbitrary: m) auto

lemma dom_healthNodes: "dom (gm_load (healthNodes_of l)) = set (nw_Nodes l) \<union> set (nw_Probes l)"
  unfolding healthNodes_of_def dom_fold_store by auto

lemma fold_store_True:
  "gm_load (fold (\<lambda>n. gm_store n True) xs m) n = (if n \<in> set xs then Some True else gm_load m n)"
  by (induction xs arbitrary: m) auto

lemma healthNodes_True:
  "gm_load (healthNodes_of l) n = Some True \<longleftrightarrow> n \<in> set (nw_Nodes l) \<union> set (nw_Probes l)"
  by (simp add: healthNodes_of_def fold_store_True)

text \<open>Reading the lists back: the reader sees the store, and can list the nodes of the catalog.\<close>

definition reads :: "'w watch_client \<Rightarrow> ('w \<Rightarrow> string \<Rightarrow> string option) \<Rightarrow> bool" where
  "reads rcl kv \<longleftrightarrow> (\<forall>k i w. \<exists>p li w'. KV_Get rcl k i w = (Inr (p, li), w') \<and> map_option kp_Value p = kv w k) \<and>
     (\<forall>q w. \<exists>ns w'. Catalog_Nodes rcl q w = (Inr ns, w'))"

lemma watchNodeList_reads:
  assumes "reads rcl kv" and "kv w (kvNodeListPath b @ serviceID b) = Some (Marshal l)"
    and "\<forall>x \<in> set (nw_Nodes l) \<union> set (nw_Probes l). ascii x"
  shows "\<exists>pl. fst (watchNodeList_pass rcl b (st, w)) = Some (healthNodes_of l, pl)"
proof -
  obtain p li w1 where g: "KV_Get rcl (kvNodeListPath b @ serviceID b) (nwt_WaitIndex st) w = (Inr (p, li), w1)"
    and v: "map_option kp_Value p = Some (Marshal l)"
    using assms(1,2) unfolding reads_def by metis
  from v obtain pr where "p = Some pr" "kp_Value pr = Marshal l" by auto
  moreover obtain ns w2 where "Catalog_Nodes rcl (zero_opts\<lparr>qo_NodeMeta := cfg_NodeMeta (config b),
      qo_AllowStale := cfg_StaleReadNodes (config b)\<rparr>) w1 = (Inr ns, w2)"
    using assms(1) unfolding reads_def by metis
  ultimately show ?thesis using g json_round_trip [OF assms(3)]
    by (simp add: watchNodeList_pass_def Let_def)
qed

text \<open>Every external node is watched by exactly one agent: after a leader's pass that published its
  distribution, let every healthy instance read its list from the store and decode it; then
  each external node (with distinct ASCII names) is among the nodes of exactly one of them.\<close>

lemma watched_once:
  assumes "kv_semantics cl kv" and "computeWatchedNodes_pass cl a i (s, w) = (s', w')"
    and "lw_retryTimer s' = NoTimer" and "lw_healthyInstances s' \<noteq> []"
    and "distinct_insts (lw_healthyInstances s')"
    and "distinct (map nd_Node (lw_externalNodes s'))" and "\<forall>x \<in> set (lw_externalNodes s'). ascii (nd_Node x)"
    and "reads rcl kv"
    and "\<forall>j < length (lw_healthyInstances s'). serviceID (agents j) = inst_id (lw_healthyInstances s') j \<and>
      kvNodeListPath (agents j) = kvNodeListPath a"
    and "x \<in> set (lw_externalNodes s')"
  shows "\<exists>!j. j < length (lw_healthyInstances s') \<and>
    (\<exists>nodes pings. fst (watchNodeList_pass rcl (agents j) (st, w')) = Some (nodes, pings) \<and>
       gm_load nodes (nd_Node x) = Some True)"
proof -
  let ?is = "lw_healthyInstances s'" and ?ns = "lw_externalNodes s'"
  obtain health ping where nl: "nodeLists ?ns ?is = (health, ping)" by fastforce
  note part = node_partition [OF assms(5,4,6) nl]
  note one = part [THEN conjunct1, rule_format, OF assms(10)]
    and sub = part [THEN conjunct2, THEN conjunct2, rule_format]
  have eq: "(\<exists>nodes pings. fst (watchNodeList_pass rcl (agents j) (st, w')) = Some (nodes, pings) \<and>
       gm_load nodes (nd_Node x) = Some True) \<longleftrightarrow>
      nd_Node x \<in> set (list_at health (inst_id ?is j)) \<union> set (list_at ping (inst_id ?is j))"
    if j: "j < length ?is" for j
  proof -
    let ?l = "\<lparr>nw_Nodes = list_at health (inst_id ?is j), nw_Probes = list_at ping (inst_id ?is j)\<rparr>"
    have "?is ! j \<in> set ?is" using j by simp
    then have "kv w' (kvNodeListPath a @ inst_id ?is j) = Some (Marshal ?l)"
      using pass_kv [OF assms(1-3), of "kvNodeListPath a @ inst_id ?is j"] nl
      by (auto simp: watch_value_def inst_id_def)
    then have kv: "kv w' (kvNodeListPath (agents j) @ serviceID (agents j)) = Some (Marshal ?l)"
      using assms(9) j by simp
    have "\<forall>y \<in> set (nw_Nodes ?l) \<union> set (nw_Probes ?l). ascii y"
      using sub [OF j] assms(7) by auto
    from watchNodeList_reads [OF assms(8) kv this] obtain pl
      where "fst (watchNodeList_pass rcl (agents j) (st, w')) = Some (healthNodes_of ?l, pl)" by blast
    then show ?thesis by (auto simp: healthNodes_True)
  qed
  show ?thesis using one by (simp only: eq cong: conj_cong)
qed

text \<open>A KV store that is a map, two instances and three nodes, for the witnesses.\<close>

definition map_leader :: "(string \<Rightarrow> string option) leader_client" where
  "map_leader = \<lparr>KV_Txn = (\<lambda>ops q w. (Inr True, fold apply_kv ops w)),
     Catalog_Nodes_Q = (\<lambda>q w. (Inr ([], 0), w)), Health_Service = (\<lambda>s t p q w. (Inr ([], 0), w))\<rparr>"

definition map_reader :: "(string \<Rightarrow> string option) watch_client" where
  "map_reader = \<lparr>KV_Get = (\<lambda>k i w. (Inr (map_option (\<lambda>v. \<lparr>kp_Key = k, kp_Value = v, kp_ModifyIndex = 0\<rparr>) (w k), 0), w)),
     Catalog_Nodes = (\<lambda>q w. (Inr [], w)), Health_State = (\<lambda>s q w. (Inr ([], 0), w))\<rparr>"

definition sample_inst :: "string \<Rightarrow> ServiceEntry" where
  "sample_inst i = \<lparr>se_Service = \<lparr>svc_ID = i, svc_Service = ''esm'', svc_Meta = [], svc_Tags = []\<rparr>\<rparr>"

definition sample_node :: "string \<Rightarrow> bool \<Rightarrow> api_node" where
  "sample_node n probe = \<lparr>nd_ID = n, nd_Node = n, nd_Address = '''',
     nd_Meta = (if probe then Some [(''external-probe'', ''true'')] else None), nd_ModifyIndex = 0\<rparr>"

definition sample_nodes :: "api_node list" where
  "sample_nodes = [sample_node ''a'' False, sample_node ''b'' True, sample_node ''c'' True]"

definition sample_insts :: "ServiceEntry list" where
  "sample_insts = [sample_inst ''esm:1'', sample_inst ''esm:2'']"

definition sample_agent :: "string \<Rightarrow> Agent" where
  "sample_agent i = \<lparr>config = (case DefaultConfig (Inr i) of Inr c \<Rightarrow> c\<lparr>cfg_Service := ''esm''\<rparr>),
     agent_id = i, shutdown = False, inflightPings = [], knownNodeStatuses = [],
     namespaceWildcard = '''', namespaceWildcardDetected = False\<rparr>"

definition sample_watch :: leader_watch where
  "sample_watch = \<lparr>lw_externalNodes = sample_nodes, lw_healthyInstances = sample_insts, lw_prev = None,
     lw_retryTimer = NoTimer\<rparr>"

lemma kv_semantics_map: "kv_semantics map_leader (\<lambda>w. w)"
  by (simp add: kv_semantics_def map_leader_def)

lemma kv_atomic_map: "kv_atomic map_leader (\<lambda>w. w)"
  by (simp add: kv_atomic_def kv_semantics_map) (simp add: map_leader_def)

lemma reads_map: "reads map_reader (\<lambda>w. w)"
  by (auto simp: reads_def map_reader_def option.map_comp comp_def option.map_ident)

lemma sample_insts_distinct: "distinct_insts sample_insts" "sample_insts \<noteq> []" "length sample_insts = 2"
  by (simp_all add: distinct_insts_def sample_insts_def sample_inst_def)

lemma sample_nodes_distinct: "distinct (map nd_Node sample_nodes)"
  "\<forall>x \<in> set sample_nodes. ascii (nd_Node x)"
  by (simp_all add: sample_nodes_def sample_node_def)

lemma write_lists_map: "fst (write_lists map_leader a wl insts ops w)"
  by (induction insts arbitrary: ops w) (simp_all add: commitOps_def map_leader_def Let_def)

lemma sample_pass:
  obtains w' where "computeWatchedNodes_pass map_leader (sample_agent ''1'') RetryFired (sample_watch, w) =
    (sample_watch\<lparr>lw_prev := Some (nodeLists sample_nodes sample_insts)\<rparr>, w')"
proof -
  obtain b w' where "write_lists map_leader (sample_agent ''1'') (nodeLists sample_nodes sample_insts) sample_insts
      [kv_op (sample_agent ''1'') KVDeleteTree (kvNodeListPath (sample_agent ''1'')) ''''] w = (b, w')" by fastforce
  moreover from this have b using write_lists_map by (metis fst_conv)
  ultimately have "computeWatchedNodes_pass map_leader (sample_agent ''1'') RetryFired (sample_watch, w) =
    (sample_watch\<lparr>lw_prev := Some (nodeLists sample_nodes sample_insts)\<rparr>, w')"
    by (simp add: computeWatchedNodes_pass_def receive_def sample_watch_def sample_insts_distinct Let_def)
  then show ?thesis by (rule that)
qed

theorem nodeLists_partition_witness:
  "\<exists>!j :: nat. j < 2 \<and> ''b'' \<in> set (list_at (fst (nodeLists sample_nodes sample_insts)) (inst_id sample_insts j)) \<union>
     set (list_at (snd (nodeLists sample_nodes sample_insts)) (inst_id sample_insts j))"
proof -
  obtain h p where nl: "nodeLists sample_nodes sample_insts = (h, p)" by fastforce
  have "sample_node ''b'' True \<in> set sample_nodes" "nd_Node (sample_node ''b'' True) = ''b''"
    by (simp_all add: sample_nodes_def sample_node_def)
  with nodeLists_partition [OF sample_insts_distinct(1,2) sample_nodes_distinct(1) nl] nl
  show ?thesis unfolding sample_insts_distinct(3) by (metis (no_types, lifting) fst_conv snd_conv)
qed

theorem leader_publishes_witness:
  "\<exists>s' w'. computeWatchedNodes_pass map_leader (sample_agent ''1'') RetryFired (sample_watch, Map.empty) = (s', w') \<and>
     w' ''consul-esm/agents/esm:1'' = Some (Marshal \<lparr>nw_Nodes = [''a''], nw_Probes = [''c'']\<rparr>)"
proof -
  obtain w' where p: "computeWatchedNodes_pass map_leader (sample_agent ''1'') RetryFired (sample_watch, Map.empty) =
    (sample_watch\<lparr>lw_prev := Some (nodeLists sample_nodes sample_insts)\<rparr>, w')" by (rule sample_pass)
  have path: "kvNodeListPath (sample_agent ''1'') @ ''esm:1'' = ''consul-esm/agents/esm:1''" by code_simp
  have l: "list_at (fst (nodeLists sample_nodes sample_insts)) ''esm:1'' = [''a'']"
    "list_at (snd (nodeLists sample_nodes sample_insts)) ''esm:1'' = [''c'']" by code_simp+
  have id: "inst_id sample_insts 0 = ''esm:1''" by code_simp
  from leader_publishes [OF kv_atomic_map p, of "fst (nodeLists sample_nodes sample_insts)"
      "snd (nodeLists sample_nodes sample_insts)"]
  have "\<forall>k. w' k = (if \<exists>j < length sample_insts. k = kvNodeListPath (sample_agent ''1'') @ inst_id sample_insts j
      then Some (watch_value (nodeLists sample_nodes sample_insts) (drop (length (kvNodeListPath (sample_agent ''1''))) k))
      else if prefix (kvNodeListPath (sample_agent ''1'')) k then None else None)"
    by (simp add: sample_watch_def Let_def watch_value_def)
  then have "w' (kvNodeListPath (sample_agent ''1'') @ inst_id sample_insts 0) =
      Some (watch_value (nodeLists sample_nodes sample_insts) (inst_id sample_insts 0))"
    using sample_insts_distinct(3) by (auto intro: exI [of _ 0])
  then have "w' (kvNodeListPath (sample_agent ''1'') @ inst_id sample_insts 0) =
      Some (Marshal \<lparr>nw_Nodes = [''a''], nw_Probes = [''c'']\<rparr>)"
    unfolding id watch_value_def l .
  with p show ?thesis unfolding id path by blast
qed

end
