(* ===== verification/Agent_Claims.thy ===== *)
theory Agent_Claims
  imports Agent_Watch Check_Results Leader_Lists
begin

text \<open>
  The agent's watch of health checks as a whole: what a pass of \<^verbatim>\<open>watchHealthChecks\<close> makes the check
  runner do, where it does nothing, and the detection of the edition that its query relies on.
\<close>

subsection \<open>From the catalog to the check runner\<close>

text \<open>The catalog answers every query for health checks with the checks \<open>cs\<close> at index \<open>li\<close>.\<close>

definition catalog_has :: "'w watch_client \<Rightarrow> HealthCheck list \<Rightarrow> nat \<Rightarrow> bool" where
  "catalog_has cl cs li \<longleftrightarrow> (\<forall>q w. \<exists>w'. Health_State cl HealthAny q w = (Inr (cs, li), w'))"

definition ours :: "(string, bool) go_map \<Rightarrow> HealthCheck list \<Rightarrow> HealthCheck list" where
  "ours nodes = filter (\<lambda>k. gm_load nodes (hc_Node k) = Some True)"

lemma getHealthChecks_answer:
  assumes "catalog_has cl cs li"
  obtains a' w' where "getHealthChecks acl cl i nodes (a, w) =
    ((filter (\<lambda>k. hc_CheckID k \<noteq> externalCheckName) (ours nodes cs), li), a', w')"
proof -
  obtain ns a1 w1 where g: "getNamespaceWildcard acl (a, w) = (ns, a1, w1)" using prod_cases3 by blast
  let ?q = "HasPartition a1 (\<lambda>p o'. o'\<lparr>qo_Partition := p\<rparr>)
    (zero_opts\<lparr>qo_NodeMeta := cfg_NodeMeta (config a1), qo_WaitIndex := i, qo_Namespace := ns,
       qo_WaitTime := 45 * Second, qo_AllowStale := cfg_StaleReadNodes (config a1)\<rparr>)"
  obtain w2 where h: "Health_State cl HealthAny ?q w1 = (Inr (cs, li), w2)"
    using assms unfolding catalog_has_def by blast
  have "getHealthChecks acl cl i nodes (a, w) =
      ((filter (\<lambda>k. hc_CheckID k \<noteq> externalCheckName) (ours nodes cs), li), a1, w2)"
    unfolding getHealthChecks_def prod.case g Let_def h sum.case
    by (simp add: ours_def conj_commute)
  then show ?thesis by (rule that)
qed

lemma hashes_not_external:
  "hashes (filter (\<lambda>k. hc_CheckID k \<noteq> externalCheckName) cs) = hashes cs"
  by (auto simp: hashes_def runnable_def)

text \<open>A pass of \<^verbatim>\<open>watchHealthChecks\<close> with a new node list makes the runner watch the runnable checks
  of those nodes and no others: when the catalog answers with \<open>cs\<close> and some check is on a
  listed node, then afterwards the watched hashes are those of the runnable checks of \<open>cs\<close> on
  listed nodes, a checker runs for each of them and no other checker runs, and the next
  query waits for a later index.\<close>

lemma pass_synced:
  assumes "watchHealthChecks_pass ord acl cl (Some nodes) (s, c, a, w) = (s', c', a', w')"
    and "catalog_has cl cs li" and "runner_inv c" and "visits ord"
    and "\<forall>k \<in> set cs. single_protocol (hc_Definition k)"
    and "\<exists>k \<in> set (ours nodes cs). hc_CheckID k \<noteq> externalCheckName"
  shows "dom (gm_load (checks c')) = hashes (ours nodes cs) \<and>
    dom (ref_at c') = hashes (ours nodes cs) \<and> running c' = ran (ref_at c') \<and>
    runner_inv c' \<and> cw_ourNodes s' = nodes \<and> cw_waitIndex s' = li"
proof -
  let ?ks = "filter (\<lambda>k. hc_CheckID k \<noteq> externalCheckName) (ours nodes cs)"
  have ne: "?ks \<noteq> []" using assms(6) by (auto simp: filter_empty_conv)
  have nn: "nodes \<noteq> []" using assms(6) by (auto simp: ours_def)
  obtain a1 w1 where g: "getHealthChecks acl cl 0 nodes (a, w) = ((?ks, li), a1, w1)"
    using getHealthChecks_answer [OF assms(2)] by blast
  obtain found added updated removed where
    up: "UpdateChecks ord ?ks c = (fst (UpdateChecks ord ?ks c), found, added, updated, removed)"
    by (metis prod.collapse)
  have sp: "\<forall>k \<in> set ?ks. single_protocol (hc_Definition k)" using assms(5) by (auto simp: ours_def)
  have c': "c' = fst (UpdateChecks ord ?ks c)" and s': "cw_ourNodes s' = nodes" "cw_waitIndex s' = li"
    using assms(1) ne nn g by (auto simp: watchHealthChecks_pass_def Let_def)
  note eff = UpdateChecks_effect [OF up assms(3,4) sp, folded c', unfolded hashes_not_external]
  then show ?thesis using s' by (simp add: runner_inv_def refs_inv_def)
qed

text \<open>A fresh runner ends up with the checkers of the listed nodes' checks, even if there are none.\<close>

lemma fresh_synced:
  assumes "catalog_has cl cs li" and "visits ord" and "\<forall>k \<in> set cs. single_protocol (hc_Definition k)"
  shows "dom (ref_at (fst (snd (watchHealthChecks_pass ord acl cl (Some nodes) (s, agent_runner b tls, a, w))))) =
    hashes (ours nodes cs)"
proof (cases "\<exists>k \<in> set (ours nodes cs). hc_CheckID k \<noteq> externalCheckName")
  case True
  obtain s' c' a' w' where p: "watchHealthChecks_pass ord acl cl (Some nodes) (s, agent_runner b tls, a, w) =
    (s', c', a', w')" using prod_cases4 by blast
  have "runner_inv (agent_runner b tls)" unfolding agent_runner_def by (rule runner_inv_New)
  from pass_synced [OF p assms(1) this assms(2,3) True] show ?thesis by (simp add: p)
next
  case False
  then have e: "filter (\<lambda>k. hc_CheckID k \<noteq> externalCheckName) (ours nodes cs) = []"
    by (simp add: filter_empty_conv)
  have h: "hashes (ours nodes cs) = {}" using False by (auto simp: hashes_def runnable_def)
  have n: "dom (ref_at (agent_runner b tls)) = {}"
    by (simp add: agent_runner_def NewCheckRunner_def ref_at_def dom_def)
  obtain a1 w1 where g: "getHealthChecks acl cl 0 nodes (a, w) =
      ((filter (\<lambda>k. hc_CheckID k \<noteq> externalCheckName) (ours nodes cs), li), a1, w1)"
    using getHealthChecks_answer [OF assms(1)] by blast
  show ?thesis unfolding h using n by (simp add: watchHealthChecks_pass_def Let_def g e)
qed

definition list_catalog :: "HealthCheck list \<Rightarrow> unit watch_client" where
  "list_catalog cs = \<lparr>KV_Get = (\<lambda>k i w. (Inr (None, 0), w)), Catalog_Nodes = (\<lambda>q w. (Inr [], w)),
     Health_State = (\<lambda>s q w. (Inr (cs, 7), w))\<rparr>"

definition quiet_agent :: "(string + self_info) \<Rightarrow> unit agent_client" where
  "quiet_agent self = \<lparr>Catalog_Service = (\<lambda>n t q w. (Inr [], w)), Catalog_Node = (\<lambda>n q w. (Inr None, w)),
     Catalog_Register = (\<lambda>r q w. (None, w)), Agent_Service = (\<lambda>n q w. (None, w)),
     Agent_ServiceRegister = (\<lambda>r w. (None, w)), Agent_Services = (\<lambda>q w. (Inr [], w)),
     Agent_CheckRegister = (\<lambda>r q w. (None, w)), Agent_UpdateTTL = (\<lambda>i o' s q w. (None, w)),
     Agent_Self = (\<lambda>w. (self, w)), Catalog_DeregisterService = (\<lambda>n s p q w. (None, w)),
     Agent_ServiceDeregister = (\<lambda>s q w. (None, w))\<rparr>"

definition idle_watch :: check_watch where
  "idle_watch = \<lparr>cw_ourNodes = [], cw_waitIndex = 0, cw_checkCount = 0\<rparr>"

text \<open>C39. Checks are never stopped for want of work. When the leader moves the last node away from an
  agent, the agent decodes an empty list, and neither the pass that receives it nor any number
  of later timer passes touches the runner: its checkers keep running and reporting. The
  same holds when the catalog has no check left on the watched nodes.\<close>

theorem lost_nodes_keep_running:
  assumes "catalog_has cl cs li" and "\<forall>k \<in> set (ours nodes cs). hc_CheckID k = externalCheckName"
  shows "healthNodes_of \<lparr>nw_Nodes = [], nw_Probes = []\<rparr> = [] \<and>
    fst (snd (((watchHealthChecks_pass ord acl cl None) ^^ n)
      (watchHealthChecks_pass ord acl cl (Some []) (s, c, a, w)))) = c \<and>
    fst (snd (((watchHealthChecks_pass ord acl cl None) ^^ n)
      (watchHealthChecks_pass ord acl cl (Some nodes) (s, c, a, w)))) = c"
proof -
  have stay: "\<exists>aw'. watchHealthChecks_pass ord acl cl None (t, c, aw) = (t, c, aw')"
    if "cw_ourNodes t = [] \<or> cw_ourNodes t = nodes" for t aw
  proof -
    obtain a0 w0 where aw: "aw = (a0, w0)" by fastforce
    obtain a1 w1 where g: "getHealthChecks acl cl (cw_waitIndex t) nodes (a0, w0) =
        ((filter (\<lambda>k. hc_CheckID k \<noteq> externalCheckName) (ours nodes cs), li), a1, w1)"
      using getHealthChecks_answer [OF assms(1)] by blast
    moreover have "filter (\<lambda>k. hc_CheckID k \<noteq> externalCheckName) (ours nodes cs) = []"
      using assms(2) by (simp add: filter_empty_conv)
    ultimately show ?thesis using that by (auto simp: watchHealthChecks_pass_def Let_def aw)
  qed
  have iter: "\<exists>aw'. ((watchHealthChecks_pass ord acl cl None) ^^ n) (t, c, aw) = (t, c, aw')"
    if "cw_ourNodes t = [] \<or> cw_ourNodes t = nodes" for t aw n
  proof (induction n)
    case (Suc n)
    then show ?case using stay [OF that] by fastforce
  qed simp
  have first: "watchHealthChecks_pass ord acl cl (Some ns) (s, c, a, w) =
      watchHealthChecks_pass ord acl cl None (s\<lparr>cw_ourNodes := ns, cw_waitIndex := 0\<rparr>, c, a, w)" for ns
    by (simp add: watchHealthChecks_pass_def Let_def)
  have "fst (snd (((watchHealthChecks_pass ord acl cl None) ^^ n)
      (watchHealthChecks_pass ord acl cl (Some ns) (s, c, a, w)))) = c" if "ns = [] \<or> ns = nodes" for ns
    using iter [of "s\<lparr>cw_ourNodes := ns, cw_waitIndex := 0\<rparr>" "Suc n" "(a, w)"] that
    unfolding first funpow_Suc_right comp_apply by fastforce
  then show ?thesis by (simp add: healthNodes_of_def)
qed

theorem lost_nodes_keep_running_witness:
  "let c = fst (UpdateChecks rev [sample_check] sample_runner);
       c' = fst (snd (((watchHealthChecks_pass rev (quiet_agent (Inl ''down'')) (list_catalog []) None) ^^ 5)
         (watchHealthChecks_pass rev (quiet_agent (Inl ''down'')) (list_catalog []) (Some [(''n1'', True)])
           (idle_watch, c, sample_agent ''1'', ()))))
   in events c' = [Started 0]"
proof -
  let ?c = "fst (UpdateChecks rev [sample_check] sample_runner)"
  have cat: "catalog_has (list_catalog []) [] 7" by (simp add: catalog_has_def list_catalog_def)
  have "events ?c = [Started 0]" by code_simp
  with lost_nodes_keep_running [OF cat, of "[(''n1'', True)]" 5 rev "quiet_agent (Inl ''down'')" idle_watch ?c
      "sample_agent ''1''" "()"]
  show ?thesis by (simp add: ours_def Let_def)
qed

subsection \<open>The edition of Consul\<close>

text \<open>The state of the servers after \<open>k\<close> queries for the agent's own information.\<close>

definition after_self :: "'w agent_client \<Rightarrow> nat \<Rightarrow> 'w \<Rightarrow> 'w" where
  "after_self cl k = (\<lambda>w. snd (Agent_Self cl w)) ^^ k"

lemma after_self_Suc: "after_self cl (Suc k) w = after_self cl k (snd (Agent_Self cl w))"
  unfolding after_self_def funpow_Suc_right by simp

lemma fetchSelf_retries:
  assumes "k < n" and "\<forall>i < k. isl (fst (Agent_Self cl (after_self cl i w)))"
    and "fst (Agent_Self cl (after_self cl k w)) = Inr info"
  shows "fetchSelf cl n w = (Inr info, after_self cl (Suc k) w)"
  using assms
proof (induction n arbitrary: k w)
  case (Suc n)
  show ?case
  proof (cases k)
    case 0
    with Suc.prems show ?thesis by (cases "Agent_Self cl w") (simp add: after_self_def)
  next
    case (Suc j)
    obtain e w1 where q: "Agent_Self cl w = (Inl e, w1)"
      using Suc.prems(2) Suc by (cases "Agent_Self cl w"; cases "fst (Agent_Self cl w)") (auto simp: after_self_def)
    have "\<forall>i < j. isl (fst (Agent_Self cl (after_self cl i w1)))"
      using Suc.prems(2) Suc q by (metis Suc_less_eq after_self_Suc snd_conv)
    moreover have "fst (Agent_Self cl (after_self cl j w1)) = Inr info"
      using Suc.prems(3) Suc q by (simp add: after_self_Suc)
    ultimately have "fetchSelf cl n w1 = (Inr info, after_self cl (Suc j) w1)"
      using Suc.IH Suc.prems(1) Suc by simp
    then show ?thesis using q Suc Suc.prems(1) after_self_Suc [of cl k w] by simp
  qed
qed simp

text \<open>The edition is detected as soon as one of three attempts is answered, and never asked for
  again: if at most two queries fail before one returns a version, the health checks are
  queried in all namespaces exactly when that version has the Enterprise mark, exactly that
  many queries were made, and every later call, with any server behind it, returns the same
  value without a query.\<close>

lemma edition_detected_once:
  assumes "\<not> namespaceWildcardDetected a" and "k < maxRetriesEntDetection"
    and "\<forall>i < k. isl (fst (Agent_Self cl (after_self cl i w)))"
    and "fst (Agent_Self cl (after_self cl k w)) = Inr info" and "self_version info = Some (SelfString v)"
    and "getNamespaceWildcard cl (a, w) = (ns, a', w')"
  shows "ns = (if Contains v ''+ent'' then ''*'' else '''') \<and> w' = after_self cl (Suc k) w \<and>
    getNamespaceWildcard cl' (a', w2) = (ns, a', w2)"
proof -
  have "fetchSelf cl maxRetriesEntDetection w = (Inr info, after_self cl (Suc k) w)"
    by (rule fetchSelf_retries [OF assms(2-4)])
  with assms(1,5,6) show ?thesis by (auto simp: getNamespaceWildcard_def Let_def)
qed

definition ent_info :: self_info where
  "ent_info = [(''Config'', [(''Version'', SelfString ''1.18.0+ent'')])]"

lemma edition_detected_once_witness:
  "\<exists>a'. getNamespaceWildcard (quiet_agent (Inr ent_info)) (sample_agent ''1'', ()) = (''*'', a', ()) \<and>
     getNamespaceWildcard (quiet_agent (Inl ''down'')) (a', ()) = (''*'', a', ())"
proof -
  obtain ns a' w' where g: "getNamespaceWildcard (quiet_agent (Inr ent_info)) (sample_agent ''1'', ()) = (ns, a', w')"
    using prod_cases3 by blast
  have e: "Contains ''1.18.0+ent'' ''+ent''"
    unfolding Contains_def sublist_def by (intro exI [of _ "''1.18.0''"] exI [of _ "[]"]) simp
  have d: "\<not> namespaceWildcardDetected (sample_agent ''1'')" "0 < maxRetriesEntDetection"
    by (simp_all add: sample_agent_def maxRetriesEntDetection_def)
  have v: "self_version ent_info = Some (SelfString ''1.18.0+ent'')"
    by (simp add: self_version_def ent_info_def gm_load_def)
  have s: "fst (Agent_Self (quiet_agent (Inr ent_info)) (after_self (quiet_agent (Inr ent_info)) 0 ())) = Inr ent_info"
    by (simp add: quiet_agent_def)
  from edition_detected_once [OF d _ s v g, of "quiet_agent (Inl ''down'')" "()"] e
  have "ns = ''*''" "getNamespaceWildcard (quiet_agent (Inl ''down'')) (a', ()) = (ns, a', ())" by simp_all
  with g show ?thesis by (cases w') blast
qed

end
