(* ===== verification/Agent_Register.thy ===== *)
theory Agent_Register
  imports Agent_Claims
begin

text \<open>
  The registration of an instance in agentless mode, against a catalog that does what it says: an instance
  ID is registered once, a lost registration comes back with the next pass of
  \<^verbatim>\<open>runAgentlessRegister\<close>, and the end of \<^verbatim>\<open>Run\<close> removes it.
\<close>

text \<open>The services of the catalog by name and ID. Queries tell the truth when they answer; a registration or
  deregistration that reports no error has been made, one that reports an error has not.\<close>

definition catalog_semantics :: "'w agent_client \<Rightarrow> ('w \<Rightarrow> (string \<times> string) set) \<Rightarrow> bool" where
  "catalog_semantics cl services \<longleftrightarrow>
     (\<forall>n t q w. services (snd (Catalog_Service cl n t q w)) = services w) \<and>
     (\<forall>n t q w ss. fst (Catalog_Service cl n t q w) = Inr ss \<longrightarrow>
        cs_ServiceID ` set ss = {i. (n, i) \<in> services w}) \<and>
     (\<forall>n q w. services (snd (Catalog_Node cl n q w)) = services w) \<and>
     (\<forall>reg opts w. services (snd (Catalog_Register cl reg opts w)) =
        (case (fst (Catalog_Register cl reg opts w), cr_Service reg) of
           (None, Some s) \<Rightarrow> insert (svc_Service s, svc_ID s) (services w) | _ \<Rightarrow> services w)) \<and>
     (\<forall>n s p opts w. services (snd (Catalog_DeregisterService cl n s p opts w)) =
        (case fst (Catalog_DeregisterService cl n s p opts w) of
           None \<Rightarrow> {x \<in> services w. snd x \<noteq> s} | Some e \<Rightarrow> services w))"

lemma catalog_semanticsD:
  assumes "catalog_semantics cl services"
  shows "Catalog_Service cl n t q w = (r, w') \<Longrightarrow> services w' = services w"
    and "Catalog_Service cl n t q w = (Inr ss, w') \<Longrightarrow> containsService i ss \<longleftrightarrow> (n, i) \<in> services w"
    and "Catalog_Node cl m q' w = (r', w') \<Longrightarrow> services w' = services w"
    and "Catalog_Register cl reg opts w = (r'', w') \<Longrightarrow> services w' =
        (case (r'', cr_Service reg) of (None, Some s) \<Rightarrow> insert (svc_Service s, svc_ID s) (services w) | _ \<Rightarrow> services w)"
proof -
  note sem = assms [unfolded catalog_semantics_def]
  show "Catalog_Service cl n t q w = (r, w') \<Longrightarrow> services w' = services w"
    using sem [THEN conjunct1, rule_format, of n t q w] by simp
  show "Catalog_Node cl m q' w = (r', w') \<Longrightarrow> services w' = services w"
    using sem [THEN conjunct2, THEN conjunct2, THEN conjunct1, rule_format, of m q' w] by simp
  show "Catalog_Register cl reg opts w = (r'', w') \<Longrightarrow> services w' =
      (case (r'', cr_Service reg) of (None, Some s) \<Rightarrow> insert (svc_Service s, svc_ID s) (services w) | _ \<Rightarrow> services w)"
    using sem [THEN conjunct2, THEN conjunct2, THEN conjunct2, THEN conjunct1, rule_format, of reg opts w] by simp
  show "containsService i ss \<longleftrightarrow> (n, i) \<in> services w" if "Catalog_Service cl n t q w = (Inr ss, w')"
  proof -
    have "cs_ServiceID ` set ss = {i. (n, i) \<in> services w}"
      using sem [THEN conjunct2, THEN conjunct1, rule_format, of n t q w ss] that by simp
    then have "i \<in> cs_ServiceID ` set ss \<longleftrightarrow> (n, i) \<in> services w" by simp
    then show ?thesis by (auto simp: containsService_def list_ex_iff image_iff)
  qed
qed

lemma registration_service:
  "cr_Service (createCatalogRegistration a False x) = None"
  "\<exists>s. cr_Service (createCatalogRegistration a True x) = Some s \<and> svc_Service s = cfg_Service (config a) \<and>
     svc_ID s = serviceID a"
  by (simp_all add: createCatalogRegistration_def Let_def)

abbreviation own :: "Agent \<Rightarrow> string \<times> string" where
  "own a \<equiv> (cfg_Service (config a), serviceID a)"

text \<open>The only success of \<^verbatim>\<open>registerCatalog\<close> is a registration that was missing; every error leaves the
  services as they were.\<close>

lemma registerCatalog_effect:
  assumes "catalog_semantics cl services" and "registerCatalog cl a w = (r, w')"
  shows "case r of None \<Rightarrow> own a \<notin> services w \<and> services w' = insert (own a) (services w)
    | Some e \<Rightarrow> services w' = services w"
proof -
  note sem = catalog_semanticsD [OF assms(1)]
  let ?o = "\<lparr>wo_Datacenter = cfg_Datacenter (config a), wo_Partition = PartitionOrEmpty a\<rparr>"
  obtain q w1 where 1: "Catalog_Service cl (cfg_Service (config a)) '''' (ConsulQueryOption a) w = (q, w1)" by fastforce
  have w1: "services w1 = services w" by (rule sem(1) [OF 1])
  show ?thesis
  proof (cases q)
    case (Inl e)
    then show ?thesis using assms(2) 1 w1 by (auto simp: registerCatalog_def)
  next
    case (Inr ss)
    note mem = sem(2) [OF 1 [unfolded Inr]]
    obtain nd w2 where 2: "Catalog_Node cl (agentlessNodeID a) None w1 = (nd, w2)" by fastforce
    have w2: "services w2 = services w" using sem(3) [OF 2] w1 by simp
    obtain r3 w3 where 3: "(case nd of Inr None \<Rightarrow> Catalog_Register cl (createCatalogRegistration a False False) ?o w2
        | _ \<Rightarrow> (None, w2)) = (r3, w3)" by fastforce
    have w3: "services w3 = services w"
      using 3 w2 sem(4) [of "createCatalogRegistration a False False" ?o w2 r3 w3] registration_service(1) [of a False]
      by (auto split: sum.splits option.splits)
    obtain r4 w4 where 4: "Catalog_Register cl (createCatalogRegistration a True True) ?o w3 = (r4, w4)" by fastforce
    have w4: "services w4 = (if r4 = None then insert (own a) (services w) else services w)"
      using sem(4) [OF 4] w3 registration_service(2) [of a True] by (auto split: option.splits)
    show ?thesis using assms(2) 1 2 3 4 w1 w2 w3 w4 mem Inr
      by (auto simp: registerCatalog_def Let_def split: if_splits sum.splits option.splits prod.splits)
  qed
qed

text \<open>A catalog whose calls all succeed.\<close>

definition catalog_up :: "'w agent_client \<Rightarrow> bool" where
  "catalog_up cl \<longleftrightarrow> (\<forall>n t q w. \<not> isl (fst (Catalog_Service cl n t q w))) \<and>
     (\<forall>n q w. \<not> isl (fst (Catalog_Node cl n q w))) \<and>
     (\<forall>reg opts w. fst (Catalog_Register cl reg opts w) = None) \<and>
     (\<forall>n s p opts w. fst (Catalog_DeregisterService cl n s p opts w) = None)"

lemma catalog_upD:
  assumes "catalog_up cl"
  shows "\<exists>ss w'. Catalog_Service cl n t q w = (Inr ss, w')" and "\<exists>nd w'. Catalog_Node cl n q' w = (Inr nd, w')"
    and "\<exists>w'. Catalog_Register cl reg opts w = (None, w')"
proof -
  note up = assms [unfolded catalog_up_def]
  show "\<exists>ss w'. Catalog_Service cl n t q w = (Inr ss, w')"
    using up [THEN conjunct1, rule_format, of n t q w]
    by (cases "Catalog_Service cl n t q w"; cases "fst (Catalog_Service cl n t q w)") auto
  show "\<exists>nd w'. Catalog_Node cl n q' w = (Inr nd, w')"
    using up [THEN conjunct2, THEN conjunct1, rule_format, of n q' w]
    by (cases "Catalog_Node cl n q' w"; cases "fst (Catalog_Node cl n q' w)") auto
  show "\<exists>w'. Catalog_Register cl reg opts w = (None, w')"
    using up [THEN conjunct2, THEN conjunct2, THEN conjunct1, rule_format, of reg opts w]
    by (cases "Catalog_Register cl reg opts w") auto
qed

lemma registerCatalog_up:
  assumes "catalog_semantics cl services" and "catalog_up cl" and "own a \<notin> services w"
  shows "\<exists>w'. registerCatalog cl a w = (None, w')"
proof -
  let ?o = "\<lparr>wo_Datacenter = cfg_Datacenter (config a), wo_Partition = PartitionOrEmpty a\<rparr>"
  obtain ss w1 where 1: "Catalog_Service cl (cfg_Service (config a)) '''' (ConsulQueryOption a) w = (Inr ss, w1)"
    using catalog_upD(1) [OF assms(2)] by blast
  have n: "\<not> containsService (serviceID a) ss" using catalog_semanticsD(2) [OF assms(1) 1] assms(3) by simp
  obtain nd w2 where 2: "Catalog_Node cl (agentlessNodeID a) None w1 = (Inr nd, w2)"
    using catalog_upD(2) [OF assms(2)] by blast
  obtain w3 where 3: "(if nd = None then Catalog_Register cl (createCatalogRegistration a False False) ?o w2
      else (None, w2)) = (None, w3)"
    using catalog_upD(3) [OF assms(2), of "createCatalogRegistration a False False" ?o w2] by (cases "nd = None") auto
  obtain w4 where 4: "Catalog_Register cl (createCatalogRegistration a True True) ?o w3 = (None, w4)"
    using catalog_upD(3) [OF assms(2)] by blast
  show ?thesis using 1 n 2 3 4 by (auto simp: registerCatalog_def Let_def split: option.splits if_splits)
qed


text \<open>A catalog that is a list of services, for the witness.\<close>

definition list_registry :: "(string \<times> string) list agent_client" where
  "list_registry = \<lparr>
     Catalog_Service = (\<lambda>n t q w. (Inr (map (\<lambda>x. \<lparr>cs_ServiceID = snd x, cs_ServiceMeta = []\<rparr>) (filter (\<lambda>x. fst x = n) w)), w)),
     Catalog_Node = (\<lambda>n q w. (Inr None, w)),
     Catalog_Register = (\<lambda>r q w. (None, case cr_Service r of None \<Rightarrow> w | Some s \<Rightarrow> (svc_Service s, svc_ID s) # w)),
     Agent_Service = (\<lambda>n q w. (None, w)), Agent_ServiceRegister = (\<lambda>r w. (None, w)),
     Agent_Services = (\<lambda>q w. (Inr [], w)), Agent_CheckRegister = (\<lambda>r q w. (None, w)),
     Agent_UpdateTTL = (\<lambda>i o' s q w. (None, w)), Agent_Self = (\<lambda>w. (Inl '''', w)),
     Catalog_DeregisterService = (\<lambda>n s p q w. (None, filter (\<lambda>x. snd x \<noteq> s) w)),
     Agent_ServiceDeregister = (\<lambda>s q w. (None, w))\<rparr>"

lemma list_registry_laws: "catalog_semantics list_registry set" "catalog_up list_registry"
  by (auto simp: catalog_semantics_def catalog_up_def list_registry_def image_iff split: option.splits)


end
