(* ===== verification/Leader_Loop.thy ===== *)
theory Leader_Loop
  imports Agent_Core
begin

text \<open>
  The two goroutines that hold a Consul lock: \<^verbatim>\<open>runLeaderLoop\<close> of \<^verbatim>\<open>src/leader.go\<close> and
  \<^verbatim>\<open>runAgentlessSession\<close> of \<^verbatim>\<open>src/agent.go\<close>. Both have the same control flow over the client's
  \<^verbatim>\<open>api.Lock\<close>; the leader also sets a gauge and starts \<^verbatim>\<open>computeWatchedNodes\<close>. The state has
  the program point, the variable \<^verbatim>\<open>lock\<close>, and, for the client library, the set of lock objects
  that hold their lock: \<^verbatim>\<open>Lock\<close> either fails, or returns no channel (on shutdown), or acquires;
  it fails with \<^verbatim>\<open>ErrLockHeld\<close> exactly on an object that holds already; \<^verbatim>\<open>Unlock\<close> releases.
\<close>

text \<open>The options both goroutines build for their lock: the key, and the session's node, name, TTL and
  node checks.\<close>

record LockOptions =
  lo_Key :: string
  lo_MonitorRetries :: int
  lo_Node :: string
  lo_Name :: string
  lo_TTL :: string
  lo_NodeChecks :: "string list"

definition leader_lock_opts :: "Agent \<Rightarrow> LockOptions" where
  "leader_lock_opts a = \<lparr>lo_Key = cfg_KVPath (config a) @ LeaderKey, lo_MonitorRetries = sessionMonitorRetries,
     lo_Node = agentlessNodeID a, lo_Name = ''consul-esm leader lock'', lo_TTL = sessionTTL,
     lo_NodeChecks = [agentlessCheckID a]\<rparr>"

text \<open>How the leader loop creates its lock: with a session of its own in agentless mode, with the client's
  default session of the agent otherwise.\<close>

datatype lock_call = LockOpts LockOptions | LockKey string

definition leader_lock :: "Agent \<Rightarrow> lock_call" where
  "leader_lock a = (if isAgentLess a then LockOpts (leader_lock_opts a)
     else LockKey (cfg_KVPath (config a) @ LeaderKey))"

definition session_lock_opts :: "Agent \<Rightarrow> LockOptions" where
  "session_lock_opts a = \<lparr>lo_Key = cfg_KVPath (config a) @ agentlessSessionID a,
     lo_MonitorRetries = sessionMonitorRetries, lo_Node = agentlessNodeID a,
     lo_Name = agentlessSessionID a, lo_TTL = sessionTTL, lo_NodeChecks = [agentlessCheckID a]\<rparr>"

datatype loop_pc = AtWait | AtLock | AtHold | AtExit

record lock_loop =
  ll_pc :: loop_pc
  ll_lock :: "nat option"
  ll_next :: nat \<comment> \<open>the next lock object\<close>
  ll_held :: "nat set" \<comment> \<open>the lock objects that hold their lock\<close>
  ll_shutdown :: bool
  ll_isLeader :: bool \<comment> \<open>the gauge\<close>
  ll_computing :: "nat list" \<comment> \<open>the leaderships for which \<^verbatim>\<open>computeWatchedNodes\<close> was started\<close>

text \<open>The deferred function: unlock if there is a lock, reset the gauge.\<close>

definition leave :: "lock_loop \<Rightarrow> lock_loop" where
  "leave s = s\<lparr>ll_pc := AtExit, ll_isLeader := False,
     ll_held := (case ll_lock s of None \<Rightarrow> ll_held s | Some h \<Rightarrow> ll_held s - {h})\<rparr>"

definition giveUp :: "nat \<Rightarrow> lock_loop \<Rightarrow> lock_loop" where
  "giveUp h s = s\<lparr>ll_pc := AtWait, ll_lock := None, ll_held := ll_held s - {h}\<rparr>"

inductive lock_step :: "bool \<Rightarrow> lock_loop \<Rightarrow> lock_loop \<Rightarrow> bool" for lead :: bool where
  shutdown_arrives: "ll_pc s \<noteq> AtExit \<Longrightarrow> \<not> ll_shutdown s \<Longrightarrow> lock_step lead s (s\<lparr>ll_shutdown := True\<rparr>)"
| wait_shutdown: "ll_pc s = AtWait \<Longrightarrow> ll_shutdown s \<Longrightarrow> lock_step lead s (leave s)"
| create_fails: "ll_pc s = AtWait \<Longrightarrow> \<not> ll_shutdown s \<Longrightarrow> ll_lock s = None \<Longrightarrow> lock_step lead s s"
| create: "ll_pc s = AtWait \<Longrightarrow> \<not> ll_shutdown s \<Longrightarrow> ll_lock s = None \<Longrightarrow>
    lock_step lead s (s\<lparr>ll_pc := AtLock, ll_lock := Some (ll_next s), ll_next := Suc (ll_next s)\<rparr>)"
| reuse: "ll_pc s = AtWait \<Longrightarrow> \<not> ll_shutdown s \<Longrightarrow> ll_lock s = Some h \<Longrightarrow>
    lock_step lead s (s\<lparr>ll_pc := AtLock\<rparr>)"
| lock_already_held: "ll_pc s = AtLock \<Longrightarrow> ll_lock s = Some h \<Longrightarrow> h \<in> ll_held s \<Longrightarrow>
    lock_step lead s (giveUp h s)"
| lock_fails: "ll_pc s = AtLock \<Longrightarrow> ll_lock s = Some h \<Longrightarrow> h \<notin> ll_held s \<Longrightarrow>
    lock_step lead s (s\<lparr>ll_pc := AtWait, ll_lock := None\<rparr>)"
| lock_quits: "ll_pc s = AtLock \<Longrightarrow> ll_shutdown s \<Longrightarrow> lock_step lead s (leave s)"
| lock_acquires: "ll_pc s = AtLock \<Longrightarrow> ll_lock s = Some h \<Longrightarrow> h \<notin> ll_held s \<Longrightarrow>
    lock_step lead s (s\<lparr>ll_pc := AtHold, ll_held := insert h (ll_held s), ll_isLeader := lead,
      ll_computing := (if lead then ll_computing s @ [h] else ll_computing s)\<rparr>)"
| lock_lost: "ll_pc s = AtHold \<Longrightarrow> ll_lock s = Some h \<Longrightarrow>
    lock_step lead s ((giveUp h s)\<lparr>ll_isLeader := False\<rparr>)"
| hold_shutdown: "ll_pc s = AtHold \<Longrightarrow> ll_shutdown s \<Longrightarrow> lock_step lead s (leave s)"

inductive_cases lock_stepE: "lock_step lead s t"

definition runLeaderLoop :: "lock_loop \<Rightarrow> lock_loop \<Rightarrow> bool" where
  "runLeaderLoop = lock_step True"

definition runAgentlessSession :: "lock_loop \<Rightarrow> lock_loop \<Rightarrow> bool" where
  "runAgentlessSession = lock_step False"

definition loop_start :: "lock_loop \<Rightarrow> bool" where
  "loop_start s \<longleftrightarrow> ll_pc s = AtWait \<and> ll_lock s = None \<and> ll_held s = {} \<and> \<not> ll_isLeader s \<and> ll_computing s = []"

text \<open>Only the current lock object may hold its lock, and it does exactly while the loop holds
  leadership; the gauge shows that; leaderships are numbered by their lock object.\<close>

definition loop_inv :: "bool \<Rightarrow> lock_loop \<Rightarrow> bool" where
  "loop_inv lead s \<longleftrightarrow>
     ll_held s = (if ll_pc s = AtHold then set_option (ll_lock s) else {}) \<and>
     (ll_pc s = AtHold \<longrightarrow> ll_lock s \<noteq> None) \<and> (ll_pc s = AtLock \<longrightarrow> ll_lock s \<noteq> None) \<and>
     ll_isLeader s = (lead \<and> ll_pc s = AtHold) \<and>
     (\<forall>h. ll_lock s = Some h \<longrightarrow> h < ll_next s) \<and>
     (\<forall>h \<in> set (ll_computing s). h < ll_next s) \<and> distinct (ll_computing s) \<and>
     (ll_pc s = AtLock \<longrightarrow> (\<forall>h. ll_lock s = Some h \<longrightarrow> h \<notin> set (ll_computing s))) \<and>
     (ll_pc s = AtWait \<longrightarrow> ll_lock s = None)"

lemma loop_inv_step: "loop_inv lead s \<Longrightarrow> lock_step lead s t \<Longrightarrow> loop_inv lead t"
  by (erule lock_stepE) (auto simp: loop_inv_def leave_def giveUp_def split: if_splits option.splits)

interpretation leader: inductive_invariant loop_start runLeaderLoop "loop_inv True"
proof unfold_locales
  show "loop_start s \<Longrightarrow> loop_inv True s" for s by (simp add: loop_start_def loop_inv_def)
  show "loop_inv True s \<Longrightarrow> runLeaderLoop s t \<Longrightarrow> loop_inv True t" for s t
    unfolding runLeaderLoop_def by (rule loop_inv_step)
qed

interpretation session: inductive_invariant loop_start runAgentlessSession "loop_inv False"
proof unfold_locales
  show "loop_start s \<Longrightarrow> loop_inv False s" for s by (simp add: loop_start_def loop_inv_def)
  show "loop_inv False s \<Longrightarrow> runAgentlessSession s t \<Longrightarrow> loop_inv False t" for s t
    unfolding runAgentlessSession_def by (rule loop_inv_step)
qed

text \<open>How many steps are left at most once shutdown was requested.\<close>

fun pc_rank :: "loop_pc \<Rightarrow> nat" where
  "pc_rank AtLock = 3"
| "pc_rank AtHold = 2"
| "pc_rank AtWait = 1"
| "pc_rank AtExit = 0"

lemma shutdown_rank:
  "lock_step lead s t \<Longrightarrow> ll_shutdown s \<Longrightarrow> ll_shutdown t \<and> pc_rank (ll_pc t) < pc_rank (ll_pc s)"
  by (erule lock_stepE) (auto simp: leave_def giveUp_def)

lemma shutdown_moves:
  "loop_inv lead s \<Longrightarrow> ll_shutdown s \<Longrightarrow> ll_pc s \<noteq> AtExit \<Longrightarrow> \<exists>t. lock_step lead s t"
  by (cases "ll_pc s") (auto intro: wait_shutdown lock_quits hold_shutdown)


definition start_state :: lock_loop where
  "start_state = \<lparr>ll_pc = AtWait, ll_lock = None, ll_next = 0, ll_held = {}, ll_shutdown = False,
     ll_isLeader = False, ll_computing = []\<rparr>"

definition leading_state :: lock_loop where
  "leading_state = \<lparr>ll_pc = AtHold, ll_lock = Some 0, ll_next = 1, ll_held = {0}, ll_shutdown = False,
     ll_isLeader = True, ll_computing = [0]\<rparr>"

lemma reach_leading: "reach loop_start runLeaderLoop leading_state"
proof -
  let ?s = "\<lparr>ll_pc = AtLock, ll_lock = Some 0, ll_next = 1, ll_held = {}, ll_shutdown = False,
     ll_isLeader = False, ll_computing = []\<rparr>"
  have 1: "reach loop_start runLeaderLoop start_state"
    by (rule reach_init) (simp add: loop_start_def start_state_def)
  have 2: "runLeaderLoop start_state ?s"
    using lock_step.create [of start_state True] by (simp add: runLeaderLoop_def start_state_def)
  have 3: "runLeaderLoop ?s leading_state"
    using lock_step.lock_acquires [of ?s 0 True] by (simp add: runLeaderLoop_def leading_state_def)
  show ?thesis by (rule reach_step [OF reach_step [OF 1 2] 3])
qed




end
