(* ===== verification/Coordinate.thy ===== *)
theory Coordinate
  imports Agent_Watch
begin

text \<open>
  \<^verbatim>\<open>src/coordinate.go\<close>: external nodes are pinged in a shuffled round robin; the result sets the
  node's \<^verbatim>\<open>externalNodeHealth\<close> check and its network coordinate, tracks in the KV store since
  when a node is unreachable, and deregisters nodes that stay unreachable.

  Arguments: the ping library, the random numbers, the time, the coordinate arithmetic of
  \<^verbatim>\<open>serf\<close>, and the client. The binary encoding of times (\<^verbatim>\<open>time.GobEncode\<close>) is modelled.
\<close>

definition NodeAliveStatus :: string where
  "NodeAliveStatus = ''Node alive or reachable''"

definition NodeCriticalStatus :: string where
  "NodeCriticalStatus = ''Node not live or unreachable''"

definition MetaSegmentKey :: string where
  "MetaSegmentKey = ''consul-network-segment''"

definition MaxRTT :: int where
  "MaxRTT = 5 * Second"


subsection \<open>Times as bytes\<close>

text \<open>The \<open>k\<close> low bytes of \<open>n\<close>, most significant first, and back.\<close>

fun be_bytes :: "nat \<Rightarrow> int \<Rightarrow> string" where
  "be_bytes 0 n = []"
| "be_bytes (Suc k) n = be_bytes k (n div 256) @ [char_of (nat (n mod 256))]"

definition be_value :: "string \<Rightarrow> int" where
  "be_value s = foldl (\<lambda>v c. v * 256 + int (of_char c)) 0 s"

text \<open>A time is its nanoseconds since 1970 in UTC; the encoding counts seconds from the year 1. The
  two last bytes are the zone's offset in minutes, -1 for UTC.\<close>

definition unixToInternal :: int where
  "unixToInternal = 62135596800"

definition GobEncode :: "int \<Rightarrow> string" where
  "GobEncode t = [char_of (1 :: nat)] @ be_bytes 8 ((t div Second + unixToInternal) mod 2 ^ 64) @
     be_bytes 4 (t mod Second) @ [char_of (255 :: nat), char_of (255 :: nat)]"

definition signed64 :: "int \<Rightarrow> int" where
  "signed64 u = (if u \<ge> 2 ^ 63 then u - 2 ^ 64 else u)"

definition GobDecode :: "string \<Rightarrow> string + int" where
  "GobDecode buf =
     (case buf of
        [] \<Rightarrow> Inl ''Time.UnmarshalBinary: no data''
      | v # rest \<Rightarrow>
          (let version = (of_char v :: nat) in
           if version \<noteq> 1 \<and> version \<noteq> 2 then Inl ''Time.UnmarshalBinary: unsupported version''
           else if length buf \<noteq> (if version = 2 then 16 else 15) then Inl ''Time.UnmarshalBinary: invalid length''
           else (let sec = signed64 (be_value (take 8 rest));
                     nsec = be_value (take 4 (drop 8 rest)) mod 2 ^ 30
                 in Inr ((sec - unixToInternal) * Second + nsec))))"

text \<open>\<^verbatim>\<open>time.Since\<close> saturates at the ends of \<^verbatim>\<open>time.Duration\<close>.\<close>

definition Since :: "int \<Rightarrow> int \<Rightarrow> int" where
  "Since now t = max (- (2 ^ 63)) (min (2 ^ 63 - 1) (now - t))"


subsection \<open>Pinging\<close>

text \<open>What the ping library does with an address: whether it resolves; and whether the run finished,
  with the packets received and the longest round trip, or returned an error before that.\<close>

record ping_lib =
  NewPinger :: "string \<Rightarrow> string option"
  ping_Run :: "string \<Rightarrow> bool \<Rightarrow> (nat \<times> int) option"

definition pingNode :: "ping_lib \<Rightarrow> string \<Rightarrow> string \<Rightarrow> int \<times> string option" where
  "pingNode lib addr method =
     (case NewPinger lib addr of
        Some err \<Rightarrow> (0, Some err)
      | None \<Rightarrow>
          if method \<noteq> PingTypeUDP \<and> method \<noteq> PingTypeSocket then (0, Some (''invalid ping type '' @ quoted method))
          else
            (let (rtt, pingErr) =
                   (case ping_Run lib addr (method = PingTypeSocket) of
                      None \<Rightarrow> (0, None)
                    | Some (packetsRecv, maxRtt) \<Rightarrow>
                        if packetsRecv \<ge> 1 then (maxRtt, None)
                        else (0, Some (''ping to '' @ quoted addr @ '' timed out'')))
             in if rtt \<noteq> 0 then (rtt, None) else (0, pingErr)))"

definition swap :: "nat \<Rightarrow> nat \<Rightarrow> 'a list \<Rightarrow> 'a list" where
  "swap i j xs = xs[i := xs ! j, j := xs ! i]"

text \<open>The loop of \<^verbatim>\<open>shuffleNodes\<close> for the indices below \<open>n\<close>, from the top; \<open>Intn i\<close> is the random index
  drawn for position \<open>i\<close>.\<close>

fun shuffle_from :: "(nat \<Rightarrow> nat) \<Rightarrow> nat \<Rightarrow> 'a list \<Rightarrow> 'a list" where
  "shuffle_from Intn 0 xs = xs"
| "shuffle_from Intn (Suc i) xs = shuffle_from Intn i (swap i (Intn i) xs)"

definition shuffleNodes :: "(nat \<Rightarrow> nat) \<Rightarrow> 'a list \<Rightarrow> 'a list" where
  "shuffleNodes Intn nodes = shuffle_from Intn (length nodes) nodes"

text \<open>The ticker's period; creating a ticker with a period that is not positive panics.\<close>

definition nodeTicker :: "Agent \<Rightarrow> nat \<Rightarrow> int" where
  "nodeTicker a numNodes =
     (if numNodes > 0 then cfg_CoordinateUpdateInterval (config a) div int numNodes
      else cfg_CoordinateUpdateInterval (config a))"

record ping_loop =
  pl_nodes :: "api_node list"
  pl_index :: nat
  pl_ticker :: int

definition updateCoords_receive :: "(nat \<Rightarrow> nat) \<Rightarrow> Agent \<Rightarrow> api_node list \<Rightarrow> ping_loop \<Rightarrow> ping_loop" where
  "updateCoords_receive Intn a newNodes s =
     s\<lparr>pl_ticker := (if length newNodes \<noteq> length (pl_nodes s) then nodeTicker a (length newNodes) else pl_ticker s),
       pl_nodes := shuffleNodes Intn newNodes, pl_index := 0\<rparr>"

text \<open>The first list of nodes.\<close>

definition updateCoords_start :: "(nat \<Rightarrow> nat) \<Rightarrow> Agent \<Rightarrow> api_node list \<Rightarrow> ping_loop" where
  "updateCoords_start Intn a nodes =
     \<lparr>pl_nodes = shuffleNodes Intn nodes, pl_index = 0, pl_ticker = nodeTicker a (length nodes)\<rparr>"

text \<open>A tick: the index moves on, and the node there is to be pinged unless a ping to it is in flight.\<close>

definition updateCoords_tick :: "ping_loop \<times> Agent \<Rightarrow> api_node option \<times> ping_loop \<times> Agent" where
  "updateCoords_tick st =
     (case st of (s, a) \<Rightarrow>
      (let index = (if pl_index s + 1 \<ge> length (pl_nodes s) then 0 else pl_index s + 1);
           s1 = s\<lparr>pl_index := index\<rparr> in
       if length (pl_nodes s1) = 0 then (None, s1, a)
       else
         (let node = pl_nodes s1 ! index in
          if gm_mem (nd_Node node) (inflightPings a) then (None, s1, a)
          else (Some node, s1, a\<lparr>inflightPings := gm_store (nd_Node node) () (inflightPings a)\<rparr>))))"

text \<open>One list of nodes passing through \<^verbatim>\<open>checkNodeTracking\<close>, which keeps the list before it.\<close>

definition checkNodeTracking :: "api_node list \<Rightarrow> api_node list \<times> Agent \<Rightarrow> api_node list \<times> Agent" where
  "checkNodeTracking nodes st =
     (case st of (oldNodes, a) \<Rightarrow>
      (let inUse = nd_Node ` set oldNodes in
       (nodes, a\<lparr>knownNodeStatuses := filter (\<lambda>kv. fst kv \<in> inUse) (knownNodeStatuses a),
                 inflightPings := filter (\<lambda>kv. fst kv \<in> inUse) (inflightPings a)\<rparr>)))"


subsection \<open>Node health\<close>

datatype run_error = CallError string | OpErrors "string list" | NotAtomic | DecodeError string string
  | FetchError string string

record 'c coord_entry =
  ce_Node :: string
  ce_Segment :: string
  ce_Coord :: 'c

record ('c, 'w) coord_client =
  cc_KV_Get :: "string \<Rightarrow> 'w \<Rightarrow> (string + KVPair option) \<times> 'w"
  cc_Txn :: "TxnOp list \<Rightarrow> 'w \<Rightarrow> (string + bool \<times> TxnError list) \<times> 'w"
  cc_Catalog_Node :: "string \<Rightarrow> QueryOptions \<Rightarrow> 'w \<Rightarrow> (string + api_node option) \<times> 'w"
  cc_Coordinate_Node :: "string \<Rightarrow> 'w \<Rightarrow> (string + 'c coord_entry list) \<times> 'w"
  cc_Self_Coord :: "'w \<Rightarrow> (string + (string + 'c) option) \<times> 'w"
    \<comment> \<open>the entry \<^verbatim>\<open>Coord\<close> of \<^verbatim>\<open>/v1/agent/self\<close>, decoded\<close>
  cc_Coordinate_Update :: "'c coord_entry \<Rightarrow> 'w \<Rightarrow> string option \<times> 'w"

definition runClientTxn :: "('c, 'w) coord_client \<Rightarrow> TxnOp list \<Rightarrow> 'w \<Rightarrow> run_error option \<times> 'w" where
  "runClientTxn cl ops w =
     (case cc_Txn cl ops w of
        (Inl err, w1) \<Rightarrow> (Some (CallError err), w1)
      | (Inr (ok, errs), w1) \<Rightarrow>
          if length errs > 0 then (Some (OpErrors (map te_What errs)), w1)
          else if \<not> ok then (Some NotAtomic, w1)
          else (None, w1))"

definition node_check :: "Agent \<Rightarrow> api_node \<Rightarrow> string \<Rightarrow> string \<Rightarrow> HealthCheck" where
  "node_check a node status output = HasPartition a (\<lambda>p k. k\<lparr>hc_Partition := p\<rparr>)
     (zero_check\<lparr>hc_Node := nd_Node node, hc_CheckID := externalCheckName,
        hc_Name := ''External Node Status'', hc_Status := status, hc_Output := output\<rparr>)"

definition updateNodeCheck :: "('c, 'w) coord_client \<Rightarrow> Agent \<Rightarrow> api_node \<Rightarrow> TxnOp list \<Rightarrow> string \<Rightarrow> string \<Rightarrow>
    'w \<Rightarrow> run_error option \<times> 'w" where
  "updateNodeCheck cl a node ops status output w =
     runClientTxn cl (ops @ [TxnCheck CheckSet (node_check a node status output)]) w"

definition probe_op :: "Agent \<Rightarrow> KVOp \<Rightarrow> string \<Rightarrow> string \<Rightarrow> nat \<Rightarrow> TxnOp" where
  "probe_op a verb key val idx = TxnKV (HasPartition a (\<lambda>p k. k\<lparr>kv_Partition := p\<rparr>)
     \<lparr>kv_Verb = verb, kv_Key = key, kv_Value = val, kv_Index = idx, kv_Partition = ''''\<rparr>)"

definition updateHealthyNodeTxn :: "('c, 'w) coord_client \<Rightarrow> Agent \<Rightarrow> api_node \<Rightarrow> string \<Rightarrow> KVPair option \<Rightarrow>
    'w \<Rightarrow> run_error option \<times> 'w" where
  "updateHealthyNodeTxn cl a node key kvPair w =
     (let ops = (case kvPair of None \<Rightarrow> [] | Some p \<Rightarrow> [probe_op a KVDeleteCAS key '''' (kp_ModifyIndex p)]) in
      updateNodeCheck cl a node ops HealthPassing NodeAliveStatus w)"

definition updateFailedNodeTxn :: "int \<Rightarrow> ('c, 'w) coord_client \<Rightarrow> Agent \<Rightarrow> api_node \<Rightarrow> string \<Rightarrow> KVPair option \<Rightarrow>
    'w \<Rightarrow> run_error option \<times> 'w" where
  "updateFailedNodeTxn now cl a node key kvPair w =
     (case kvPair of
        None \<Rightarrow> updateNodeCheck cl a node [probe_op a KVSet key (GobEncode now) 0]
                  HealthCritical NodeCriticalStatus w
      | Some p \<Rightarrow>
          (case GobDecode (kp_Value p) of
             Inl err \<Rightarrow> (Some (DecodeError (nd_Node node) err), w)
           | Inr criticalStart \<Rightarrow>
               if Since now criticalStart > cfg_NodeReconnectTimeout (config a) then
                 (let ops = [probe_op a KVDeleteCAS key '''' (kp_ModifyIndex p)] in
                  case cc_Catalog_Node cl (nd_Node node) (ConsulQueryOption a) w of
                    (Inl err, w1) \<Rightarrow> (Some (FetchError (nd_Node node) err), w1)
                  | (Inr None, w1) \<Rightarrow> runClientTxn cl ops w1
                  | (Inr (Some existing), w1) \<Rightarrow>
                      runClientTxn cl (ops @ [TxnNode NodeDeleteCAS (nd_Node node) (nd_ModifyIndex existing)]) w1)
               else updateNodeCheck cl a node [] HealthCritical NodeCriticalStatus w))"

text \<open>The debounced updates: a status that is known and fresh is not written again; only a successful
  write makes it known.\<close>

definition debounced :: "int \<Rightarrow> api_node \<Rightarrow> string \<Rightarrow> (Agent \<Rightarrow> 'w \<Rightarrow> run_error option \<times> 'w) \<Rightarrow>
    Agent \<times> 'w \<Rightarrow> run_error option \<times> Agent \<times> 'w" where
  "debounced now node status txn st =
     (case st of (a, w) \<Rightarrow>
      if \<not> shouldUpdateNodeStatus now a (nd_Node node) status then (None, a, w)
      else (case txn a w of
              (None, w1) \<Rightarrow> (None, updateLastKnownNodeStatus now (nd_Node node) status a, w1)
            | (Some err, w1) \<Rightarrow> (Some err, a, w1)))"

definition updateHealthyNode :: "int \<Rightarrow> ('c, 'w) coord_client \<Rightarrow> api_node \<Rightarrow> string \<Rightarrow> KVPair option \<Rightarrow>
    Agent \<times> 'w \<Rightarrow> run_error option \<times> Agent \<times> 'w" where
  "updateHealthyNode now cl node key kvPair st =
     debounced now node HealthPassing (\<lambda>a. updateHealthyNodeTxn cl a node key kvPair) st"

definition updateFailedNode :: "int \<Rightarrow> ('c, 'w) coord_client \<Rightarrow> api_node \<Rightarrow> string \<Rightarrow> KVPair option \<Rightarrow>
    Agent \<times> 'w \<Rightarrow> run_error option \<times> Agent \<times> 'w" where
  "updateFailedNode now cl node key kvPair st =
     debounced now node HealthCritical (\<lambda>a. updateFailedNodeTxn now cl a node key kvPair) st"


subsection \<open>Coordinates\<close>

text \<open>The coordinate arithmetic: the coordinate of a new node, the check that a coordinate is valid, the
  update by a round trip time from the local coordinate, and the distance.\<close>

record 'c coord_lib =
  NewCoordinate :: 'c
  SetCoordinate :: "'c \<Rightarrow> string option"
  Coord_Update :: "'c \<Rightarrow> 'c \<Rightarrow> int \<Rightarrow> string + 'c"
  DistanceTo :: "'c \<Rightarrow> 'c \<Rightarrow> int"

definition updateNodeCoordinate :: "'c coord_lib \<Rightarrow> ('c, 'w) coord_client \<Rightarrow> Agent \<Rightarrow> api_node \<Rightarrow> int \<Rightarrow>
    'w \<Rightarrow> string option \<times> 'w" where
  "updateNodeCoordinate lib cl a node rtt w =
     (if cfg_DisableCoordinateUpdates (config a) then (None, w)
      else
        (case cc_Coordinate_Node cl (nd_Node node) w of (r, w1) \<Rightarrow>
         (case (case r of Inl err \<Rightarrow> if \<not> Contains err ''Unexpected response code: 404'' then Inl err else Inr []
                | Inr coords \<Rightarrow> Inr coords) of
            Inl err \<Rightarrow> (Some (''error getting coordinate for node '' @ quoted (nd_Node node) @ '': '' @ err @
                         '', skipping update''), w1)
          | Inr coords \<Rightarrow>
              (let coord = (case coords of c # _ \<Rightarrow> c
                     | [] \<Rightarrow> \<lparr>ce_Node = nd_Node node,
                              ce_Segment = (case nd_Meta node of None \<Rightarrow> ''''
                                | Some m \<Rightarrow> (case gm_load m MetaSegmentKey of None \<Rightarrow> '''' | Some s \<Rightarrow> s)),
                              ce_Coord = NewCoordinate lib\<rparr>) in
               case cc_Self_Coord cl w1 of
                 (Inl err, w2) \<Rightarrow> (Some (''could not retrieve local agent's coordinate info: '' @ err), w2)
               | (Inr None, w2) \<Rightarrow> (Some ''could not decode local agent's coordinate info: <nil>'', w2)
               | (Inr (Some (Inl err)), w2) \<Rightarrow> (Some (''could not decode local agent's coordinate info: '' @ err), w2)
               | (Inr (Some (Inr localCoord)), w2) \<Rightarrow>
                   (case SetCoordinate lib (ce_Coord coord) of
                      Some err \<Rightarrow> (Some (''invalid coordinate for node '' @ quoted (nd_Node node) @ '': '' @ err), w2)
                    | None \<Rightarrow>
                        (case Coord_Update lib (ce_Coord coord) localCoord rtt of
                           Inl err \<Rightarrow> (Some (''error updating coordinate for node '' @ quoted (nd_Node node) @ '': '' @ err), w2)
                         | Inr newCoord \<Rightarrow>
                             if coords \<noteq> [] \<and> DistanceTo lib (ce_Coord coord) newCoord \<le> Millisecond then (None, w2)
                             else
                               (case cc_Coordinate_Update cl (coord\<lparr>ce_Coord := newCoord\<rparr>) w2 of
                                  (Some err, w3) \<Rightarrow>
                                    (Some (''error applying coordinate update for node '' @ quoted (nd_Node node) @ '': '' @ err), w3)
                                | (None, w3) \<Rightarrow> (None, w3))))))))"

definition probe_key :: "Agent \<Rightarrow> api_node \<Rightarrow> string" where
  "probe_key a node = cfg_KVPath (config a) @ ''probes/'' @ nd_Node node"

text \<open>A whole ping of a node; errors are only logged.\<close>

definition runNodePing :: "int \<Rightarrow> ping_lib \<Rightarrow> 'c coord_lib \<Rightarrow> ('c, 'w) coord_client \<Rightarrow> api_node \<Rightarrow>
    Agent \<times> 'w \<Rightarrow> Agent \<times> 'w" where
  "runNodePing now plib clib cl node st =
     (case st of (a, w) \<Rightarrow>
      (let key = probe_key a node in
       case cc_KV_Get cl key w of (r, w1) \<Rightarrow>
       (let kvPair = (case r of Inl err \<Rightarrow> None | Inr p \<Rightarrow> p);
            (rtt, err) = pingNode plib (nd_Address node) (cfg_PingType (config a));
            (a2, w2) =
              (case err of
                 None \<Rightarrow>
                   (case updateHealthyNode now cl node key kvPair (a, w1) of
                      (_, a1, w2) \<Rightarrow> (a1, snd (updateNodeCoordinate clib cl a1 node rtt w2)))
               | Some e \<Rightarrow> snd (updateFailedNode now cl node key kvPair (a, w1)))
        in (a2\<lparr>inflightPings := gm_delete (nd_Node node) (inflightPings a2)\<rparr>, w2))))"

end
