(* ===== verification/Coordinate_Claims.thy ===== *)
theory Coordinate_Claims
  imports Coordinate
begin

text \<open>
  What the pinger guarantees: times survive the KV store, every node gets its turn, a node is
  deregistered only after the reconnect timeout, and known statuses are not written again.
\<close>

subsection \<open>Times\<close>

lemma length_be_bytes [simp]: "length (be_bytes k n) = k"
  by (induction k arbitrary: n) simp_all

lemma be_value_append: "be_value (s @ [c]) = be_value s * 256 + int (of_char c)"
  by (simp add: be_value_def)

lemma be_value_bytes: "0 \<le> n \<Longrightarrow> n < 256 ^ k \<Longrightarrow> be_value (be_bytes k n) = n"
proof (induction k arbitrary: n)
  case 0
  then show ?case by (simp add: be_value_def)
next
  case (Suc k)
  have "n div 256 < 256 ^ k" using Suc.prems by (simp add: div_less_iff_less_mult)
  then have IH: "be_value (be_bytes k (n div 256)) = n div 256" using Suc by simp
  have "int (of_char (char_of (nat (n mod 256)) :: char)) = n mod 256"
  proof -
    have "(of_char (char_of (nat (n mod 256)) :: char) :: nat) = nat (n mod 256) mod 256" by simp
    moreover have "nat (n mod 256) < 256" by (simp add: nat_less_iff)
    ultimately show ?thesis by (simp add: nat_less_iff)
  qed
  then show ?case using IH by (simp add: be_value_append)
qed

lemma signed64_wrap: "- (2 ^ 63) \<le> s \<Longrightarrow> s < 2 ^ 63 \<Longrightarrow> signed64 (s mod 2 ^ 64) = s"
proof -
  assume s: "- (2 ^ 63) \<le> s" "s < 2 ^ 63"
  show "signed64 (s mod 2 ^ 64) = s"
  proof (cases "0 \<le> s")
    case True
    then have "s mod 2 ^ 64 = s" using s by (intro mod_pos_pos_trivial) auto
    then show ?thesis using s by (simp add: signed64_def)
  next
    case False
    have "s mod 2 ^ 64 = (s + 2 ^ 64) mod 2 ^ 64" by simp
    also have "\<dots> = s + 2 ^ 64" using s False by (intro mod_pos_pos_trivial) auto
    finally show ?thesis using s by (simp add: signed64_def)
  qed
qed

text \<open>The time since when a node is unreachable survives the KV store, to the nanosecond, for every time
  whose seconds fit in 64 bits.\<close>

lemma gob_round_trip:
  assumes "- (2 ^ 63) \<le> t div Second + unixToInternal" and "t div Second + unixToInternal < 2 ^ 63"
  shows "GobDecode (GobEncode t) = Inr t"
proof -
  let ?s = "(t div Second + unixToInternal) mod 2 ^ 64" and ?n = "t mod Second"
  have s: "be_value (be_bytes 8 ?s) = ?s" by (rule be_value_bytes) simp_all
  have n0: "0 \<le> ?n" "?n < 10 ^ 9" by simp_all
  have n: "be_value (be_bytes 4 ?n) = ?n" by (rule be_value_bytes) (use n0 in simp_all)
  have m: "?n mod 2 ^ 30 = ?n" using n0 by (intro mod_pos_pos_trivial) simp_all
  have v: "(of_char (char_of (1 :: nat) :: char) :: nat) = 1" by simp
  have "GobDecode (GobEncode t) =
      Inr ((signed64 ?s - unixToInternal) * Second + ?n mod 2 ^ 30)"
    unfolding GobDecode_def GobEncode_def using v s n by (simp add: Let_def)
  also have "\<dots> = Inr t" unfolding signed64_wrap [OF assms] m by (simp add: algebra_simps)
  finally show ?thesis .
qed

subsection \<open>The round robin\<close>

lemma mset_swap: "i < length xs \<Longrightarrow> j < length xs \<Longrightarrow> mset (swap i j xs) = mset xs"
  by (simp add: swap_def mset_swap)

lemma mset_shuffle_from:
  "(\<And>i. Intn i \<le> i) \<Longrightarrow> n \<le> length xs \<Longrightarrow> mset (shuffle_from Intn n xs) = mset xs"
proof (induction n arbitrary: xs)
  case (Suc i)
  have l: "i < length xs" "Intn i < length xs" using Suc.prems le_less_trans [of "Intn i" i] by auto
  have "length (swap i (Intn i) xs) = length xs" by (simp add: swap_def)
  then show ?case using Suc l mset_swap [OF l] by simp
qed simp

lemma mset_shuffle: "(\<And>i. Intn i \<le> i) \<Longrightarrow> mset (shuffleNodes Intn xs) = mset xs"
  by (simp add: shuffleNodes_def mset_shuffle_from)

text \<open>The positions visited by \<open>k\<close> ticks.\<close>

fun next_index :: "nat \<Rightarrow> nat \<Rightarrow> nat" where
  "next_index n i = (if i + 1 \<ge> n then 0 else i + 1)"

fun visited :: "nat \<Rightarrow> nat \<Rightarrow> nat \<Rightarrow> nat list" where
  "visited n i 0 = []"
| "visited n i (Suc k) = next_index n i # visited n (next_index n i) k"

lemma visited_mod: "0 < n \<Longrightarrow> i < n \<Longrightarrow> visited n i k = map (\<lambda>j. (i + 1 + j) mod n) [0..<k]"
proof (induction k arbitrary: i)
  case (Suc k)
  have ni: "next_index n i = (i + 1) mod n" using Suc.prems by (cases "i + 1 = n") auto
  then have "next_index n i < n" using Suc.prems by simp
  note IH = Suc.IH [OF Suc.prems(1) this]
  have "(next_index n i + 1 + j) mod n = (i + 1 + Suc j) mod n" for j
    unfolding ni using mod_add_left_eq [of "i + 1" n "1 + j"] by (simp add: add.assoc)
  then have "visited n i (Suc k) = (i + 1) mod n # map (\<lambda>j. (i + 1 + Suc j) mod n) [0..<k]"
    using IH ni by (simp del: next_index.simps)
  also have "\<dots> = map (\<lambda>j. (i + 1 + j) mod n) (0 # map Suc [0..<k])" by simp
  also have "0 # map Suc [0..<k] = [0..<Suc k]" by (simp only: map_Suc_upt upt_conv_Cons zero_less_Suc)
  finally show ?case .
qed simp

lemma visited_perm: "0 < n \<Longrightarrow> i < n \<Longrightarrow> mset (visited n i n) = mset [0..<n]"
proof -
  assume n: "0 < n" "i < n"
  have le: "x = y" if "x \<le> y" "y < n" "(i + 1 + x) mod n = (i + 1 + y) mod n" for x y
  proof -
    from that have "n dvd (i + 1 + y) - (i + 1 + x)" by (metis mod_eq_dvd_iff_nat add_le_cancel_left)
    then have "n dvd y - x" by simp
    with that show "x = y" by (meson diff_is_0_eq dvd_imp_le le_antisym less_imp_diff_less not_less zero_less_iff_neq_zero)
  qed
  have inj: "inj_on (\<lambda>j. (i + 1 + j) mod n) {0..<n}"
    by (rule inj_onI) (metis le atLeastLessThan_iff nat_le_linear)
  have d: "distinct (visited n i n)" unfolding visited_mod [OF n] using inj by (simp add: distinct_map)
  have "set (visited n i n) \<subseteq> {0..<n}" unfolding visited_mod [OF n] using n by auto
  moreover have "card (set (visited n i n)) = n"
    using distinct_card [OF d] unfolding visited_mod [OF n] by simp
  ultimately have "set (visited n i n) = {0..<n}" by (intro card_subset_eq) auto
  with d show ?thesis by (metis atLeastLessThan_upt distinct_upt set_eq_iff_mset_eq_distinct)
qed

text \<open>The node whose turn it is at each of a sequence of ticks; the agent's flags at each tick are
  whatever the other goroutines have left.\<close>

fun turns :: "Agent list \<Rightarrow> ping_loop \<Rightarrow> api_node list" where
  "turns [] s = []"
| "turns (a # as) s = (case updateCoords_tick (s, a) of (_, s', _) \<Rightarrow> (pl_nodes s' ! pl_index s') # turns as s')"

lemma tick_loop:
  "updateCoords_tick (s, a) = (r, s', a') \<Longrightarrow>
   pl_nodes s' = pl_nodes s \<and> pl_index s' = next_index (length (pl_nodes s)) (pl_index s)"
  by (auto simp: updateCoords_tick_def Let_def split: if_splits)

lemma turns_visited:
  "turns as s = map ((!) (pl_nodes s)) (visited (length (pl_nodes s)) (pl_index s) (length as))"
proof (induction as arbitrary: s)
  case (Cons a as)
  obtain r s' a' where t: "updateCoords_tick (s, a) = (r, s', a')" using prod_cases3 by blast
  from tick_loop [OF t] Cons.IH [of s'] t show ?case by (simp del: next_index.simps)
qed simp

text \<open>C30. Every node gets its turn: after a new list of nodes arrives and is shuffled, with whatever
  random numbers, the nodes whose turn it is at the next ticks, as many as there are nodes,
  are the nodes of the list, each exactly once, whatever pings are in flight meanwhile.\<close>

theorem round_robin_complete:
  assumes "\<And>i. Intn i \<le> i" and "newNodes \<noteq> []" and "length as = length newNodes"
  shows "mset (turns as (updateCoords_receive Intn a newNodes s)) = mset newNodes"
proof -
  let ?ns = "shuffleNodes Intn newNodes"
  have m: "mset ?ns = mset newNodes" by (rule mset_shuffle) (rule assms(1))
  then have l: "length ?ns = length newNodes" by (metis size_mset)
  have n: "0 < length ?ns" using assms(2) l by simp
  have "mset (turns as (updateCoords_receive Intn a newNodes s)) =
      image_mset ((!) ?ns) (mset (visited (length ?ns) 0 (length ?ns)))"
    by (simp add: turns_visited updateCoords_receive_def assms(3) l)
  also have "\<dots> = mset (map ((!) ?ns) [0..<length ?ns])" unfolding visited_perm [OF n n] by simp
  also have "\<dots> = mset ?ns" unfolding map_nth ..
  finally show ?thesis using m by simp
qed

definition ping_nodes :: "api_node list" where
  "ping_nodes = map (\<lambda>n. \<lparr>nd_ID = n, nd_Node = n, nd_Address = '''', nd_Meta = None, nd_ModifyIndex = 0\<rparr>) [''a'', ''b'', ''c'']"

definition ping_agent :: Agent where
  "ping_agent = \<lparr>config = (case DefaultConfig (Inr ''id'') of Inr c \<Rightarrow> c), agent_id = ''id'', shutdown = False,
     inflightPings = [], knownNodeStatuses = [], namespaceWildcard = '''', namespaceWildcardDetected = False\<rparr>"

theorem round_robin_complete_witness:
  "mset (turns (replicate 3 ping_agent) (updateCoords_receive (\<lambda>i. i div 2) ping_agent ping_nodes
     \<lparr>pl_nodes = [], pl_index = 0, pl_ticker = 0\<rparr>)) = mset ping_nodes"
  by (rule round_robin_complete) (simp_all add: ping_nodes_def)

text \<open>The ticks are spaced so that all nodes are pinged within one update interval and no earlier
  than the rounding to nanoseconds allows, and the ticker's period is positive (so that
  creating it does not panic) as long as there are no more nodes than nanoseconds in the
  interval.\<close>

lemma ticker_period:
  assumes "0 < n" and "int n \<le> cfg_CoordinateUpdateInterval (config a)"
  shows "0 < nodeTicker a n \<and> int n * nodeTicker a n \<le> cfg_CoordinateUpdateInterval (config a) \<and>
    cfg_CoordinateUpdateInterval (config a) < int n * (nodeTicker a n + 1)"
proof -
  let ?i = "cfg_CoordinateUpdateInterval (config a)"
  have t: "nodeTicker a n = ?i div int n" using assms(1) by (simp add: nodeTicker_def)
  have "int n * (?i div int n) + ?i mod int n = ?i" by (rule mult_div_mod_eq)
  moreover have "0 \<le> ?i mod int n" "?i mod int n < int n" using assms(1) by simp_all
  moreover have "0 < ?i div int n" using assms by (simp add: pos_imp_zdiv_pos_iff)
  ultimately show ?thesis unfolding t distrib_left by linarith
qed

subsection \<open>Unreachable nodes\<close>

definition logged_txn :: "('c, 'w) coord_client \<Rightarrow> ('c, 'w \<times> TxnOp list list) coord_client" where
  "logged_txn cl = \<lparr>
     cc_KV_Get = (\<lambda>k w. let (r, w1) = cc_KV_Get cl k (fst w) in (r, w1, snd w)),
     cc_Txn = (\<lambda>ops w. let (r, w1) = cc_Txn cl ops (fst w) in (r, w1, snd w @ [ops])),
     cc_Catalog_Node = (\<lambda>n q w. let (r, w1) = cc_Catalog_Node cl n q (fst w) in (r, w1, snd w)),
     cc_Coordinate_Node = (\<lambda>n w. let (r, w1) = cc_Coordinate_Node cl n (fst w) in (r, w1, snd w)),
     cc_Self_Coord = (\<lambda>w. let (r, w1) = cc_Self_Coord cl (fst w) in (r, w1, snd w)),
     cc_Coordinate_Update = (\<lambda>e w. let (r, w1) = cc_Coordinate_Update cl e (fst w) in (r, w1, snd w))\<rparr>"

lemma run_logged: "snd (snd (runClientTxn (logged_txn cl) ops (w, l))) = l @ [ops]"
  by (auto simp: runClientTxn_def logged_txn_def split: prod.splits sum.splits)

lemma logged_node:
  "cc_Catalog_Node cl n q w = (r, w1) \<Longrightarrow> cc_Catalog_Node (logged_txn cl) n q (w, l) = (r, w1, l)"
  by (simp add: logged_txn_def)

text \<open>A plain time: its seconds fit in 64 bits.\<close>

definition plain_time :: "int \<Rightarrow> bool" where
  "plain_time t \<longleftrightarrow> - (2 ^ 63) \<le> t div Second + unixToInternal \<and> t div Second + unixToInternal < 2 ^ 63"

text \<open>C26. The life of an unreachable node, as the transactions sent for it: the first failure records
  the time in the KV store together with the critical check; a failure within the reconnect
  timeout of the recorded time only sets the check; a failure after the timeout deletes the
  record and, if the catalog still has it, the node, both by compare-and-delete in one
  transaction, and nothing else.\<close>

theorem failed_node_lifecycle:
  assumes "plain_time t0" and "- (2 ^ 63) \<le> now - t0" and "now - t0 < 2 ^ 63" and "kp_Value p = GobEncode t0"
  shows "snd (snd (updateFailedNodeTxn now (logged_txn cl) a node key None (w, []))) =
      [[probe_op a KVSet key (GobEncode now) 0,
        TxnCheck CheckSet (node_check a node HealthCritical NodeCriticalStatus)]] \<and>
    (now - t0 \<le> cfg_NodeReconnectTimeout (config a) \<longrightarrow>
      snd (snd (updateFailedNodeTxn now (logged_txn cl) a node key (Some p) (w, []))) =
        [[TxnCheck CheckSet (node_check a node HealthCritical NodeCriticalStatus)]]) \<and>
    (now - t0 > cfg_NodeReconnectTimeout (config a) \<longrightarrow>
      (\<forall>existing w1. cc_Catalog_Node cl (nd_Node node) (ConsulQueryOption a) w = (Inr existing, w1) \<longrightarrow>
        snd (snd (updateFailedNodeTxn now (logged_txn cl) a node key (Some p) (w, []))) =
          [probe_op a KVDeleteCAS key '''' (kp_ModifyIndex p) #
           (case existing of None \<Rightarrow> [] | Some n \<Rightarrow> [TxnNode NodeDeleteCAS (nd_Node node) (nd_ModifyIndex n)])]))"
proof -
  have d: "GobDecode (kp_Value p) = Inr t0"
    using gob_round_trip assms(1,4) by (simp add: plain_time_def)
  have s: "Since now t0 = now - t0" using assms(2,3) by (simp add: Since_def)
  show ?thesis
  proof (intro conjI impI allI)
    fix existing w1
    assume "now - t0 > cfg_NodeReconnectTimeout (config a)"
      and "cc_Catalog_Node cl (nd_Node node) (ConsulQueryOption a) w = (Inr existing, w1)"
    then show "snd (snd (updateFailedNodeTxn now (logged_txn cl) a node key (Some p) (w, []))) =
          [probe_op a KVDeleteCAS key '''' (kp_ModifyIndex p) #
           (case existing of None \<Rightarrow> [] | Some n \<Rightarrow> [TxnNode NodeDeleteCAS (nd_Node node) (nd_ModifyIndex n)])]"
      using d s by (cases existing) (simp_all add: updateFailedNodeTxn_def Let_def logged_node run_logged)
  qed (simp_all add: updateFailedNodeTxn_def d s updateNodeCheck_def run_logged)
qed

definition ok_client :: "(unit, unit) coord_client" where
  "ok_client = \<lparr>cc_KV_Get = (\<lambda>k w. (Inr None, w)), cc_Txn = (\<lambda>ops w. (Inr (True, []), w)),
     cc_Catalog_Node = (\<lambda>n q w. (Inr (Some (hd ping_nodes)), w)),
     cc_Coordinate_Node = (\<lambda>n w. (Inr [], w)), cc_Self_Coord = (\<lambda>w. (Inr (Some (Inr ())), w)),
     cc_Coordinate_Update = (\<lambda>e w. (None, w))\<rparr>"

definition unit_coords :: "unit coord_lib" where
  "unit_coords = \<lparr>NewCoordinate = (), SetCoordinate = (\<lambda>c. None), Coord_Update = (\<lambda>c l r. Inr ()),
     DistanceTo = (\<lambda>c d. 0)\<rparr>"

theorem failed_node_lifecycle_witness:
  "snd (snd (updateFailedNodeTxn (80 * Hour) (logged_txn ok_client) ping_agent (hd ping_nodes) ''k''
       (Some \<lparr>kp_Key = ''k'', kp_Value = GobEncode Hour, kp_ModifyIndex = 7\<rparr>) ((), []))) =
     [[probe_op ping_agent KVDeleteCAS ''k'' '''' 7, TxnNode NodeDeleteCAS ''a'' 0]]"
proof -
  let ?p = "\<lparr>kp_Key = ''k'', kp_Value = GobEncode Hour, kp_ModifyIndex = 7\<rparr>"
  have t: "plain_time Hour" by (simp add: plain_time_def unixToInternal_def)
  have c: "cfg_NodeReconnectTimeout (config ping_agent) = 72 * Hour"
    "nd_Node (hd ping_nodes) = ''a''" "nd_ModifyIndex (hd ping_nodes) = 0" by code_simp+
  have n: "cc_Catalog_Node ok_client (nd_Node (hd ping_nodes)) (ConsulQueryOption ping_agent) () =
      (Inr (Some (hd ping_nodes)), ())" by (simp add: ok_client_def)
  from failed_node_lifecycle [OF t, of "80 * Hour" ?p ok_client ping_agent "hd ping_nodes" "''k''" "()"] n
  show ?thesis by (simp add: c)
qed

lemma debounced_skip:
  "\<not> shouldUpdateNodeStatus now a (nd_Node node) s \<Longrightarrow> debounced now node s txn (a, w) = (None, a, w)"
  by (simp add: debounced_def)



subsection \<open>Tracking\<close>

lemma gm_load_filter: "gm_load (filter (\<lambda>kv. fst kv \<in> S) m) k = (if k \<in> S then gm_load m k else None)"
  by (induction m) (auto simp: gm_load_def)

text \<open>A node that was removed and registered again is reported afresh: when a list without the node
  is followed by another list, its recorded status and its mark of a ping in flight are gone
  after the second one, whatever was recorded in between, so its next ping is made and its
  status written; nodes of the list before keep theirs.\<close>

lemma reregistered_node_fresh:
  assumes "checkNodeTracking second (first, a) = (old, a')" and "n \<notin> nd_Node ` set first"
  shows "old = second \<and> shouldUpdateNodeStatus now a' n s \<and> \<not> gm_mem n (inflightPings a') \<and>
    (\<forall>m \<in> nd_Node ` set first. gm_load (knownNodeStatuses a') m = gm_load (knownNodeStatuses a) m)"
  using assms unfolding checkNodeTracking_def Let_def
  by (auto simp: shouldUpdateNodeStatus_def gm_load_filter gm_mem_def Let_def)

lemma reregistered_node_fresh_witness:
  "shouldUpdateNodeStatus 1 (snd (checkNodeTracking ping_nodes ([],
     ping_agent\<lparr>knownNodeStatuses := [(''a'', \<lparr>lks_status = HealthPassing, lks_time = 0\<rparr>)]\<rparr>))) ''a'' HealthPassing"
proof -
  let ?a = "ping_agent\<lparr>knownNodeStatuses := [(''a'', \<lparr>lks_status = HealthPassing, lks_time = 0\<rparr>)]\<rparr>"
  obtain old a' where c: "checkNodeTracking ping_nodes ([], ?a) = (old, a')" by fastforce
  from reregistered_node_fresh [OF c] c show ?thesis by simp
qed


subsection \<open>Failures that count as success\<close>

lemma pingNode_error:
  assumes "NewPinger lib addr = None" and "ping_Run lib addr (method = PingTypeSocket) = None"
    and "method \<in> {PingTypeUDP, PingTypeSocket}"
  shows "pingNode lib addr method = (0, None)"
  using assms by (auto simp: pingNode_def)

text \<open>Updating the coordinate writes no transaction.\<close>

lemma coordinate_no_txn: "snd (snd (updateNodeCoordinate lib (logged_txn cl) a node rtt (w, l))) = l"
  by (auto simp: updateNodeCoordinate_def logged_txn_def Let_def split: prod.splits sum.splits option.splits list.splits)

text \<open>C40. A ping that cannot be carried out counts as an answer: when the ping library returns an error
  before it finishes (no permission to open the socket, say), the node is reported alive: its
  check is set to passing, and the record of its outage, if there is one, is deleted.\<close>

theorem ping_error_counts_as_alive:
  assumes "NewPinger plib (nd_Address node) = None"
    and "ping_Run plib (nd_Address node) (cfg_PingType (config a) = PingTypeSocket) = None"
    and "cfg_PingType (config a) \<in> {PingTypeUDP, PingTypeSocket}"
    and "shouldUpdateNodeStatus now a (nd_Node node) HealthPassing"
    and "cc_KV_Get cl (probe_key a node) w = (Inr p, w1)"
  shows "snd (snd (runNodePing now plib clib (logged_txn cl) node (a, w, []))) =
    [(case p of None \<Rightarrow> [] | Some kv \<Rightarrow> [probe_op a KVDeleteCAS (probe_key a node) '''' (kp_ModifyIndex kv)]) @
     [TxnCheck CheckSet (node_check a node HealthPassing NodeAliveStatus)]]"
proof -
  let ?ops = "(case p of None \<Rightarrow> [] | Some kv \<Rightarrow> [probe_op a KVDeleteCAS (probe_key a node) '''' (kp_ModifyIndex kv)]) @
     [TxnCheck CheckSet (node_check a node HealthPassing NodeAliveStatus)]"
  have g: "cc_KV_Get (logged_txn cl) (probe_key a node) (w, []) = (Inr p, w1, [])"
    using assms(5) by (simp add: logged_txn_def)
  obtain r w2 l2 where t: "runClientTxn (logged_txn cl) ?ops (w1, []) = (r, w2, l2)" using prod_cases3 by blast
  then have l2: "l2 = [?ops]" using run_logged [of cl ?ops w1 "[]"] by simp
  have u: "updateHealthyNode now (logged_txn cl) node (probe_key a node) p (a, w1, []) =
      (r, if r = None then updateLastKnownNodeStatus now (nd_Node node) HealthPassing a else a, w2, l2)"
    using assms(4) t by (cases r)
      (simp_all add: updateHealthyNode_def debounced_def updateHealthyNodeTxn_def updateNodeCheck_def Let_def)
  from g u pingNode_error [OF assms(1-3)] l2 show ?thesis
    by (simp add: runNodePing_def Let_def coordinate_no_txn split: prod.splits)
qed

definition broken_ping :: ping_lib where
  "broken_ping = \<lparr>NewPinger = (\<lambda>s. None), ping_Run = (\<lambda>s b. None)\<rparr>"

theorem ping_error_counts_as_alive_witness:
  "snd (snd (runNodePing 9 broken_ping unit_coords (logged_txn ok_client) (hd ping_nodes) (ping_agent, (), []))) =
    [[TxnCheck CheckSet (node_check ping_agent (hd ping_nodes) HealthPassing NodeAliveStatus)]]"
proof -
  have k: "cc_KV_Get ok_client (probe_key ping_agent (hd ping_nodes)) () = (Inr None, ())"
    by (simp add: ok_client_def)
  have t: "cfg_PingType (config ping_agent) \<in> {PingTypeUDP, PingTypeSocket}"
    "shouldUpdateNodeStatus 9 ping_agent (nd_Node (hd ping_nodes)) HealthPassing" by code_simp+
  show ?thesis
    using ping_error_counts_as_alive [OF _ _ t k, of broken_ping unit_coords] by (simp add: broken_ping_def)
qed

definition dead_ping :: ping_lib where
  "dead_ping = \<lparr>NewPinger = (\<lambda>s. None), ping_Run = (\<lambda>s b. Some (0, 0))\<rparr>"

text \<open>A failed read of the tracking key restarts the reconnect timeout: when the KV store cannot be
  read, an unreachable node is treated as one that has just failed, and its recorded time is
  overwritten with the current one.\<close>

lemma failed_read_restarts_timeout:
  assumes "cc_KV_Get cl (probe_key a node) w = (Inl err, w1)"
    and "pingNode plib (nd_Address node) (cfg_PingType (config a)) = (rtt, Some e)"
    and "shouldUpdateNodeStatus now a (nd_Node node) HealthCritical"
  shows "snd (snd (runNodePing now plib clib (logged_txn cl) node (a, w, []))) =
    [[probe_op a KVSet (probe_key a node) (GobEncode now) 0,
      TxnCheck CheckSet (node_check a node HealthCritical NodeCriticalStatus)]]"
proof -
  let ?ops = "[probe_op a KVSet (probe_key a node) (GobEncode now) 0,
      TxnCheck CheckSet (node_check a node HealthCritical NodeCriticalStatus)]"
  have g: "cc_KV_Get (logged_txn cl) (probe_key a node) (w, []) = (Inl err, w1, [])"
    using assms(1) by (simp add: logged_txn_def)
  have u: "updateFailedNode now (logged_txn cl) node (probe_key a node) None (a, w1, []) =
      (case runClientTxn (logged_txn cl) ?ops (w1, []) of
         (None, w2) \<Rightarrow> (None, updateLastKnownNodeStatus now (nd_Node node) HealthCritical a, w2)
       | (Some er, w2) \<Rightarrow> (Some er, a, w2))"
    using assms(3) by (simp add: updateFailedNode_def debounced_def updateFailedNodeTxn_def updateNodeCheck_def)
  obtain r w2 l2 where t: "runClientTxn (logged_txn cl) ?ops (w1, []) = (r, w2, l2)" using prod_cases3 by blast
  then have "l2 = [?ops]" using run_logged [of cl ?ops w1 "[]"] by simp
  with t u g assms(2) show ?thesis
    by (cases r) (simp_all add: runNodePing_def Let_def)
qed

lemma failed_read_restarts_timeout_witness:
  "snd (snd (runNodePing 9 dead_ping unit_coords (logged_txn (ok_client\<lparr>cc_KV_Get := (\<lambda>k w. (Inl ''timeout'', w))\<rparr>))
      (hd ping_nodes) (ping_agent, (), []))) =
    [[probe_op ping_agent KVSet (probe_key ping_agent (hd ping_nodes)) (GobEncode 9) 0,
      TxnCheck CheckSet (node_check ping_agent (hd ping_nodes) HealthCritical NodeCriticalStatus)]]"
proof -
  have p: "pingNode dead_ping (nd_Address (hd ping_nodes)) (cfg_PingType (config ping_agent)) =
      (0, Some (''ping to '' @ quoted '''' @ '' timed out''))" by code_simp
  show ?thesis
    by (rule failed_read_restarts_timeout [OF _ p]) (simp, code_simp)
qed

end
