(* ===== verification/Ping_Flight.thy ===== *)
theory Ping_Flight
  imports Coordinate_Claims
begin

text \<open>
  The pinger of \<^verbatim>\<open>src/coordinate.go\<close> with its goroutines: the tracker (\<^verbatim>\<open>checkNodeTracking\<close>), which sees every
  list of nodes first and passes it on; the loop (\<^verbatim>\<open>updateCoords\<close>), which starts pings; and the pings
  (\<^verbatim>\<open>runNodePing\<close>) that are under way. They share the agent's flags of pings in flight.
\<close>

record flight =
  fl_loop :: ping_loop
  fl_agent :: Agent
  fl_old :: "api_node list" \<comment> \<open>\<^verbatim>\<open>oldNodes\<close> of the tracker\<close>
  fl_pending :: "api_node list option" \<comment> \<open>the list the tracker waits to hand over\<close>
  fl_running :: "string multiset" \<comment> \<open>the nodes of the pings under way\<close>

text \<open>Steps for lists that satisfy \<open>P\<close>, with the ping library, the coordinate arithmetic and the client; the
  servers may change on their own.\<close>

inductive flight_step :: "(api_node list \<Rightarrow> bool) \<Rightarrow> ping_lib \<Rightarrow> 'c coord_lib \<Rightarrow> ('c, 'w) coord_client \<Rightarrow>
    flight \<times> 'w \<Rightarrow> flight \<times> 'w \<Rightarrow> bool"
  for P :: "api_node list \<Rightarrow> bool" and plib :: ping_lib and clib :: "'c coord_lib" and cl :: "('c, 'w) coord_client" where
  flight_track: "fl_pending s = None \<Longrightarrow> P nodes \<Longrightarrow> checkNodeTracking nodes (fl_old s, fl_agent s) = (old, a) \<Longrightarrow>
    flight_step P plib clib cl (s, w) (s\<lparr>fl_old := old, fl_agent := a, fl_pending := Some nodes\<rparr>, w)"
| flight_take: "fl_pending s = Some nodes \<Longrightarrow> flight_step P plib clib cl (s, w)
    (s\<lparr>fl_loop := updateCoords_receive Intn (fl_agent s) nodes (fl_loop s), fl_pending := None\<rparr>, w)"
| flight_tick: "updateCoords_tick (fl_loop s, fl_agent s) = (r, l, a) \<Longrightarrow> flight_step P plib clib cl (s, w)
    (s\<lparr>fl_loop := l, fl_agent := a,
      fl_running := fl_running s + (case r of None \<Rightarrow> {#} | Some node \<Rightarrow> {#nd_Node node#})\<rparr>, w)"
| flight_finish: "nd_Node node \<in># fl_running s \<Longrightarrow> runNodePing now plib clib cl node (fl_agent s, w) = (a, w') \<Longrightarrow>
    flight_step P plib clib cl (s, w) (s\<lparr>fl_agent := a, fl_running := fl_running s - {#nd_Node node#}\<rparr>, w')"
| flight_world: "flight_step P plib clib cl (s, w) (s, w')"

inductive_cases flight_stepE: "flight_step P plib clib cl st st'"

definition flight_start :: "flight \<times> 'w \<Rightarrow> bool" where
  "flight_start st \<longleftrightarrow> (case st of (s, w) \<Rightarrow> pl_nodes (fl_loop s) = [] \<and> inflightPings (fl_agent s) = [] \<and> fl_old s = [] \<and>
     fl_pending s = None \<and> fl_running s = {#})"

text \<open>For a node that every list has: one ping is under way exactly when its flag is set, and none
  otherwise; before the first list nothing happens.\<close>

definition flight_inv :: "string \<Rightarrow> flight \<Rightarrow> bool" where
  "flight_inv n s \<longleftrightarrow>
     count (fl_running s) n = (if gm_mem n (inflightPings (fl_agent s)) then 1 else 0) \<and>
     (n \<in> nd_Node ` set (fl_old s) \<or>
      pl_nodes (fl_loop s) = [] \<and> fl_pending s = None \<and> fl_running s = {#} \<and> inflightPings (fl_agent s) = [])"

lemma tick_flags:
  assumes "updateCoords_tick (l, a) = (r, l', a')"
  shows "(case r of None \<Rightarrow> a' = a
    | Some node \<Rightarrow> pl_nodes l \<noteq> [] \<and> \<not> gm_mem (nd_Node node) (inflightPings a) \<and>
        inflightPings a' = gm_store (nd_Node node) () (inflightPings a)) \<and> pl_nodes l' = pl_nodes l"
  using assms by (auto simp: updateCoords_tick_def Let_def split: if_splits)

lemma debounced_flags: "debounced now node s f (a, w) = (r, a', w') \<Longrightarrow> inflightPings a' = inflightPings a"
  by (auto simp: debounced_def updateLastKnownNodeStatus_def split: if_splits prod.splits option.splits)

lemma debounced_flags': "snd (debounced now node s f (a, w)) = (a', w') \<Longrightarrow> inflightPings a' = inflightPings a"
  by (cases "debounced now node s f (a, w)") (auto dest: debounced_flags)

lemma runNodePing_flags:
  "runNodePing now plib clib cl node (a, w) = (a', w') \<Longrightarrow>
   inflightPings a' = gm_delete (nd_Node node) (inflightPings a)"
  by (auto simp: runNodePing_def updateHealthyNode_def updateFailedNode_def Let_def
      split: prod.splits option.splits dest: debounced_flags debounced_flags')

lemma gm_mem_simps [simp]:
  "gm_mem n (gm_store m v f) \<longleftrightarrow> n = m \<or> gm_mem n f" "gm_mem n (gm_delete m f) \<longleftrightarrow> n \<noteq> m \<and> gm_mem n f"
  by (auto simp: gm_mem_def)

lemma flight_inv_step:
  assumes "flight_inv n (fst st)" and "flight_step (\<lambda>ns. n \<in> nd_Node ` set ns) plib clib cl st st'"
  shows "flight_inv n (fst st')"
  using assms(2)
proof cases
  case (flight_track s nodes old a w)
  then have a: "old = nodes" "inflightPings a = filter (\<lambda>kv. fst kv \<in> nd_Node ` set (fl_old s)) (inflightPings (fl_agent s))"
    by (auto simp: checkNodeTracking_def Let_def)
  then have "gm_mem n (inflightPings a) = gm_mem n (inflightPings (fl_agent s))"
    using assms(1) flight_track(1) unfolding gm_mem_def a gm_load_filter flight_inv_def
    by (auto simp: gm_load_def)
  with assms(1) flight_track a show ?thesis by (simp add: flight_inv_def)
next
  case (flight_take s nodes w Intn)
  with assms(1) show ?thesis by (simp add: flight_inv_def)
next
  case (flight_tick s r l a w)
  with assms(1) tick_flags [OF flight_tick(3)] show ?thesis
    by (cases r) (auto simp: flight_inv_def)
next
  case (flight_finish node s now w a w')
  with assms(1) runNodePing_flags [OF flight_finish(4)] show ?thesis
    by (auto simp: flight_inv_def split: if_splits)
next
  case (flight_world s w w')
  with assms(1) show ?thesis by simp
qed

interpretation flight: inductive_invariant flight_start "flight_step (\<lambda>ns. n \<in> nd_Node ` set ns) plib clib cl"
    "\<lambda>st. flight_inv n (fst st)" for n plib clib cl
proof unfold_locales
  show "flight_start st \<Longrightarrow> flight_inv n (fst st)" for st
    by (auto simp: flight_start_def flight_inv_def gm_mem_def gm_load_def)
  show "flight_inv n (fst st) \<Longrightarrow> flight_step (\<lambda>ns. n \<in> nd_Node ` set ns) plib clib cl st st' \<Longrightarrow>
      flight_inv n (fst st')" for st st'
    by (rule flight_inv_step)
qed

text \<open>C28. A node that stays on the lists is never pinged twice at the same time: whatever lists with the
  node arrive, and however ticks, new lists and finishing pings interleave, at most one ping to the
  node is under way, and its flag is set exactly while one is. In particular the flag never
  gets stuck, so the node is pinged again at its next turn after a ping has finished.\<close>

theorem one_ping_per_node:
  assumes "reach flight_start (flight_step (\<lambda>ns. n \<in> nd_Node ` set ns) plib clib cl) (s, w)"
  shows "count (fl_running s) n \<le> 1 \<and>
    (n \<in># fl_running s \<longleftrightarrow> gm_mem n (inflightPings (fl_agent s))) \<and>
    (\<forall>r l a. updateCoords_tick (fl_loop s, fl_agent s) = (r, l, a) \<and> pl_nodes l \<noteq> [] \<and>
      nd_Node (pl_nodes l ! pl_index l) = n \<and> n \<notin># fl_running s \<longrightarrow> r = Some (pl_nodes l ! pl_index l))"
proof -
  from flight.inv_reach [OF assms] have i: "flight_inv n s" by simp
  then have flag: "n \<in># fl_running s \<longleftrightarrow> gm_mem n (inflightPings (fl_agent s))"
    by (simp add: flight_inv_def flip: count_greater_zero_iff)
  then show ?thesis using i
    by (auto simp: flight_inv_def updateCoords_tick_def Let_def split: if_splits)
qed

definition start_flight :: flight where
  "start_flight = \<lparr>fl_loop = \<lparr>pl_nodes = [], pl_index = 0, pl_ticker = Second\<rparr>, fl_agent = ping_agent, fl_old = [],
     fl_pending = None, fl_running = {#}\<rparr>"

definition taken_flight :: flight where
  "taken_flight = start_flight\<lparr>fl_old := ping_nodes, fl_agent := snd (checkNodeTracking ping_nodes ([], ping_agent)),
     fl_loop := updateCoords_receive (\<lambda>i. i) (snd (checkNodeTracking ping_nodes ([], ping_agent))) ping_nodes
       (fl_loop start_flight)\<rparr>"

theorem one_ping_per_node_witness:
  "\<exists>s. reach flight_start (flight_step (\<lambda>ns. ''b'' \<in> nd_Node ` set ns) dead_ping unit_coords ok_client) (s, ()) \<and>
     fl_running s = {#''b''#} \<and> gm_mem ''b'' (inflightPings (fl_agent s))"
proof -
  let ?P = "\<lambda>ns. ''b'' \<in> nd_Node ` set ns"
  let ?S = "flight_step ?P dead_ping unit_coords ok_client"
  have "flight_start (start_flight, ())"
    by (simp add: flight_start_def start_flight_def ping_agent_def)
  then have r: "reach flight_start ?S (start_flight, ())" by (rule reach_init)
  have t: "checkNodeTracking ping_nodes (fl_old start_flight, fl_agent start_flight) =
      (ping_nodes, snd (checkNodeTracking ping_nodes ([], ping_agent)))"
    by (simp add: checkNodeTracking_def start_flight_def)
  have p: "fl_pending start_flight = None" "''b'' \<in> nd_Node ` set ping_nodes"
    by (simp_all add: start_flight_def ping_nodes_def)
  note r1 = reach_step [OF r flight_track [where P = ?P, OF p t]]
  have r2: "reach flight_start ?S (taken_flight, ())"
    using reach_step [OF r1 flight_take [where Intn = "\<lambda>i. i"]]
    by (simp add: taken_flight_def) (simp add: start_flight_def)
  obtain x l a where k: "updateCoords_tick (fl_loop taken_flight, fl_agent taken_flight) = (x, l, a)"
    using prod_cases3 by blast
  have "map_option nd_Node (fst (updateCoords_tick (fl_loop taken_flight, fl_agent taken_flight))) = Some ''b''"
    by code_simp
  then obtain node where x: "x = Some node" "nd_Node node = ''b''" using k by auto
  have e: "fl_running taken_flight = {#}" by (simp add: taken_flight_def start_flight_def)
  from reach_step [OF r2 flight_tick [OF k]] x e
  have r3: "reach flight_start ?S (taken_flight\<lparr>fl_loop := l, fl_agent := a, fl_running := {#''b''#}\<rparr>, ())" by simp
  from one_ping_per_node [OF r3] r3 show ?thesis by (intro exI conjI) (assumption, simp_all)
qed

end
