(* ===== verification/Node_Pipeline.thy ===== *)
theory Node_Pipeline
  imports Coordinate_Claims Agent_Claims
begin

text \<open>
  How node lists travel inside an instance: \<^verbatim>\<open>watchNodeList\<close> reads them and sends them, over channels with room
  for one list, to \<^verbatim>\<open>watchHealthChecks\<close> and, through the tracker of \<^verbatim>\<open>checkNodeTracking\<close>, to \<^verbatim>\<open>updateCoords\<close>. The
  goroutines are one step relation; a send to a full channel has to wait. \<^verbatim>\<open>Run\<close> waits for \<^verbatim>\<open>watchNodeList\<close> when the agent
  shuts down, so it matters that it returns.
\<close>

text \<open>Where \<^verbatim>\<open>watchNodeList\<close> is: before a pass, about to send the nodes to check, about to send the nodes to ping,
  returned.\<close>

datatype watch_pc = WatchTop | SendHealth "(string, bool) go_map" "api_node list" | SendCoord "api_node list" | WatchDone

text \<open>The loop of \<^verbatim>\<open>updateCoords\<close>: waiting for its first list, running, returned.\<close>

datatype ping_pc = PingWaits | PingRuns ping_loop | PingDone

record pipeline =
  np_watch :: node_watch
  np_pc :: watch_pc
  np_healthCh :: "(string, bool) go_map list"
  np_coordCh :: "api_node list list"
  np_checker :: "(check_watch \<times> CheckRunner) option" \<comment> \<open>None when \<^verbatim>\<open>watchHealthChecks\<close> has returned\<close>
  np_old :: "api_node list" \<comment> \<open>\<^verbatim>\<open>oldNodes\<close> of the tracker\<close>
  np_tracked :: "api_node list option" \<comment> \<open>the list the tracker waits to hand over\<close>
  np_pinger :: ping_pc
  np_agent :: Agent
  np_cancelled :: bool \<comment> \<open>the context of the KV query is cancelled\<close>
  np_lists :: "((string, bool) go_map \<times> api_node list) list" \<comment> \<open>history: all lists read\<close>
  np_checked :: "(string, bool) go_map list" \<comment> \<open>history: the lists \<^verbatim>\<open>watchHealthChecks\<close> took\<close>
  np_pinged :: "api_node list list" \<comment> \<open>history: the lists \<^verbatim>\<open>updateCoords\<close> took\<close>

text \<open>With a cancelled context the query of the KV store fails.\<close>

definition ctx_client :: "string \<Rightarrow> bool \<Rightarrow> 'w watch_client \<Rightarrow> 'w watch_client" where
  "ctx_client err cancelled cl = (if cancelled then cl\<lparr>KV_Get := (\<lambda>k i w. (Inl err, w))\<rparr> else cl)"

definition passed :: "node_update \<Rightarrow> node_watch \<Rightarrow> pipeline \<Rightarrow> pipeline" where
  "passed r v s = (case r of None \<Rightarrow> s\<lparr>np_watch := v\<rparr>
     | Some (nodes, pings) \<Rightarrow> s\<lparr>np_watch := v, np_pc := SendHealth nodes pings, np_lists := np_lists s @ [(nodes, pings)]\<rparr>)"

text \<open>What \<^verbatim>\<open>updateCoords\<close> does with a list.\<close>

definition ping_take :: "(nat \<Rightarrow> nat) \<Rightarrow> Agent \<Rightarrow> api_node list \<Rightarrow> ping_pc \<Rightarrow> ping_pc" where
  "ping_take Intn a nodes p = (case p of PingWaits \<Rightarrow> PingRuns (updateCoords_start Intn a nodes)
     | PingRuns l \<Rightarrow> PingRuns (updateCoords_receive Intn a nodes l) | PingDone \<Rightarrow> PingDone)"

inductive pipe_step :: "nat range_order \<Rightarrow> 'w agent_client \<Rightarrow> 'w watch_client \<Rightarrow>
    pipeline \<times> 'w \<Rightarrow> pipeline \<times> 'w \<Rightarrow> bool"
  for ord :: "nat range_order" and acl :: "'w agent_client" and cl :: "'w watch_client" where
  pipe_pass: "np_pc s = WatchTop \<Longrightarrow>
    watchNodeList_pass (ctx_client err (np_cancelled s) cl) (np_agent s) (np_watch s, w) = (r, v, w') \<Longrightarrow>
    pipe_step ord acl cl (s, w) (passed r v s, w')"
| pipe_send_health: "np_pc s = SendHealth nodes pings \<Longrightarrow> length (np_healthCh s) < 1 \<Longrightarrow>
    pipe_step ord acl cl (s, w) (s\<lparr>np_pc := SendCoord pings, np_healthCh := np_healthCh s @ [nodes]\<rparr>, w)"
| pipe_send_coord: "np_pc s = SendCoord pings \<Longrightarrow> length (np_coordCh s) < 1 \<Longrightarrow>
    pipe_step ord acl cl (s, w) (s\<lparr>np_pc := WatchTop, np_coordCh := np_coordCh s @ [pings]\<rparr>, w)"
| pipe_return: "np_pc s = WatchTop \<Longrightarrow> \<not> nwt_firstRun (np_watch s) \<Longrightarrow> shutdown (np_agent s) \<Longrightarrow>
    pipe_step ord acl cl (s, w) (s\<lparr>np_pc := WatchDone\<rparr>, w)"
| pipe_check: "np_checker s = Some (cs, c) \<Longrightarrow> np_healthCh s = nodes # rest \<Longrightarrow>
    watchHealthChecks_pass ord acl cl (Some nodes) (cs, c, np_agent s, w) = (cs', c', a', w') \<Longrightarrow>
    pipe_step ord acl cl (s, w) (s\<lparr>np_checker := Some (cs', c'), np_healthCh := rest, np_agent := a',
      np_checked := np_checked s @ [nodes]\<rparr>, w')"
| pipe_check_timer: "np_checker s = Some (cs, c) \<Longrightarrow>
    watchHealthChecks_pass ord acl cl None (cs, c, np_agent s, w) = (cs', c', a', w') \<Longrightarrow>
    pipe_step ord acl cl (s, w) (s\<lparr>np_checker := Some (cs', c'), np_agent := a'\<rparr>, w')"
| pipe_check_return: "np_checker s = Some (cs, c) \<Longrightarrow> shutdown (np_agent s) \<Longrightarrow>
    CheckRunner_Stop e oH oT oG (c, w) = Inr (c', w') \<Longrightarrow>
    pipe_step ord acl cl (s, w) (s\<lparr>np_checker := None\<rparr>, w')"
| pipe_track: "np_tracked s = None \<Longrightarrow> np_coordCh s = nodes # rest \<Longrightarrow>
    checkNodeTracking nodes (np_old s, np_agent s) = (old, a) \<Longrightarrow>
    pipe_step ord acl cl (s, w) (s\<lparr>np_tracked := Some nodes, np_coordCh := rest, np_old := old, np_agent := a\<rparr>, w)"
| pipe_ping_take: "np_tracked s = Some nodes \<Longrightarrow> np_pinger s \<noteq> PingDone \<Longrightarrow> \<forall>i. Intn i \<le> i \<Longrightarrow>
    pipe_step ord acl cl (s, w) (s\<lparr>np_tracked := None, np_pinger := ping_take Intn (np_agent s) nodes (np_pinger s),
      np_pinged := np_pinged s @ [nodes]\<rparr>, w)"
| pipe_ping_tick: "np_pinger s = PingRuns l \<Longrightarrow> updateCoords_tick (l, np_agent s) = (r, l', a) \<Longrightarrow>
    pipe_step ord acl cl (s, w) (s\<lparr>np_pinger := PingRuns l', np_agent := a\<rparr>, w)"
| pipe_ping_return: "np_pinger s = PingRuns l \<Longrightarrow> shutdown (np_agent s) \<Longrightarrow>
    pipe_step ord acl cl (s, w) (s\<lparr>np_pinger := PingDone\<rparr>, w)"
| pipe_shutdown: "Shutdown (np_agent s, n) = (a, n') \<Longrightarrow> pipe_step ord acl cl (s, w) (s\<lparr>np_agent := a\<rparr>, w)"
| pipe_cancel: "shutdown (np_agent s) \<Longrightarrow> pipe_step ord acl cl (s, w) (s\<lparr>np_cancelled := True\<rparr>, w)"
| pipe_runner: "np_checker s = Some (cs, c) \<Longrightarrow> pipe_step ord acl cl (s, w) (s\<lparr>np_checker := Some (cs, c')\<rparr>, w')"
    \<comment> \<open>results and timers of the running checks, see \<open>runner_step\<close>\<close>
| pipe_ping_ends: "pipe_step ord acl cl (s, w)
    (s\<lparr>np_agent := (np_agent s)\<lparr>inflightPings := i, knownNodeStatuses := k\<rparr>\<rparr>, w')"
    \<comment> \<open>a ping under way ends, see \<open>runNodePing\<close>\<close>
| pipe_world: "pipe_step ord acl cl (s, w) (s, w')"

inductive_cases pipe_stepE: "pipe_step ord acl cl st st'"

definition pipe_start :: "(TLSConfig \<Rightarrow> string + tls_config) \<Rightarrow> pipeline \<times> 'w \<Rightarrow> bool" where
  "pipe_start SetupTLSConfig st \<longleftrightarrow> (case st of (s, w) \<Rightarrow>
     nwt_firstRun (np_watch s) \<and> np_pc s = WatchTop \<and> np_healthCh s = [] \<and> np_coordCh s = [] \<and>
     np_checker s = watchHealthChecks_start SetupTLSConfig (np_agent s) \<and> np_old s = [] \<and> np_tracked s = None \<and>
     np_pinger s = PingWaits \<and> \<not> shutdown (np_agent s) \<and> \<not> np_cancelled s \<and> np_lists s = [] \<and> np_checked s = [] \<and> np_pinged s = [])"

subsection \<open>Delivery\<close>

lemma ctx_pass:
  "watchNodeList_pass (ctx_client err True cl) a (v, w) = (None, v, w)"
  by (simp add: watchNodeList_pass_def ctx_client_def)

lemma pass_first:
  assumes "watchNodeList_pass cl a (v, w) = (r, v', w')"
  shows "(r \<noteq> None \<longrightarrow> \<not> nwt_firstRun v') \<and> (\<not> nwt_firstRun v \<longrightarrow> \<not> nwt_firstRun v')"
  using assms by (auto simp: watchNodeList_pass_def Let_def split: sum.splits option.splits prod.splits)

lemma check_pass_nodes:
  assumes "watchHealthChecks_pass ord acl cl msg (cs, c, a, w) = (cs', c', a', w')"
  shows "cw_ourNodes cs' = (case msg of None \<Rightarrow> cw_ourNodes cs | Some nodes \<Rightarrow> nodes)"
  using assms by (auto simp: watchHealthChecks_pass_def Let_def split: option.splits prod.splits if_splits)

definition opt_list :: "'a option \<Rightarrow> 'a list" where
  "opt_list x = (case x of None \<Rightarrow> [] | Some y \<Rightarrow> [y])"

lemma opt_list_simps [simp]: "opt_list None = []" "opt_list (Some x) = [x]"
  by (simp_all add: opt_list_def)

definition last_or :: "'a \<Rightarrow> 'a list \<Rightarrow> 'a" where
  "last_or d xs = (if xs = [] then d else last xs)"

lemma last_or_snoc [simp]: "last_or d (xs @ [x]) = x" and last_or_Nil [simp]: "last_or d [] = d"
  by (simp_all add: last_or_def)

text \<open>The lists that are read and not yet in a channel.\<close>

fun to_health :: "watch_pc \<Rightarrow> (string, bool) go_map list" where
  "to_health (SendHealth nodes pings) = [nodes]"
| "to_health _ = []"

fun to_coord :: "watch_pc \<Rightarrow> api_node list list" where
  "to_coord (SendHealth nodes pings) = [pings]"
| "to_coord (SendCoord pings) = [pings]"
| "to_coord _ = []"

definition streams_ok :: "pipeline \<Rightarrow> bool" where
  "streams_ok s \<longleftrightarrow>
     map fst (np_lists s) = np_checked s @ np_healthCh s @ to_health (np_pc s) \<and>
     map snd (np_lists s) = np_pinged s @ opt_list (np_tracked s) @ np_coordCh s @ to_coord (np_pc s) \<and>
     length (np_healthCh s) \<le> 1 \<and> length (np_coordCh s) \<le> 1"

text \<open>The pinger works on the last list it took.\<close>

fun ping_ok :: "ping_pc \<Rightarrow> api_node list list \<Rightarrow> bool" where
  "ping_ok PingWaits taken = (taken = [])"
| "ping_ok (PingRuns l) taken = (taken \<noteq> [] \<and> mset (pl_nodes l) = mset (last taken))"
| "ping_ok PingDone taken = True"

definition ends_ok :: "pipeline \<Rightarrow> bool" where
  "ends_ok s \<longleftrightarrow>
     (\<forall>cs c. np_checker s = Some (cs, c) \<longrightarrow> cw_ourNodes cs = last_or [] (np_checked s)) \<and>
     ping_ok (np_pinger s) (np_pinged s) \<and>
     (np_pc s \<noteq> WatchTop \<longrightarrow> \<not> nwt_firstRun (np_watch s))"

lemma streams_step:
  assumes "streams_ok (fst st)" and "pipe_step ord acl cl st st'"
  shows "streams_ok (fst st')"
  using assms(2)
proof cases
  case (pipe_pass s err w r v w')
  with assms(1) show ?thesis
    by (cases r) (auto simp: streams_ok_def passed_def)
next
  case (pipe_send_health s nodes pings w)
  with assms(1) show ?thesis by (simp add: streams_ok_def)
next
  case (pipe_send_coord s pings w)
  with assms(1) show ?thesis by (simp add: streams_ok_def)
qed (use assms(1) in \<open>auto simp: streams_ok_def split: option.splits\<close>)

lemma tick_nodes: "updateCoords_tick (l, a) = (r, l', a') \<Longrightarrow> pl_nodes l' = pl_nodes l"
  by (auto simp: updateCoords_tick_def Let_def split: if_splits)

lemma ends_step:
  assumes "ends_ok (fst st)" and "pipe_step ord acl cl st st'"
  shows "ends_ok (fst st')"
  using assms(2)
proof cases
  case (pipe_pass s err w r v w')
  with assms(1) pass_first [OF pipe_pass(4)] show ?thesis
    by (cases r) (auto simp: ends_ok_def passed_def)
next
  case (pipe_check s cs c nodes rest w cs' c' a' w')
  with assms(1) check_pass_nodes [OF pipe_check(5)] show ?thesis by (auto simp: ends_ok_def)
next
  case (pipe_check_timer s cs c w cs' c' a' w')
  with assms(1) check_pass_nodes [OF pipe_check_timer(4)] show ?thesis by (auto simp: ends_ok_def)
next
  case (pipe_ping_take s nodes Intn w)
  then have "mset (shuffleNodes Intn nodes) = mset nodes" by (intro mset_shuffle) blast
  with pipe_ping_take assms(1) show ?thesis
    by (auto simp: ends_ok_def ping_take_def updateCoords_start_def updateCoords_receive_def split: ping_pc.splits)
next
  case (pipe_ping_tick s l r l' a w)
  with assms(1) tick_nodes [OF pipe_ping_tick(4)] show ?thesis by (auto simp: ends_ok_def)
qed (use assms(1) in \<open>auto simp: ends_ok_def split: ping_pc.splits\<close>)

interpretation pipe: inductive_invariant "pipe_start tls" "pipe_step ord acl cl"
    "\<lambda>st. streams_ok (fst st) \<and> ends_ok (fst st)" for tls ord acl cl
proof unfold_locales
  show "streams_ok (fst st) \<and> ends_ok (fst st)" if "pipe_start tls st" for st
    using that by (auto simp: pipe_start_def streams_ok_def ends_ok_def watchHealthChecks_start_def split: sum.splits)
  show "streams_ok (fst st') \<and> ends_ok (fst st')"
    if "streams_ok (fst st) \<and> ends_ok (fst st)" "pipe_step ord acl cl st st'" for st st'
    using that by (blast intro: streams_step ends_step)
qed

text \<open>C23. Node lists reach their users complete and in order: what the check watch and what the pinger have taken
  are beginnings of the sequence of lists read from the KV store, the former at most two lists
  behind, the latter at most three, however the goroutines interleave. The check watch works on the last
  list it took, and the pinger on a permutation of the last list it took.\<close>

theorem node_lists_delivered:
  assumes "reach (pipe_start tls) (pipe_step ord acl cl) (s, w)"
  shows "(\<exists>hs. map fst (np_lists s) = np_checked s @ hs \<and> length hs \<le> 2) \<and>
    (\<exists>ps. map snd (np_lists s) = np_pinged s @ ps \<and> length ps \<le> 3) \<and>
    (\<forall>cs c. np_checker s = Some (cs, c) \<longrightarrow> cw_ourNodes cs = last_or [] (np_checked s)) \<and>
    (\<forall>l. np_pinger s = PingRuns l \<longrightarrow> mset (pl_nodes l) = mset (last (np_pinged s)))"
proof -
  from pipe.inv_reach [OF assms] have s: "streams_ok s" and e: "ends_ok s" by auto
  have p: "length (to_health p) \<le> 1" "length (to_coord p) \<le> 1" for p by (cases p; simp)+
  have t: "length (opt_list (np_tracked s)) \<le> 1" by (simp add: opt_list_def split: option.split)
  from s have c: "length (np_healthCh s) \<le> 1" "length (np_coordCh s) \<le> 1" by (simp_all add: streams_ok_def)
  have "length (np_healthCh s @ to_health (np_pc s)) \<le> 2"
    using p(1) [of "np_pc s"] c by simp
  moreover have "map fst (np_lists s) = np_checked s @ (np_healthCh s @ to_health (np_pc s))"
    using s by (simp add: streams_ok_def)
  ultimately have 1: "\<exists>hs. map fst (np_lists s) = np_checked s @ hs \<and> length hs \<le> 2" by blast
  have "length (opt_list (np_tracked s) @ np_coordCh s @ to_coord (np_pc s)) \<le> 3"
    using p(2) [of "np_pc s"] t c by simp
  moreover have "map snd (np_lists s) = np_pinged s @ (opt_list (np_tracked s) @ np_coordCh s @ to_coord (np_pc s))"
    using s by (simp add: streams_ok_def)
  ultimately have 2: "\<exists>ps. map snd (np_lists s) = np_pinged s @ ps \<and> length ps \<le> 3" by blast
  show ?thesis using 1 2 e by (auto simp: ends_ok_def)
qed

subsection \<open>Shutdown\<close>

definition health_blocked :: "pipeline \<Rightarrow> bool" where
  "health_blocked s \<longleftrightarrow> np_healthCh s \<noteq> [] \<and> np_checker s = None"

definition coord_blocked :: "pipeline \<Rightarrow> bool" where
  "coord_blocked s \<longleftrightarrow> np_coordCh s \<noteq> [] \<and> np_tracked s \<noteq> None \<and> np_pinger s = PingDone"

text \<open>\<^verbatim>\<open>watchNodeList\<close> cannot return: it has never seen a list, so that it does not look at the shutdown channel, or it
  sends to a full channel that nobody reads any more.\<close>

definition hung :: "pipeline \<Rightarrow> bool" where
  "hung s \<longleftrightarrow> np_cancelled s \<and> (case np_pc s of WatchTop \<Rightarrow> nwt_firstRun (np_watch s)
     | SendHealth nodes pings \<Rightarrow> health_blocked s \<or> coord_blocked s | SendCoord pings \<Rightarrow> coord_blocked s
     | WatchDone \<Rightarrow> False)"

lemma hung_step:
  assumes "hung (fst st)" and "pipe_step ord acl cl st st'"
  shows "hung (fst st')"
  using assms(2)
proof cases
  case (pipe_pass s err w r v w')
  with assms(1) have "r = None \<and> v = np_watch s" by (auto simp: hung_def ctx_pass)
  with pipe_pass assms(1) show ?thesis by (simp add: passed_def)
qed (use assms(1) in \<open>auto simp: hung_def health_blocked_def coord_blocked_def split: watch_pc.splits\<close>)

lemma hung_forever:
  assumes "(pipe_step ord acl cl)\<^sup>*\<^sup>* st st'" and "hung (fst st)"
  shows "hung (fst st')"
  using assms by (induction rule: rtranclp_induct) (auto intro: hung_step)

lemma wildcard_shutdown:
  "getNamespaceWildcard acl (a, w) = (ns, a', w') \<Longrightarrow> shutdown a' = shutdown a"
  by (auto simp: getNamespaceWildcard_def Let_def split: if_splits prod.splits sum.splits option.splits self_value.splits)

lemma check_pass_shutdown:
  assumes "watchHealthChecks_pass ord acl cl msg (cs, c, a, w) = (cs', c', a', w')"
  shows "shutdown a' = shutdown a"
  using assms
  by (auto simp: watchHealthChecks_pass_def getHealthChecks_def Let_def
      split: prod.splits if_splits sum.splits dest: wildcard_shutdown)

text \<open>A cancelled context means that the shutdown channel is closed.\<close>

definition closed_ok :: "pipeline \<Rightarrow> bool" where
  "closed_ok s \<longleftrightarrow> (np_cancelled s \<longrightarrow> shutdown (np_agent s))"

lemma closed_step:
  assumes "closed_ok (fst st)" and "pipe_step ord acl cl st st'"
  shows "closed_ok (fst st')"
  using assms(2)
proof cases
  case (pipe_pass s err w r v w')
  with assms(1) show ?thesis by (cases r) (auto simp: closed_ok_def passed_def)
next
  case (pipe_check s cs c nodes rest w cs' c' a' w')
  with assms(1) check_pass_shutdown [OF pipe_check(5)] show ?thesis by (simp add: closed_ok_def)
next
  case (pipe_check_timer s cs c w cs' c' a' w')
  with assms(1) check_pass_shutdown [OF pipe_check_timer(4)] show ?thesis by (simp add: closed_ok_def)
next
  case (pipe_track s nodes rest old a w)
  with assms(1) show ?thesis by (auto simp: closed_ok_def checkNodeTracking_def Let_def)
next
  case (pipe_ping_tick s l r l' a w)
  with assms(1) show ?thesis by (auto simp: closed_ok_def updateCoords_tick_def Let_def split: if_splits)
next
  case (pipe_shutdown s n a n' w)
  with assms(1) show ?thesis by (auto simp: closed_ok_def Shutdown_def split: if_splits)
qed (use assms(1) in \<open>auto simp: closed_ok_def\<close>)

interpretation closed: inductive_invariant "pipe_start tls" "pipe_step ord acl cl" "\<lambda>st. closed_ok (fst st)"
  for tls ord acl cl
proof unfold_locales
  show "closed_ok (fst st)" if "pipe_start tls st" for st using that by (auto simp: pipe_start_def closed_ok_def)
qed (rule closed_step)

definition can_return :: "nat range_order \<Rightarrow> 'w agent_client \<Rightarrow> 'w watch_client \<Rightarrow> pipeline \<times> 'w \<Rightarrow> bool" where
  "can_return ord acl cl st \<longleftrightarrow> (\<exists>st'. (pipe_step ord acl cl)\<^sup>*\<^sup>* st st' \<and> np_pc (fst st') = WatchDone)"

text \<open>The ways out: from the top of the loop, with one list left to send, and with two.\<close>

lemma returns_top:
  assumes "np_pc s = WatchTop" and "\<not> nwt_firstRun (np_watch s)" and "shutdown (np_agent s)"
  shows "can_return ord acl cl (s, w)"
proof -
  have "(pipe_step ord acl cl)\<^sup>*\<^sup>* (s, w) (s\<lparr>np_pc := WatchDone\<rparr>, w)"
    by (rule r_into_rtranclp) (rule pipe_return [OF assms])
  then show ?thesis unfolding can_return_def by fastforce
qed

lemma returns_after:
  assumes "pipe_step ord acl cl (s, w) (s1, w1)"
    and "can_return ord acl cl (s1, w1)"
  shows "can_return ord acl cl (s, w)"
  using assms unfolding can_return_def by (meson converse_rtranclp_into_rtranclp)

lemma returns_coord_free:
  assumes "np_pc s = SendCoord pings" and "\<not> nwt_firstRun (np_watch s)" and "shutdown (np_agent s)"
    and "np_coordCh s = []"
  shows "can_return ord acl cl (s, w)"
  by (rule returns_after [OF pipe_send_coord [OF assms(1)]]) (use assms in \<open>auto intro: returns_top\<close>)

lemma returns_coord_tracker:
  assumes "np_pc s = SendCoord pings" and "\<not> nwt_firstRun (np_watch s)" and "shutdown (np_agent s)"
    and "length (np_coordCh s) \<le> 1" and "np_tracked s = None"
  shows "can_return ord acl cl (s, w)"
proof (cases "np_coordCh s")
  case Nil
  with assms show ?thesis by (blast intro: returns_coord_free)
next
  case (Cons nodes rest)
  obtain old a where t: "checkNodeTracking nodes (np_old s, np_agent s) = (old, a)" by fastforce
  then have "shutdown a" using assms(3) by (auto simp: checkNodeTracking_def Let_def)
  then show ?thesis
    by (intro returns_after [OF pipe_track [OF assms(5) Cons t]] returns_coord_free [of _ pings])
      (use assms Cons in auto)
qed

lemma returns_coord:
  assumes "np_pc s = SendCoord pings" and "\<not> nwt_firstRun (np_watch s)" and "shutdown (np_agent s)"
    and "length (np_coordCh s) \<le> 1" and "\<not> coord_blocked s"
  shows "can_return ord acl cl (s, w)"
proof (cases "np_tracked s")
  case None
  with assms show ?thesis by (blast intro: returns_coord_tracker)
next
  case (Some nodes)
  show ?thesis
  proof (cases "np_coordCh s = []")
    case True
    with assms show ?thesis by (blast intro: returns_coord_free)
  next
    case False
    with assms(5) Some have p: "np_pinger s \<noteq> PingDone" by (simp add: coord_blocked_def)
    show ?thesis
      by (rule returns_after [OF pipe_ping_take [OF Some p, of "\<lambda>i. i"]])
        (use assms in \<open>auto intro!: returns_coord_tracker [of _ pings]\<close>)
  qed
qed

lemma returns_health:
  assumes "np_pc s = SendHealth nodes pings" and "\<not> nwt_firstRun (np_watch s)" and "shutdown (np_agent s)"
    and "length (np_coordCh s) \<le> 1" and "\<not> coord_blocked s" and "np_healthCh s = []"
  shows "can_return ord acl cl (s, w)"
  by (rule returns_after [OF pipe_send_health [OF assms(1)]])
    (use assms in \<open>auto intro!: returns_coord [of _ pings] simp: coord_blocked_def\<close>)

lemma returns_unless_hung:
  assumes "streams_ok s" and "ends_ok s" and "shutdown (np_agent s)" and "np_cancelled s" and "\<not> hung s"
  shows "can_return ord acl cl (s, w)"
proof (cases "np_pc s")
  case WatchTop
  with assms show ?thesis by (auto simp: hung_def intro: returns_top)
next
  case (SendHealth nodes pings)
  then have g: "\<not> nwt_firstRun (np_watch s)" "length (np_coordCh s) \<le> 1" "length (np_healthCh s) \<le> 1" "\<not> coord_blocked s"
    "\<not> health_blocked s" using assms by (auto simp: ends_ok_def streams_ok_def hung_def)
  show ?thesis
  proof (cases "np_healthCh s")
    case Nil
    with SendHealth assms(3) g show ?thesis by (blast intro: returns_health)
  next
    case (Cons n rest)
    with g obtain cs c where k: "np_checker s = Some (cs, c)" and r: "rest = []" by (auto simp: health_blocked_def)
    obtain cs' c' a' w' where p: "watchHealthChecks_pass ord acl cl (Some n) (cs, c, np_agent s, w) = (cs', c', a', w')"
      by (cases "watchHealthChecks_pass ord acl cl (Some n) (cs, c, np_agent s, w)") auto
    have "shutdown a'" using check_pass_shutdown [OF p] assms(3) by simp
    then show ?thesis
      by (intro returns_after [OF pipe_check [OF k Cons p]] returns_health [of _ nodes pings])
        (use SendHealth g r in \<open>auto simp: coord_blocked_def\<close>)
  qed
next
  case (SendCoord pings)
  with assms show ?thesis by (intro returns_coord [of _ pings]) (auto simp: ends_ok_def streams_ok_def hung_def)
next
  case WatchDone
  then show ?thesis unfolding can_return_def by force
qed

text \<open>C24. Whether an agent can end after a shutdown request: \<^verbatim>\<open>Run\<close> waits for \<^verbatim>\<open>watchNodeList\<close>, and from a reachable state in
  which the request has been noticed \<^verbatim>\<open>watchNodeList\<close> can still return exactly if it is not hung: an agent that has never
  found its node list stays in its loop for ever, because the loop looks at the shutdown channel only after the
  first list; and so does an agent that is about to send a list to a full channel whose reader has
  returned.\<close>

theorem shutdown_returns_iff:
  assumes "reach (pipe_start tls) (pipe_step ord acl cl) (s, w)" and "np_cancelled s"
  shows "(\<exists>st. (pipe_step ord acl cl)\<^sup>*\<^sup>* (s, w) st \<and> np_pc (fst st) = WatchDone) \<longleftrightarrow> \<not> hung s"
proof
  assume "\<exists>st. (pipe_step ord acl cl)\<^sup>*\<^sup>* (s, w) st \<and> np_pc (fst st) = WatchDone"
  then obtain st where "(pipe_step ord acl cl)\<^sup>*\<^sup>* (s, w) st" "np_pc (fst st) = WatchDone" by blast
  then show "\<not> hung s" using hung_forever [of ord acl cl "(s, w)" st] by (auto simp: hung_def)
next
  assume "\<not> hung s"
  moreover from closed.inv_reach [OF assms(1)] assms(2) have "shutdown (np_agent s)" by (simp add: closed_ok_def)
  moreover from pipe.inv_reach [OF assms(1)] have "streams_ok s" "ends_ok s" by auto
  ultimately have "can_return ord acl cl (s, w)" using assms(2) by (blast intro: returns_unless_hung)
  then show "\<exists>st. (pipe_step ord acl cl)\<^sup>*\<^sup>* (s, w) st \<and> np_pc (fst st) = WatchDone"
    by (simp add: can_return_def)
qed

definition first_pipeline :: "(TLSConfig \<Rightarrow> string + tls_config) \<Rightarrow> pipeline" where
  "first_pipeline tls = \<lparr>np_watch = \<lparr>nwt_firstRun = True, nwt_WaitIndex = 0\<rparr>, np_pc = WatchTop, np_healthCh = [], np_coordCh = [],
     np_checker = watchHealthChecks_start tls ping_agent, np_old = [], np_tracked = None, np_pinger = PingWaits,
     np_agent = ping_agent, np_cancelled = False, np_lists = [], np_checked = [], np_pinged = []\<rparr>"

lemma first_pipeline_start: "pipe_start tls (first_pipeline tls, w)"
  by (simp add: pipe_start_def first_pipeline_def ping_agent_def)

text \<open>A KV store that always has the same list for everybody, and no nodes in the catalog.\<close>

definition listing_client :: "unit watch_client" where
  "listing_client = \<lparr>KV_Get = (\<lambda>k i w. (Inr (Some \<lparr>kp_Key = k, kp_Value = Marshal \<lparr>nw_Nodes = [''n1''], nw_Probes = []\<rparr>, kp_ModifyIndex = 1\<rparr>, 1), w)),
     Catalog_Nodes = (\<lambda>q w. (Inr [], w)), Health_State = (\<lambda>s q w. (Inl ''down'', w))\<rparr>"

lemma listing_pass:
  "watchNodeList_pass listing_client ping_agent (\<lparr>nwt_firstRun = f, nwt_WaitIndex = i\<rparr>, ()) =
     (Some ([(''n1'', True)], []), \<lparr>nwt_firstRun = False, nwt_WaitIndex = 1\<rparr>, ())"
proof -
  have "Unmarshal (Marshal \<lparr>nw_Nodes = [''n1''], nw_Probes = []\<rparr>) = Some \<lparr>nw_Nodes = [''n1''], nw_Probes = []\<rparr>"
    by code_simp
  then show ?thesis
    by (simp add: watchNodeList_pass_def listing_client_def healthNodes_of_def gm_store_def Let_def)
qed

lemma reach_list:
  assumes "reach (pipe_start tls) (pipe_step ord acl listing_client) (s, ())" and "np_pc s = WatchTop"
    and "\<not> np_cancelled s" and "np_agent s = ping_agent"
  shows "reach (pipe_start tls) (pipe_step ord acl listing_client)
    (passed (Some ([(''n1'', True)], [])) \<lparr>nwt_firstRun = False, nwt_WaitIndex = 1\<rparr> s, ())"
proof (rule reach_step [OF assms(1) pipe_pass [OF assms(2)]])
  show "watchNodeList_pass (ctx_client '''' (np_cancelled s) listing_client) (np_agent s) (np_watch s, ()) =
      (Some ([(''n1'', True)], []), \<lparr>nwt_firstRun = False, nwt_WaitIndex = 1\<rparr>, ())"
    using assms listing_pass by (cases "np_watch s") (simp add: ctx_client_def)
qed

text \<open>The state after the first list was sent.\<close>

definition one_list :: "(TLSConfig \<Rightarrow> string + tls_config) \<Rightarrow> pipeline" where
  "one_list tls = (first_pipeline tls)\<lparr>np_watch := \<lparr>nwt_firstRun = False, nwt_WaitIndex = 1\<rparr>,
     np_lists := [([(''n1'', True)], [])], np_healthCh := [[(''n1'', True)]], np_coordCh := [[]]\<rparr>"

lemma reach_one_list: "reach (pipe_start tls) (pipe_step ord acl listing_client) (one_list tls, ())"
proof -
  let ?R = "reach (pipe_start tls) (pipe_step ord acl listing_client)"
  let ?u = "Some ([(''n1'', True)], [])" and ?v = "\<lparr>nwt_firstRun = False, nwt_WaitIndex = 1\<rparr>"
  let ?s = "passed ?u ?v (first_pipeline tls)"
  have "?R (?s, ())" by (intro reach_list reach_init first_pipeline_start) (simp_all add: first_pipeline_def)
  then have "?R (?s\<lparr>np_pc := SendCoord [], np_healthCh := [[(''n1'', True)]]\<rparr>, ())"
    by (rule reach_step) (use pipe_send_health [of ?s "[(''n1'', True)]" "[]" ord acl listing_client "()"] in
        \<open>simp add: passed_def first_pipeline_def\<close>)
  then show ?thesis
    by (rule reach_step) (use pipe_send_coord [of "?s\<lparr>np_pc := SendCoord [], np_healthCh := [[(''n1'', True)]]\<rparr>"
        "[]" ord acl listing_client "()"] in \<open>simp add: passed_def first_pipeline_def one_list_def\<close>)
qed

text \<open>Shutdown and cancellation at any point.\<close>

definition stopped :: "pipeline \<Rightarrow> pipeline" where
  "stopped s = s\<lparr>np_agent := (np_agent s)\<lparr>shutdown := True\<rparr>, np_cancelled := True\<rparr>"

lemma reach_stopped:
  assumes "reach (pipe_start tls) (pipe_step ord acl cl) (s, w)" and "\<not> shutdown (np_agent s)"
  shows "reach (pipe_start tls) (pipe_step ord acl cl) (stopped s, w)"
proof -
  have "reach (pipe_start tls) (pipe_step ord acl cl) (s\<lparr>np_agent := (np_agent s)\<lparr>shutdown := True\<rparr>\<rparr>, w)"
    by (rule reach_step [OF assms(1) pipe_shutdown [of s 0 _ 1]]) (simp add: Shutdown_def assms(2))
  from reach_step [OF this pipe_cancel] show ?thesis by (simp add: stopped_def)
qed

abbreviation tls_ok :: "TLSConfig \<Rightarrow> string + tls_config" where
  "tls_ok \<equiv> \<lambda>_. Inr \<lparr>tls_InsecureSkipVerify = False, tls_ServerName = ''''\<rparr>"

abbreviation tls_fails :: "TLSConfig \<Rightarrow> string + tls_config" where
  "tls_fails \<equiv> \<lambda>_. Inl ''no such file''"

abbreviation listing_step :: "pipeline \<times> unit \<Rightarrow> pipeline \<times> unit \<Rightarrow> bool" where
  "listing_step \<equiv> pipe_step (\<lambda>m. m) (quiet_agent (Inl ''down'')) listing_client"

theorem shutdown_returns_iff_witness:
  "\<not> (\<exists>st. listing_step\<^sup>*\<^sup>* (stopped (first_pipeline tls_ok), ()) st \<and> np_pc (fst st) = WatchDone) \<and>
   (\<exists>st. listing_step\<^sup>*\<^sup>* (stopped (one_list tls_ok), ()) st \<and> np_pc (fst st) = WatchDone)"
proof
  have r: "reach (pipe_start tls_ok) listing_step (first_pipeline tls_ok, ())"
    by (intro reach_init first_pipeline_start)
  have "reach (pipe_start tls_ok) listing_step (stopped (first_pipeline tls_ok), ())"
    by (rule reach_stopped [OF r]) (simp add: first_pipeline_def ping_agent_def)
  from shutdown_returns_iff [OF this]
  show "\<not> (\<exists>st. listing_step\<^sup>*\<^sup>* (stopped (first_pipeline tls_ok), ()) st \<and> np_pc (fst st) = WatchDone)"
    by (simp add: stopped_def hung_def first_pipeline_def)
  have "reach (pipe_start tls_ok) listing_step (stopped (one_list tls_ok), ())"
    by (rule reach_stopped [OF reach_one_list]) (simp add: one_list_def first_pipeline_def ping_agent_def)
  from shutdown_returns_iff [OF this]
  show "\<exists>st. listing_step\<^sup>*\<^sup>* (stopped (one_list tls_ok), ()) st \<and> np_pc (fst st) = WatchDone"
    by (simp add: stopped_def hung_def one_list_def first_pipeline_def)
qed

theorem node_lists_delivered_witness:
  "\<exists>hs. map fst (np_lists (one_list tls_ok)) = np_checked (one_list tls_ok) @ hs \<and> length hs \<le> 2"
  using node_lists_delivered [OF reach_one_list [of tls_ok "\<lambda>m. m" "quiet_agent (Inl ''down'')"]] by blast

subsection \<open>Without a TLS configuration\<close>

definition no_checker :: "pipeline \<Rightarrow> bool" where
  "no_checker s \<longleftrightarrow> np_checker s = None \<and> np_checked s = []"

lemma no_checker_step: "no_checker (fst st) \<Longrightarrow> pipe_step ord acl cl st st' \<Longrightarrow> no_checker (fst st')"
  by (erule pipe_stepE) (auto simp: no_checker_def passed_def split: option.splits)

lemma no_checker_steps:
  "(pipe_step ord acl cl)\<^sup>*\<^sup>* st st' \<Longrightarrow> no_checker (fst st) \<Longrightarrow> no_checker (fst st')"
  by (induction rule: rtranclp_induct) (auto intro: no_checker_step)

lemma no_checker_reach:
  assumes "reach init (pipe_step ord acl cl) st" and "\<And>st. init st \<Longrightarrow> no_checker (fst st)"
  shows "no_checker (fst st)"
  using assms by (induction rule: reach.induct) (auto intro: no_checker_step)

lemma lists_grow:
  "(pipe_step ord acl cl)\<^sup>*\<^sup>* st st' \<Longrightarrow> \<exists>xs. np_lists (fst st') = np_lists (fst st) @ xs"
proof (induction rule: rtranclp_induct)
  case (step y z)
  from step(2) have "\<exists>xs. np_lists (fst z) = np_lists (fst y) @ xs"
    by (rule pipe_stepE) (auto simp: passed_def split: option.splits)
  with step(3) show ?case by (metis append.assoc)
qed simp

text \<open>Without a checker at most two lists are ever read, and with the second one the watcher is at its send.\<close>

lemma no_checker_lists:
  assumes "streams_ok s" and "no_checker s"
  shows "length (np_lists s) \<le> 2" "length (np_pinged s) \<le> 1"
    "length (np_lists s) = 2 \<Longrightarrow> to_health (np_pc s) \<noteq> []"
proof -
  have "length (map fst (np_lists s)) = length (np_healthCh s @ to_health (np_pc s))"
    using assms by (intro arg_cong [where f = length]) (simp add: streams_ok_def no_checker_def)
  then have h: "length (np_lists s) = length (np_healthCh s) + length (to_health (np_pc s))" by simp
  have "length (map snd (np_lists s)) =
      length (np_pinged s @ opt_list (np_tracked s) @ np_coordCh s @ to_coord (np_pc s))"
    using assms by (intro arg_cong [where f = length]) (simp add: streams_ok_def)
  then have c: "length (np_lists s) \<ge> length (np_pinged s) + length (to_coord (np_pc s))" by simp
  have p: "length (to_health (np_pc s)) \<le> length (to_coord (np_pc s)) \<and> length (to_health (np_pc s)) \<le> 1"
    by (cases "np_pc s") simp_all
  have "length (np_healthCh s) \<le> 1" using assms(1) by (simp add: streams_ok_def)
  with h c p show "length (np_lists s) \<le> 2" "length (np_pinged s) \<le> 1"
    "length (np_lists s) = 2 \<Longrightarrow> to_health (np_pc s) \<noteq> []" by auto
qed

text \<open>C25. When the TLS configuration of the checks cannot be loaded, only a log message says so: \<^verbatim>\<open>watchHealthChecks\<close>
  returns, no node is ever checked, and since nobody empties its channel \<^verbatim>\<open>watchNodeList\<close> stops at the second node list: the
  pinger never gets another list than the first, no later list is read, and after the second list
  the agent cannot end even when it is shut down.\<close>

theorem tls_error_freezes:
  assumes "\<forall>t. \<exists>err. SetupTLSConfig t = Inl err"
    and "reach (pipe_start SetupTLSConfig) (pipe_step ord acl cl) (s, w)"
  shows "np_checked s = [] \<and> length (np_lists s) \<le> 2 \<and> length (np_pinged s) \<le> 1 \<and>
    (length (np_lists s) = 2 \<longrightarrow> (\<forall>st. (pipe_step ord acl cl)\<^sup>*\<^sup>* (s, w) st \<longrightarrow>
       np_lists (fst st) = np_lists s \<and> length (np_pinged (fst st)) \<le> 1 \<and> np_pc (fst st) \<noteq> WatchDone))"
proof -
  have "no_checker (fst st)" if "pipe_start SetupTLSConfig st" for st :: "pipeline \<times> 'a"
  proof -
    obtain err where "SetupTLSConfig \<lparr>tls_CAFile = cfg_HTTPSCAFile (config (np_agent (fst st))),
        tls_CAPath = cfg_HTTPSCAPath (config (np_agent (fst st))), tls_CertFile = cfg_HTTPSCertFile (config (np_agent (fst st))),
        tls_KeyFile = cfg_HTTPSKeyFile (config (np_agent (fst st)))\<rparr> = Inl err" using assms(1) by blast
    with that show ?thesis by (auto simp: no_checker_def pipe_start_def watchHealthChecks_start_def)
  qed
  with no_checker_reach [OF assms(2)] have n: "no_checker s" by simp
  have s: "streams_ok s" using pipe.inv_reach [OF assms(2)] by auto
  have "np_lists (fst st) = np_lists s \<and> length (np_pinged (fst st)) \<le> 1 \<and> np_pc (fst st) \<noteq> WatchDone"
    if l: "length (np_lists s) = 2" and st: "(pipe_step ord acl cl)\<^sup>*\<^sup>* (s, w) st" for st
  proof -
    have t: "no_checker (fst st)" using no_checker_steps [OF st] n by simp
    have "streams_ok (fst st)" using pipe.inv_reach [OF reach_steps [OF st assms(2)]] by simp
    note k = no_checker_lists [OF this t]
    obtain xs where "np_lists (fst st) = np_lists s @ xs" using lists_grow [OF st] by auto
    with k(1) l have "np_lists (fst st) = np_lists s" by simp
    with k l show ?thesis by auto
  qed
  with no_checker_lists [OF s n] n show ?thesis by (simp add: no_checker_def)
qed

definition two_lists :: pipeline where
  "two_lists = passed (Some ([(''n1'', True)], [])) \<lparr>nwt_firstRun = False, nwt_WaitIndex = 1\<rparr> (one_list tls_fails)"

theorem tls_error_freezes_witness:
  "length (np_lists two_lists) = 2 \<and>
   \<not> (\<exists>st. listing_step\<^sup>*\<^sup>* (two_lists, ()) st \<and> np_lists (fst st) \<noteq> np_lists two_lists) \<and>
   \<not> (\<exists>st. listing_step\<^sup>*\<^sup>* (two_lists, ()) st \<and> np_pc (fst st) = WatchDone)"
proof -
  have r: "reach (pipe_start tls_fails) listing_step (two_lists, ())" unfolding two_lists_def
    by (rule reach_list [OF reach_one_list]) (simp_all add: one_list_def first_pipeline_def)
  have l: "length (np_lists two_lists) = 2" by (simp add: passed_def one_list_def two_lists_def)
  have "\<forall>t. \<exists>err. tls_fails t = Inl err" by blast
  note f = tls_error_freezes [OF this r, THEN conjunct2, THEN conjunct2, THEN conjunct2, THEN mp, OF l]
  from f have "np_lists (fst st) = np_lists two_lists" "np_pc (fst st) \<noteq> WatchDone"
    if "listing_step\<^sup>*\<^sup>* (two_lists, ()) st" for st using that by blast+
  with l show ?thesis by blast
qed

end
