(* ===== verification/Takeover.thy ===== *)
theory Takeover
  imports Leader_Lists
begin

text \<open>
  Several instances and the KV store between them as one system: leaders that start, publish and stop, instances
  that read their lists, crash and come back, in any order. Nothing is assumed about how many instances
  run \<^verbatim>\<open>computeWatchedNodes\<close> at a time: an instance that has lost the lock may be in the middle of a pass. Instances are named by their
  service ID.
\<close>

record 'w cluster =
  ct_leads :: "string \<Rightarrow> leader_watch option" \<comment> \<open>the running \<^verbatim>\<open>computeWatchedNodes\<close>\<close>
  ct_reader :: "string \<Rightarrow> node_watch"
  ct_assigned :: "string \<Rightarrow> (string, bool) go_map option" \<comment> \<open>the nodes last handed to \<^verbatim>\<open>watchHealthChecks\<close>\<close>
  ct_world :: 'w

datatype cluster_event = Lead string | LeaderPass string | StopLeading string | Read string | Restart string | Others

text \<open>The watch of a new leader: what its two watches sent first, and a timer that has fired.\<close>

definition first_watch :: "api_node list \<Rightarrow> ServiceEntry list \<Rightarrow> leader_watch" where
  "first_watch nodes insts = \<lparr>lw_externalNodes = nodes, lw_healthyInstances = insts, lw_prev = None,
     lw_retryTimer = RetryTimer 0\<rparr>"

definition first_reader :: node_watch where
  "first_reader = \<lparr>nwt_firstRun = True, nwt_WaitIndex = 0\<rparr>"

text \<open>The steps, for the configurations of the instances, the clients of leaders and readers, the contents of the KV store,
  and the path of the node lists, below which nobody else writes.\<close>

inductive cluster_step :: "(string \<Rightarrow> Agent) \<Rightarrow> 'w leader_client \<Rightarrow> 'w watch_client \<Rightarrow>
    ('w \<Rightarrow> string \<Rightarrow> string option) \<Rightarrow> string \<Rightarrow> cluster_event \<Rightarrow> 'w cluster \<Rightarrow> 'w cluster \<Rightarrow> bool"
  for agents :: "string \<Rightarrow> Agent" and lcl :: "'w leader_client" and rcl :: "'w watch_client"
    and kv :: "'w \<Rightarrow> string \<Rightarrow> string option" and path :: string where
  ct_lead: "ct_leads s i = None \<Longrightarrow> cluster_step agents lcl rcl kv path (Lead i) s
    (s\<lparr>ct_leads := (ct_leads s)(i \<mapsto> first_watch nodes insts)\<rparr>)"
| ct_pass: "ct_leads s i = Some l \<Longrightarrow> computeWatchedNodes_pass lcl (agents i) inp (l, ct_world s) = (l', w') \<Longrightarrow>
    cluster_step agents lcl rcl kv path (LeaderPass i) s (s\<lparr>ct_leads := (ct_leads s)(i \<mapsto> l'), ct_world := w'\<rparr>)"
| ct_stop: "cluster_step agents lcl rcl kv path (StopLeading i) s (s\<lparr>ct_leads := (ct_leads s)(i := None)\<rparr>)"
| ct_read: "watchNodeList_pass rcl (agents i) (ct_reader s i, ct_world s) = (r, v, w') \<Longrightarrow>
    cluster_step agents lcl rcl kv path (Read i) s (s\<lparr>ct_reader := (ct_reader s)(i := v), ct_world := w',
      ct_assigned := (case r of None \<Rightarrow> ct_assigned s | Some (nodes, pings) \<Rightarrow> (ct_assigned s)(i \<mapsto> nodes))\<rparr>)"
| ct_restart: "cluster_step agents lcl rcl kv path (Restart i) s (s\<lparr>ct_leads := (ct_leads s)(i := None),
    ct_reader := (ct_reader s)(i := first_reader), ct_assigned := (ct_assigned s)(i := None)\<rparr>)"
| ct_others: "\<forall>k. prefix path k \<longrightarrow> kv w' k = kv (ct_world s) k \<Longrightarrow>
    cluster_step agents lcl rcl kv path Others s (s\<lparr>ct_world := w'\<rparr>)"

inductive_cases cluster_stepE: "cluster_step agents lcl rcl kv path e s t"

inductive cluster_run :: "(string \<Rightarrow> Agent) \<Rightarrow> 'w leader_client \<Rightarrow> 'w watch_client \<Rightarrow>
    ('w \<Rightarrow> string \<Rightarrow> string option) \<Rightarrow> string \<Rightarrow> cluster_event list \<Rightarrow> 'w cluster \<Rightarrow> 'w cluster \<Rightarrow> bool"
  for agents :: "string \<Rightarrow> Agent" and lcl :: "'w leader_client" and rcl :: "'w watch_client"
    and kv :: "'w \<Rightarrow> string \<Rightarrow> string option" and path :: string where
  run_nil: "cluster_run agents lcl rcl kv path [] s s"
| run_snoc: "cluster_run agents lcl rcl kv path evs s t \<Longrightarrow> cluster_step agents lcl rcl kv path e t u \<Longrightarrow>
    cluster_run agents lcl rcl kv path (evs @ [e]) s u"

text \<open>Reading changes nothing in the KV store.\<close>

definition read_only :: "'w watch_client \<Rightarrow> ('w \<Rightarrow> string \<Rightarrow> string option) \<Rightarrow> bool" where
  "read_only rcl kv \<longleftrightarrow> (\<forall>k i w r w'. KV_Get rcl k i w = (r, w') \<longrightarrow> kv w' = kv w) \<and>
     (\<forall>q w r w'. Catalog_Nodes rcl q w = (r, w') \<longrightarrow> kv w' = kv w)"

lemma read_only_pass:
  assumes "read_only rcl kv" and "watchNodeList_pass rcl a (v, w) = (r, v', w')"
  shows "kv w' = kv w"
proof -
  have g: "kv w' = kv w" if "KV_Get rcl k i w = (r, w')" for k i w r w' using assms(1) that by (simp add: read_only_def)
  have n: "kv w' = kv w" if "Catalog_Nodes rcl q w = (r, w')" for q w r w' using assms(1) that by (simp add: read_only_def)
  show ?thesis using assms(2)
    by (auto simp: watchNodeList_pass_def Let_def split: sum.splits option.splits prod.splits dest!: g n)
qed

text \<open>An instance has read its list and not restarted since.\<close>

definition settled :: "string \<Rightarrow> cluster_event list \<Rightarrow> bool" where
  "settled i evs \<longleftrightarrow> (\<exists>pre post. evs = pre @ Read i # post \<and> Restart i \<notin> set post)"

lemma settled_Nil [simp]: "\<not> settled i []"
  by (simp add: settled_def)

lemma settled_snoc: "settled i (evs @ [e]) \<longleftrightarrow> e = Read i \<or> settled i evs \<and> e \<noteq> Restart i"
proof
  assume "settled i (evs @ [e])"
  then obtain pre post where p: "evs @ [e] = pre @ Read i # post" "Restart i \<notin> set post" by (auto simp: settled_def)
  show "e = Read i \<or> settled i evs \<and> e \<noteq> Restart i"
  proof (cases post rule: rev_cases)
    case (snoc q e')
    with p show ?thesis by (auto simp: settled_def)
  qed (use p in auto)
next
  assume "e = Read i \<or> settled i evs \<and> e \<noteq> Restart i"
  then show "settled i (evs @ [e])"
  proof
    assume "e = Read i"
    then show ?thesis unfolding settled_def by (intro exI [of _ evs] exI [of _ "[]"]) simp
  next
    assume "settled i evs \<and> e \<noteq> Restart i"
    then obtain pre post where "evs = pre @ Read i # post" "Restart i \<notin> set post" "e \<noteq> Restart i" by (auto simp: settled_def)
    then have "evs @ [e] = pre @ Read i # (post @ [e])" "Restart i \<notin> set (post @ [e])" by auto
    then show ?thesis unfolding settled_def by blast
  qed
qed

subsection \<open>Convergence\<close>

definition published :: "(string \<Rightarrow> string option) \<Rightarrow> string \<Rightarrow> (string \<Rightarrow> NodeWatchList) \<Rightarrow> string set \<Rightarrow> bool" where
  "published m path wls ids \<longleftrightarrow> (\<forall>i \<in> ids. m (path @ i) = Some (Marshal (wls i)))"

definition named :: "(string \<Rightarrow> Agent) \<Rightarrow> string \<Rightarrow> string set \<Rightarrow> bool" where
  "named agents path ids \<longleftrightarrow> (\<forall>i \<in> ids. serviceID (agents i) = i \<and> kvNodeListPath (agents i) = path)"

definition ascii_lists :: "(string \<Rightarrow> NodeWatchList) \<Rightarrow> string set \<Rightarrow> bool" where
  "ascii_lists wls ids \<longleftrightarrow> (\<forall>i \<in> ids. \<forall>x \<in> set (nw_Nodes (wls i)) \<union> set (nw_Probes (wls i)). ascii x)"

text \<open>As long as no leader writes, the lists stay, and an instance that reads takes its list.\<close>

lemma step_published:
  assumes "cluster_step agents lcl rcl kv path e s t" and "published (kv (ct_world s)) path wls ids"
    and "\<forall>i. e \<noteq> LeaderPass i" and "read_only rcl kv"
  shows "published (kv (ct_world t)) path wls ids"
  using assms(1)
proof cases
  case (ct_read i r v w')
  with read_only_pass [OF assms(4) ct_read(3)] assms(2) show ?thesis by simp
next
  case (ct_others w')
  with assms(2) show ?thesis by (simp add: published_def)
qed (use assms(2,3) in auto)

lemma step_assigned:
  assumes "cluster_step agents lcl rcl kv path e s t" and "published (kv (ct_world s)) path wls ids"
    and "reads rcl kv" and "named agents path ids" and "ascii_lists wls ids" and "i \<in> ids"
  shows "e = Read i \<Longrightarrow> ct_assigned t i = Some (healthNodes_of (wls i))"
    and "e \<noteq> Restart i \<Longrightarrow> ct_assigned s i = Some (healthNodes_of (wls i)) \<Longrightarrow>
      ct_assigned t i = Some (healthNodes_of (wls i))"
proof -
  have rd: "\<exists>pl. r = Some (healthNodes_of (wls i), pl)"
    if "watchNodeList_pass rcl (agents i) (v, ct_world s) = (r, v', w')" for r v v' w'
    using watchNodeList_reads [OF assms(3), of "ct_world s" "agents i" "wls i" v] that assms(2,4-6)
    by (auto simp: published_def named_def ascii_lists_def)
  show "ct_assigned t i = Some (healthNodes_of (wls i))" if "e = Read i"
    using assms(1) unfolding that by (rule cluster_stepE) (auto dest!: rd)
  show "ct_assigned t i = Some (healthNodes_of (wls i))"
    if "e \<noteq> Restart i" "ct_assigned s i = Some (healthNodes_of (wls i))"
    using assms(1)
  proof cases
    case (ct_read j r v w')
    with that rd show ?thesis by (cases "j = i") (auto split: option.splits)
  qed (use that in auto)
qed

lemma run_settled:
  assumes "cluster_run agents lcl rcl kv path evs s t" and "published (kv (ct_world s)) path wls ids"
    and "\<forall>e \<in> set evs. \<forall>i. e \<noteq> LeaderPass i" and "reads rcl kv" and "read_only rcl kv"
    and "named agents path ids" and "ascii_lists wls ids"
  shows "published (kv (ct_world t)) path wls ids \<and>
    (\<forall>i \<in> ids. settled i evs \<longrightarrow> ct_assigned t i = Some (healthNodes_of (wls i)))"
  using assms(1-3)
proof (induction rule: cluster_run.induct)
  case (run_snoc evs s t e u)
  then have t: "published (kv (ct_world t)) path wls ids"
    "\<forall>i \<in> ids. settled i evs \<longrightarrow> ct_assigned t i = Some (healthNodes_of (wls i))" by auto
  have "published (kv (ct_world u)) path wls ids"
    using step_published [OF run_snoc.hyps(2) t(1) _ assms(5)] run_snoc.prems(2) by simp
  moreover have "ct_assigned u i = Some (healthNodes_of (wls i))" if "i \<in> ids" "settled i (evs @ [e])" for i
    using step_assigned [OF run_snoc.hyps(2) t(1) assms(4,6,7) that(1)] t(2) that by (auto simp: settled_snoc)
  ultimately show ?case by blast
qed simp

definition inst_ids :: "leader_watch \<Rightarrow> string set" where
  "inst_ids l = (\<lambda>g. svc_ID (se_Service g)) ` set (lw_healthyInstances l)"

lemma inst_ids_nth: "inst_ids l = inst_id (lw_healthyInstances l) ` {..<length (lw_healthyInstances l)}"
  by (force simp: inst_ids_def inst_id_def set_conv_nth)

definition dealt :: "leader_watch \<Rightarrow> string \<Rightarrow> NodeWatchList" where
  "dealt l i = (case nodeLists (lw_externalNodes l) (lw_healthyInstances l) of (health, ping) \<Rightarrow>
     \<lparr>nw_Nodes = list_at health i, nw_Probes = list_at ping i\<rparr>)"

lemma pass_published:
  assumes "cluster_step agents lcl rcl kv path (LeaderPass i) s t" and "ct_leads t i = Some l"
    and "lw_retryTimer l = NoTimer" and "kv_semantics lcl kv" and "kvNodeListPath (agents i) = path"
  shows "published (kv (ct_world t)) path (dealt l) (inst_ids l)"
  using assms(1)
proof cases
  case (ct_pass l0 inp l' w')
  then have p: "computeWatchedNodes_pass lcl (agents i) inp (l0, ct_world s) = (l, w')" and w: "ct_world t = w'"
    using assms(2) by auto
  have "kv w' (path @ j) = Some (Marshal (dealt l j))" if j: "j \<in> inst_ids l" for j
  proof -
    from j have "\<exists>g \<in> set (lw_healthyInstances l). path @ j = path @ svc_ID (se_Service g)" by (auto simp: inst_ids_def)
    with pass_kv [OF assms(4) p assms(3), of "path @ j"] assms(5) show ?thesis
      by (simp add: dealt_def watch_value_def split: prod.split)
  qed
  then show ?thesis by (simp add: published_def w)
qed

text \<open>The dealt lists partition the nodes, by service ID.\<close>

lemma dealt_partition:
  assumes "distinct_insts (lw_healthyInstances l)" and "lw_healthyInstances l \<noteq> []"
    and "distinct (map nd_Node (lw_externalNodes l))"
  shows "x \<in> set (lw_externalNodes l) \<Longrightarrow> \<exists>!j. j \<in> inst_ids l \<and> gm_load (healthNodes_of (dealt l j)) (nd_Node x) = Some True"
    and "j \<in> inst_ids l \<Longrightarrow> set (nw_Nodes (dealt l j)) \<union> set (nw_Probes (dealt l j)) \<subseteq> nd_Node ` set (lw_externalNodes l)"
proof -
  let ?is = "lw_healthyInstances l"
  obtain health ping where nl: "nodeLists (lw_externalNodes l) ?is = (health, ping)" by fastforce
  then have d: "dealt l j = \<lparr>nw_Nodes = list_at health j, nw_Probes = list_at ping j\<rparr>" for j by (simp add: dealt_def)
  note part = node_partition [OF assms nl]
  show "\<exists>!j. j \<in> inst_ids l \<and> gm_load (healthNodes_of (dealt l j)) (nd_Node x) = Some True"
    if x: "x \<in> set (lw_externalNodes l)"
  proof -
    let ?P = "\<lambda>m. m < length ?is \<and> nd_Node x \<in> set (list_at health (inst_id ?is m)) \<union> set (list_at ping (inst_id ?is m))"
    from part [THEN conjunct1, rule_format, OF x] have one: "\<exists>!m. ?P m" .
    then obtain k where k: "?P k" by blast
    have u: "m = k" if "?P m" for m using one k that by blast
    show ?thesis
    proof (rule ex1I [of _ "inst_id ?is k"])
      show "inst_id ?is k \<in> inst_ids l \<and> gm_load (healthNodes_of (dealt l (inst_id ?is k))) (nd_Node x) = Some True"
        using k by (simp add: inst_ids_nth d healthNodes_True)
    next
      fix j assume j: "j \<in> inst_ids l \<and> gm_load (healthNodes_of (dealt l j)) (nd_Node x) = Some True"
      then obtain m where m: "m < length ?is" "j = inst_id ?is m" by (auto simp: inst_ids_nth)
      with j have "?P m" by (simp add: d healthNodes_True)
      with u m show "j = inst_id ?is k" by simp
    qed
  qed
  show "set (nw_Nodes (dealt l j)) \<union> set (nw_Probes (dealt l j)) \<subseteq> nd_Node ` set (lw_externalNodes l)"
    if "j \<in> inst_ids l"
    using that part [THEN conjunct2, THEN conjunct2] unfolding inst_ids_nth d by auto
qed

text \<open>C2. The last leader decides, and its takeover is complete: whatever happened before, after a pass that
  an instance finishes without scheduling a retry, and as long as no other pass of any leader follows, every healthy
  instance that the leader knows and that has read its list since its last restart has exactly the nodes
  dealt to it, so that each external node is watched by exactly one of them. Leaders may come and go, instances
  read and restart, and the rest of the store change meanwhile, in any order. It does not matter who leads: a pass that an instance makes
  after it lost the lock decides in the same way.\<close>

theorem takeover_converges:
  assumes "cluster_step agents lcl rcl kv path (LeaderPass i) s t" and "ct_leads t i = Some l"
    and "lw_retryTimer l = NoTimer" and "distinct_insts (lw_healthyInstances l)" and "lw_healthyInstances l \<noteq> []"
    and "distinct (map nd_Node (lw_externalNodes l))" and "\<forall>x \<in> set (lw_externalNodes l). ascii (nd_Node x)"
    and "kv_semantics lcl kv" and "reads rcl kv" and "read_only rcl kv"
    and "kvNodeListPath (agents i) = path" and "named agents path (inst_ids l)"
    and "cluster_run agents lcl rcl kv path evs t u" and "\<forall>e \<in> set evs. \<forall>j. e \<noteq> LeaderPass j"
    and "\<forall>j \<in> inst_ids l. settled j evs"
  shows "(\<forall>j \<in> inst_ids l. ct_assigned u j = Some (healthNodes_of (dealt l j))) \<and>
    (\<forall>x \<in> set (lw_externalNodes l). \<exists>!j. j \<in> inst_ids l \<and>
      (\<exists>nodes. ct_assigned u j = Some nodes \<and> gm_load nodes (nd_Node x) = Some True))"
proof -
  note pub = pass_published [OF assms(1-3,8,11)]
  have "ascii_lists (dealt l) (inst_ids l)"
    using dealt_partition(2) [OF assms(4-6)] assms(7) unfolding ascii_lists_def by blast
  from run_settled [OF assms(13) pub assms(14,9,10,12) this] assms(15)
  have a: "\<forall>j \<in> inst_ids l. ct_assigned u j = Some (healthNodes_of (dealt l j))" by blast
  have eq: "j \<in> inst_ids l \<and> (\<exists>nodes. ct_assigned u j = Some nodes \<and> gm_load nodes n = Some True) \<longleftrightarrow>
      j \<in> inst_ids l \<and> gm_load (healthNodes_of (dealt l j)) n = Some True" for j n using a by auto
  show ?thesis using a dealt_partition(1) [OF assms(4-6)] unfolding eq by blast
qed

text \<open>Two instances; the first one leads and publishes, then both read.\<close>

definition two_agents :: "string \<Rightarrow> Agent" where
  "two_agents i = sample_agent (if i = ''esm:1'' then ''1'' else ''2'')"

definition led_cluster :: "(string \<Rightarrow> string option) cluster" where
  "led_cluster = \<lparr>ct_leads = [''esm:1'' \<mapsto> sample_watch], ct_reader = (\<lambda>_. first_reader), ct_assigned = Map.empty,
     ct_world = [''consul-esm/agents/esm:0'' \<mapsto> ''stale'']\<rparr>"

lemma two_agents_named: "named two_agents ''consul-esm/agents/'' {''esm:1'', ''esm:2''}"
proof -
  have "serviceID (two_agents ''esm:1'') = ''esm:1''" "serviceID (two_agents ''esm:2'') = ''esm:2''"
    "kvNodeListPath (two_agents ''esm:1'') = ''consul-esm/agents/''" "kvNodeListPath (two_agents ''esm:2'') = ''consul-esm/agents/''"
    by code_simp+
  then show ?thesis by (simp add: named_def)
qed

lemma read_only_map: "read_only map_reader (\<lambda>w. w)"
  by (simp add: read_only_def map_reader_def)

lemma read_possible: "\<exists>t. cluster_step agents lcl rcl kv path (Read i) s t"
proof -
  obtain r v w' where "watchNodeList_pass rcl (agents i) (ct_reader s i, ct_world s) = (r, v, w')" by (rule prod_cases3)
  then show ?thesis by (blast intro: ct_read)
qed

lemma both_settled: "\<forall>j \<in> {''esm:1'', ''esm:2''}. settled j [Read ''esm:1'', Read ''esm:2'']"
proof -
  have "settled ''esm:1'' ([] @ [Read ''esm:1''])" unfolding settled_snoc by simp
  then have "settled ''esm:1'' [Read ''esm:1'']" unfolding append_Nil .
  then have "settled ''esm:1'' ([Read ''esm:1''] @ [Read ''esm:2''])" unfolding settled_snoc by simp
  moreover have "settled ''esm:2'' ([Read ''esm:1''] @ [Read ''esm:2''])" unfolding settled_snoc by simp
  ultimately show ?thesis by simp
qed

theorem takeover_converges_witness:
  "\<exists>t u. cluster_step two_agents map_leader map_reader (\<lambda>w. w) ''consul-esm/agents/'' (LeaderPass ''esm:1'') led_cluster t \<and>
     cluster_run two_agents map_leader map_reader (\<lambda>w. w) ''consul-esm/agents/'' [Read ''esm:1'', Read ''esm:2''] t u \<and>
     (\<exists>!j. j \<in> {''esm:1'', ''esm:2''} \<and> (\<exists>nodes. ct_assigned u j = Some nodes \<and> gm_load nodes ''b'' = Some True))"
proof -
  let ?step = "cluster_step two_agents map_leader map_reader (\<lambda>w. w) ''consul-esm/agents/''"
  let ?run = "cluster_run two_agents map_leader map_reader (\<lambda>w. w) ''consul-esm/agents/''"
  let ?l = "sample_watch\<lparr>lw_prev := Some (nodeLists sample_nodes sample_insts)\<rparr>"
  obtain w' where p: "computeWatchedNodes_pass map_leader (two_agents ''esm:1'') RetryFired (sample_watch, ct_world led_cluster) = (?l, w')"
    unfolding two_agents_def by (simp only: simp_thms if_True) (rule sample_pass)
  define t where "t = led_cluster\<lparr>ct_leads := (ct_leads led_cluster)(''esm:1'' \<mapsto> ?l), ct_world := w'\<rparr>"
  have st: "?step (LeaderPass ''esm:1'') led_cluster t" unfolding t_def
    by (rule ct_pass [where l = sample_watch and inp = RetryFired]) (simp add: led_cluster_def, rule p)
  obtain v where v: "?step (Read ''esm:1'') t v" using read_possible by blast
  obtain u where u: "?step (Read ''esm:2'') v u" using read_possible by blast
  have run: "?run [Read ''esm:1'', Read ''esm:2''] t u"
    using run_snoc [OF run_snoc [OF run_nil v] u] by simp
  have ids: "inst_ids ?l = {''esm:1'', ''esm:2''}" by (simp add: inst_ids_def sample_watch_def sample_insts_def sample_inst_def)
  have b: "sample_node ''b'' True \<in> set sample_nodes" "nd_Node (sample_node ''b'' True) = ''b''"
    by (simp_all add: sample_nodes_def sample_node_def)
  have l: "lw_externalNodes ?l = sample_nodes" "lw_healthyInstances ?l = sample_insts" "lw_retryTimer ?l = NoTimer"
    by (simp_all add: sample_watch_def)
  have path: "kvNodeListPath (two_agents ''esm:1'') = ''consul-esm/agents/''" using two_agents_named by (simp add: named_def)
  have t: "ct_leads t ''esm:1'' = Some ?l" by (simp add: t_def)
  have np: "\<forall>e \<in> set [Read ''esm:1'', Read ''esm:2'']. \<forall>j. e \<noteq> LeaderPass j" by simp
  have "\<forall>x \<in> set (lw_externalNodes ?l). \<exists>!j. j \<in> inst_ids ?l \<and>
      (\<exists>nodes. ct_assigned u j = Some nodes \<and> gm_load nodes (nd_Node x) = Some True)"
    by (rule takeover_converges [OF st t l(3) _ _ _ _ kv_semantics_map reads_map read_only_map path _ run np, THEN conjunct2])
      (unfold l ids, (rule sample_insts_distinct sample_nodes_distinct two_agents_named both_settled)+)
  from this [unfolded l, rule_format, OF b(1)] have "\<exists>!j. j \<in> {''esm:1'', ''esm:2''} \<and> (\<exists>nodes. ct_assigned u j = Some nodes \<and> gm_load nodes ''b'' = Some True)"
    unfolding ids b(2) .
  then show ?thesis by (intro exI [of _ t] exI [of _ u] conjI st run)
qed

end
