(* ===== verification/Leader_Watch.thy ===== *)
theory Leader_Watch
  imports Takeover
begin

text \<open>
  The goroutines of one leadership: \<^verbatim>\<open>computeWatchedNodes\<close> and the two watches it starts, \<^verbatim>\<open>watchExternalNodes\<close> and
  \<^verbatim>\<open>watchServiceInstances\<close> of \<^verbatim>\<open>src/leader.go\<close>, which send it their lists over channels without room, and the two small goroutines that cancel
  the contexts of the watches when leadership is lost. The subject is what happens after that: how much a former leader still
  writes, and which of its goroutines end.
\<close>

subsection \<open>The goroutines\<close>

text \<open>Where each of them is. \<^verbatim>\<open>watchExternalNodes\<close>: before its query (with \<^verbatim>\<open>firstRun\<close>), about to send, returned.
  \<^verbatim>\<open>watchServiceInstances\<close>: the same without a first run. \<^verbatim>\<open>computeWatchedNodes\<close>: waiting for its first list of nodes,
  for its first list of instances, in its loop, returned.\<close>

datatype nodes_pc = NodesTop bool | NodesSend "api_node list" | NodesDone
datatype insts_pc = InstsTop | InstsSend "ServiceEntry list" | InstsDone
datatype compute_pc = WaitNodes | WaitInsts "api_node list" | Computing leader_watch | ComputeDone

record leader_flow =
  lf_nodes :: nodes_pc
  lf_nodesIndex :: nat
  lf_nodesCtx :: bool \<comment> \<open>the context of the node queries is cancelled\<close>
  lf_insts :: insts_pc
  lf_instsOpts :: QueryOptions
  lf_instsCtx :: bool \<comment> \<open>the context of the instance queries is cancelled\<close>
  lf_compute :: compute_pc
  lf_stop :: bool \<comment> \<open>\<^verbatim>\<open>stopCh\<close> is closed\<close>
  lf_published :: nat \<comment> \<open>history: the passes that published their distribution\<close>

text \<open>With a cancelled context the queries of the watches fail.\<close>

definition leader_ctx :: "string \<Rightarrow> bool \<Rightarrow> 'w leader_client \<Rightarrow> 'w leader_client" where
  "leader_ctx err cancelled cl = (if cancelled then cl\<lparr>Catalog_Nodes_Q := (\<lambda>q w. (Inl err, w)),
     Health_Service := (\<lambda>s t p q w. (Inl err, w))\<rparr> else cl)"

definition computed :: "leader_watch \<Rightarrow> leader_flow \<Rightarrow> leader_flow" where
  "computed l s = s\<lparr>lf_compute := Computing l,
     lf_published := lf_published s + (if lw_retryTimer l = NoTimer then 1 else 0)\<rparr>"

inductive flow_step :: "'w leader_client \<Rightarrow> Agent \<Rightarrow> leader_flow \<times> 'w \<Rightarrow> leader_flow \<times> 'w \<Rightarrow> bool"
  for cl :: "'w leader_client" and a :: Agent where
  flow_query_nodes: "lf_nodes s = NodesTop first \<Longrightarrow>
    watchExternalNodes_pass (leader_ctx err (lf_nodesCtx s) cl) a (lf_nodesIndex s, w) = (r, i, w') \<Longrightarrow>
    flow_step cl a (s, w) (s\<lparr>lf_nodesIndex := i,
      lf_nodes := (case r of None \<Rightarrow> NodesTop False | Some ns \<Rightarrow> NodesSend ns)\<rparr>, w')"
| flow_nodes_return: "lf_nodes s = NodesTop False \<Longrightarrow> lf_stop s \<Longrightarrow> flow_step cl a (s, w) (s\<lparr>lf_nodes := NodesDone\<rparr>, w)"
| flow_query_insts: "lf_insts s = InstsTop \<Longrightarrow>
    watchServiceInstances_pass (leader_ctx err (lf_instsCtx s) cl) a (lf_instsOpts s, w) = (r, opts, w') \<Longrightarrow>
    flow_step cl a (s, w) (s\<lparr>lf_instsOpts := opts,
      lf_insts := (case r of None \<Rightarrow> InstsTop | Some es \<Rightarrow> InstsSend es)\<rparr>, w')"
| flow_insts_return: "lf_insts s = InstsTop \<Longrightarrow> lf_stop s \<Longrightarrow> flow_step cl a (s, w) (s\<lparr>lf_insts := InstsDone\<rparr>, w)"
| flow_first_nodes: "lf_nodes s = NodesSend ns \<Longrightarrow> lf_compute s = WaitNodes \<Longrightarrow>
    flow_step cl a (s, w) (s\<lparr>lf_nodes := NodesTop False, lf_compute := WaitInsts ns\<rparr>, w)"
| flow_first_insts: "lf_insts s = InstsSend es \<Longrightarrow> lf_compute s = WaitInsts ns \<Longrightarrow>
    flow_step cl a (s, w) (s\<lparr>lf_insts := InstsTop, lf_compute := Computing (first_watch ns es)\<rparr>, w)"
| flow_new_nodes: "lf_nodes s = NodesSend ns \<Longrightarrow> lf_compute s = Computing l \<Longrightarrow>
    computeWatchedNodes_pass cl a (NewNodes ns) (l, w) = (l', w') \<Longrightarrow>
    flow_step cl a (s, w) (computed l' (s\<lparr>lf_nodes := NodesTop False\<rparr>), w')"
| flow_new_insts: "lf_insts s = InstsSend es \<Longrightarrow> lf_compute s = Computing l \<Longrightarrow>
    computeWatchedNodes_pass cl a (NewInstances es) (l, w) = (l', w') \<Longrightarrow>
    flow_step cl a (s, w) (computed l' (s\<lparr>lf_insts := InstsTop\<rparr>), w')"
| flow_retry: "lf_compute s = Computing l \<Longrightarrow> lw_retryTimer l \<noteq> NoTimer \<Longrightarrow>
    computeWatchedNodes_pass cl a RetryFired (l, w) = (l', w') \<Longrightarrow> flow_step cl a (s, w) (computed l' s, w')"
| flow_compute_return: "lf_compute s = Computing l \<Longrightarrow> lf_stop s \<Longrightarrow>
    flow_step cl a (s, w) (s\<lparr>lf_compute := ComputeDone\<rparr>, w)"
| flow_stop: "flow_step cl a (s, w) (s\<lparr>lf_stop := True\<rparr>, w)"
| flow_cancel_nodes: "lf_stop s \<Longrightarrow> flow_step cl a (s, w) (s\<lparr>lf_nodesCtx := True\<rparr>, w)"
| flow_cancel_insts: "lf_stop s \<Longrightarrow> flow_step cl a (s, w) (s\<lparr>lf_instsCtx := True\<rparr>, w)"
| flow_others: "flow_step cl a (s, w) (s, w')"

inductive_cases flow_stepE: "flow_step cl a st st'"

text \<open>\<^verbatim>\<open>computeWatchedNodes\<close> has been called with the channel of a lock that was just acquired.\<close>

definition first_flow :: "Agent \<Rightarrow> leader_flow" where
  "first_flow a = \<lparr>lf_nodes = NodesTop True, lf_nodesIndex = 0, lf_nodesCtx = False, lf_insts = InstsTop,
     lf_instsOpts = HasPartition a (\<lambda>p o'. o'\<lparr>qo_Partition := p\<rparr>) zero_opts, lf_instsCtx = False,
     lf_compute = WaitNodes, lf_stop = False, lf_published = 0\<rparr>"

definition flow_start :: "Agent \<Rightarrow> leader_flow \<times> 'w \<Rightarrow> bool" where
  "flow_start a st \<longleftrightarrow> fst st = first_flow a"

text \<open>Contexts are cancelled, and goroutines return, only after \<^verbatim>\<open>stopCh\<close> was closed.\<close>

definition flow_inv :: "leader_flow \<times> 'w \<Rightarrow> bool" where
  "flow_inv st \<longleftrightarrow> (let s = fst st in lf_stop s \<or> \<not> lf_nodesCtx s \<and> \<not> lf_instsCtx s \<and>
     lf_nodes s \<noteq> NodesDone \<and> lf_insts s \<noteq> InstsDone \<and> lf_compute s \<noteq> ComputeDone)"

interpretation flow: inductive_invariant "flow_start a" "flow_step cl a" flow_inv
proof unfold_locales
  show "flow_start a st \<Longrightarrow> flow_inv st" for st by (simp add: flow_start_def flow_inv_def first_flow_def Let_def)
  show "flow_inv st \<Longrightarrow> flow_step cl a st st' \<Longrightarrow> flow_inv st'" for st st'
    by (erule flow_stepE) (auto simp: flow_inv_def computed_def Let_def split: option.splits)
qed

subsection \<open>What a former leader still publishes\<close>

definition cancelled :: "leader_flow \<Rightarrow> bool" where
  "cancelled s \<longleftrightarrow> lf_nodesCtx s \<and> lf_instsCtx s"

lemma ctx_nodes: "watchExternalNodes_pass (leader_ctx err True cl) a (i, w) = (None, i, w)"
  by (simp add: watchExternalNodes_pass_def leader_ctx_def Let_def)

lemma ctx_insts: "watchServiceInstances_pass (leader_ctx err True cl) a (opts, w) = (None, opts, w)"
  by (simp add: watchServiceInstances_pass_def getServiceInstances_def leader_ctx_def)

text \<open>The lists that are about to be sent and the timer: each of them may lead to one more distribution.\<close>

definition pending :: "leader_flow \<Rightarrow> nat" where
  "pending s = (case lf_nodes s of NodesSend ns \<Rightarrow> 1 | _ \<Rightarrow> 0) + (case lf_insts s of InstsSend es \<Rightarrow> 1 | _ \<Rightarrow> 0) +
     (case lf_compute s of ComputeDone \<Rightarrow> 0 | Computing l \<Rightarrow> (if lw_retryTimer l = NoTimer then 0 else 1) | _ \<Rightarrow> 1)"

lemma cancelled_step:
  assumes "flow_step cl a st st'" and "cancelled (fst st)"
  shows "cancelled (fst st') \<and> lf_published (fst st') + pending (fst st') \<le> lf_published (fst st) + pending (fst st)"
  using assms
  by (cases rule: flow_step.cases)
    (auto simp: cancelled_def pending_def computed_def first_watch_def ctx_nodes ctx_insts)

lemma cancelled_steps:
  assumes "(flow_step cl a)\<^sup>*\<^sup>* st st'" and "cancelled (fst st)"
  shows "cancelled (fst st') \<and> lf_published (fst st') + pending (fst st') \<le> lf_published (fst st) + pending (fst st)"
  using assms by (induction rule: rtranclp_induct) (auto dest!: cancelled_step)

lemma pending_le: "pending s \<le> 3"
  by (simp add: pending_def split: nodes_pc.split insts_pc.split compute_pc.split)

lemma done_step: "flow_step cl a st st' \<Longrightarrow> lf_compute (fst st) = ComputeDone \<Longrightarrow>
    lf_compute (fst st') = ComputeDone \<and> lf_published (fst st') = lf_published (fst st)"
  by (erule flow_stepE) (auto simp: computed_def)

lemma done_steps: "(flow_step cl a)\<^sup>*\<^sup>* st st' \<Longrightarrow> lf_compute (fst st) = ComputeDone \<Longrightarrow>
    lf_compute (fst st') = ComputeDone \<and> lf_published (fst st') = lf_published (fst st)"
  by (induction rule: rtranclp_induct) (auto dest!: done_step)


subsection \<open>Which goroutines return\<close>

text \<open>When \<^verbatim>\<open>computeWatchedNodes\<close> can get the lists it waits for.\<close>

definition sends_nodes :: "leader_flow \<Rightarrow> bool" where
  "sends_nodes s \<longleftrightarrow> (\<exists>ns. lf_nodes s = NodesSend ns)"

definition sends_insts :: "leader_flow \<Rightarrow> bool" where
  "sends_insts s \<longleftrightarrow> (\<exists>es. lf_insts s = InstsSend es)"

fun compute_hung :: "leader_flow \<Rightarrow> compute_pc \<Rightarrow> bool" where
  "compute_hung s WaitNodes \<longleftrightarrow> \<not> (sends_nodes s \<and> sends_insts s)"
| "compute_hung s (WaitInsts ns) \<longleftrightarrow> \<not> sends_insts s"
| "compute_hung s _ \<longleftrightarrow> False"

definition nodes_hung :: "leader_flow \<Rightarrow> bool" where
  "nodes_hung s \<longleftrightarrow> sends_nodes s \<and>
     (lf_compute s = ComputeDone \<or> (\<exists>ns. lf_compute s = WaitInsts ns) \<and> \<not> sends_insts s)"

definition insts_hung :: "leader_flow \<Rightarrow> bool" where
  "insts_hung s \<longleftrightarrow> sends_insts s \<and> (lf_compute s = ComputeDone \<or> lf_compute s = WaitNodes \<and> \<not> sends_nodes s)"

lemmas hung_defs = nodes_hung_def insts_hung_def sends_nodes_def sends_insts_def

text \<open>A goroutine that hangs does so for ever.\<close>

lemma flow_hung_step:
  assumes "flow_step cl a st st'" and "cancelled (fst st)"
  shows "compute_hung (fst st) (lf_compute (fst st)) \<Longrightarrow> compute_hung (fst st') (lf_compute (fst st'))"
    and "nodes_hung (fst st) \<Longrightarrow> nodes_hung (fst st')" and "insts_hung (fst st) \<Longrightarrow> insts_hung (fst st')"
  using assms
  by (cases rule: flow_step.cases; auto simp: cancelled_def computed_def hung_defs ctx_nodes ctx_insts;
      cases "lf_compute (fst st)"; auto simp: hung_defs)+

lemma flow_hung_steps:
  assumes "(flow_step cl a)\<^sup>*\<^sup>* st st'" and "cancelled (fst st)"
  shows "compute_hung (fst st) (lf_compute (fst st)) \<Longrightarrow> compute_hung (fst st') (lf_compute (fst st'))"
    and "nodes_hung (fst st) \<Longrightarrow> nodes_hung (fst st')" and "insts_hung (fst st) \<Longrightarrow> insts_hung (fst st')"
proof -
  have "(compute_hung (fst st) (lf_compute (fst st)) \<longrightarrow> compute_hung (fst st') (lf_compute (fst st'))) \<and>
    (nodes_hung (fst st) \<longrightarrow> nodes_hung (fst st')) \<and> (insts_hung (fst st) \<longrightarrow> insts_hung (fst st'))"
    using assms
  proof (induction rule: rtranclp_induct)
    case (step y z)
    have "cancelled (fst y)" using cancelled_steps [OF step.hyps(1) step.prems] by simp
    from flow_hung_step [OF step.hyps(2) this] step.IH [OF step.prems] show ?case by blast
  qed simp
  then show "compute_hung (fst st) (lf_compute (fst st)) \<Longrightarrow> compute_hung (fst st') (lf_compute (fst st'))"
    and "nodes_hung (fst st) \<Longrightarrow> nodes_hung (fst st')" and "insts_hung (fst st) \<Longrightarrow> insts_hung (fst st')" by blast+
qed

text \<open>The others can return.\<close>

definition can_get :: "'w leader_client \<Rightarrow> Agent \<Rightarrow> (leader_flow \<Rightarrow> bool) \<Rightarrow> leader_flow \<times> 'w \<Rightarrow> bool" where
  "can_get cl a P st \<longleftrightarrow> (\<exists>st'. (flow_step cl a)\<^sup>*\<^sup>* st st' \<and> P (fst st'))"

lemma can_get_now: "P (fst st) \<Longrightarrow> can_get cl a P st"
  unfolding can_get_def by (rule exI [of _ st]) simp

lemma can_get_step: "flow_step cl a st st' \<Longrightarrow> can_get cl a P st' \<Longrightarrow> can_get cl a P st"
  unfolding can_get_def by (meson converse_rtranclp_into_rtranclp)

lemma nodes_top_returns:
  assumes "lf_nodes s = NodesTop first" and "lf_stop s" and "lf_nodesCtx s"
  shows "can_get cl a (\<lambda>s. lf_nodes s = NodesDone) (s, w)"
proof -
  have r: "can_get cl a (\<lambda>s. lf_nodes s = NodesDone) (u, w)" if "lf_nodes u = NodesTop False" "lf_stop u" for u
    by (rule can_get_step [OF flow_nodes_return [OF that]]) (simp add: can_get_now)
  show ?thesis
  proof (rule can_get_step [OF flow_query_nodes [OF assms(1), of undefined cl a w None "lf_nodesIndex s" w]])
    show "watchExternalNodes_pass (leader_ctx undefined (lf_nodesCtx s) cl) a (lf_nodesIndex s, w) = (None, lf_nodesIndex s, w)"
      using ctx_nodes assms(3) by simp
  qed (rule r, use assms in simp_all)
qed

lemma insts_top_returns:
  "lf_insts s = InstsTop \<Longrightarrow> lf_stop s \<Longrightarrow> can_get cl a (\<lambda>s. lf_insts s = InstsDone) (s, w)"
  by (rule can_get_step [OF flow_insts_return]) (simp_all add: can_get_now)

lemma computing_takes:
  assumes "lf_compute s = Computing l" and "lf_stop s" and "cancelled s"
  shows "sends_nodes s \<Longrightarrow> can_get cl a (\<lambda>s. lf_nodes s = NodesDone) (s, w)"
    and "sends_insts s \<Longrightarrow> can_get cl a (\<lambda>s. lf_insts s = InstsDone) (s, w)"
    and "can_get cl a (\<lambda>s. lf_compute s = ComputeDone) (s, w)"
proof -
  show "can_get cl a (\<lambda>s. lf_compute s = ComputeDone) (s, w)"
    by (rule can_get_step [OF flow_compute_return [OF assms(1,2)]]) (simp add: can_get_now)
  {
    assume "sends_nodes s"
    then obtain ns where ns: "lf_nodes s = NodesSend ns" by (auto simp: sends_nodes_def)
    obtain l' w' where p: "computeWatchedNodes_pass cl a (NewNodes ns) (l, w) = (l', w')" by fastforce
    show "can_get cl a (\<lambda>s. lf_nodes s = NodesDone) (s, w)"
      by (rule can_get_step [OF flow_new_nodes [OF ns assms(1) p]], rule nodes_top_returns [of _ False])
        (use assms in \<open>simp_all add: computed_def cancelled_def\<close>)
  }
  {
    assume "sends_insts s"
    then obtain es where es: "lf_insts s = InstsSend es" by (auto simp: sends_insts_def)
    obtain l' w' where p: "computeWatchedNodes_pass cl a (NewInstances es) (l, w) = (l', w')" by fastforce
    show "can_get cl a (\<lambda>s. lf_insts s = InstsDone) (s, w)"
      by (rule can_get_step [OF flow_new_insts [OF es assms(1) p]], rule insts_top_returns)
        (use assms in \<open>simp_all add: computed_def\<close>)
  }
qed

text \<open>The first lists reach \<^verbatim>\<open>computeWatchedNodes\<close>.\<close>

lemma waiting_takes:
  assumes "lf_compute s = WaitInsts ns" and "lf_stop s" and "cancelled s" and "sends_insts s"
  shows "sends_nodes s \<Longrightarrow> can_get cl a (\<lambda>s. lf_nodes s = NodesDone) (s, w)"
    and "can_get cl a (\<lambda>s. lf_insts s = InstsDone) (s, w)" and "can_get cl a (\<lambda>s. lf_compute s = ComputeDone) (s, w)"
proof -
  from assms(4) obtain es where es: "lf_insts s = InstsSend es" by (auto simp: sends_insts_def)
  let ?s = "s\<lparr>lf_insts := InstsTop, lf_compute := Computing (first_watch ns es)\<rparr>"
  note st = can_get_step [OF flow_first_insts [OF es assms(1)]]
  have s: "lf_compute ?s = Computing (first_watch ns es)" "lf_stop ?s" "cancelled ?s"
    using assms(2,3) by (simp_all add: cancelled_def)
  show "sends_nodes s \<Longrightarrow> can_get cl a (\<lambda>s. lf_nodes s = NodesDone) (s, w)"
    by (rule st, rule computing_takes(1) [OF s]) (simp add: sends_nodes_def)
  show "can_get cl a (\<lambda>s. lf_insts s = InstsDone) (s, w)"
    by (rule st, rule insts_top_returns) (use assms(2) in simp_all)
  show "can_get cl a (\<lambda>s. lf_compute s = ComputeDone) (s, w)" by (rule st, rule computing_takes(3) [OF s])
qed

lemma first_nodes_taken:
  assumes "lf_compute s = WaitNodes" and "lf_stop s" and "cancelled s" and "sends_nodes s"
  shows "can_get cl a (\<lambda>s. lf_nodes s = NodesDone) (s, w)"
    and "sends_insts s \<Longrightarrow> can_get cl a (\<lambda>s. lf_insts s = InstsDone) (s, w)"
    and "sends_insts s \<Longrightarrow> can_get cl a (\<lambda>s. lf_compute s = ComputeDone) (s, w)"
proof -
  from assms(4) obtain ns where ns: "lf_nodes s = NodesSend ns" by (auto simp: sends_nodes_def)
  let ?s = "s\<lparr>lf_nodes := NodesTop False, lf_compute := WaitInsts ns\<rparr>"
  note st = can_get_step [OF flow_first_nodes [OF ns assms(1)]]
  have s: "lf_compute ?s = WaitInsts ns" "lf_stop ?s" "cancelled ?s" using assms(2,3) by (simp_all add: cancelled_def)
  show "can_get cl a (\<lambda>s. lf_nodes s = NodesDone) (s, w)"
    by (rule st, rule nodes_top_returns [of _ False]) (use assms(2,3) in \<open>simp_all add: cancelled_def\<close>)
  show "sends_insts s \<Longrightarrow> can_get cl a (\<lambda>s. lf_insts s = InstsDone) (s, w)"
    by (rule st, rule waiting_takes(2) [OF s]) (simp add: sends_insts_def)
  show "sends_insts s \<Longrightarrow> can_get cl a (\<lambda>s. lf_compute s = ComputeDone) (s, w)"
    by (rule st, rule waiting_takes(3) [OF s]) (simp add: sends_insts_def)
qed

lemma unless_hung:
  assumes "lf_stop s" and "cancelled s"
  shows "\<not> nodes_hung s \<Longrightarrow> can_get cl a (\<lambda>s. lf_nodes s = NodesDone) (s, w)"
    and "\<not> insts_hung s \<Longrightarrow> can_get cl a (\<lambda>s. lf_insts s = InstsDone) (s, w)"
    and "\<not> compute_hung s (lf_compute s) \<Longrightarrow> can_get cl a (\<lambda>s. lf_compute s = ComputeDone) (s, w)"
proof -
  have ctx: "lf_nodesCtx s" using assms(2) by (simp add: cancelled_def)
  show "can_get cl a (\<lambda>s. lf_nodes s = NodesDone) (s, w)" if "\<not> nodes_hung s"
  proof (cases "sends_nodes s")
    case True
    with that show ?thesis
      by (cases "lf_compute s") (auto simp: nodes_hung_def
        intro: first_nodes_taken(1) [OF _ assms] waiting_takes(1) [OF _ assms] computing_takes(1) [OF _ assms])
  next
    case False
    then show ?thesis
      by (cases "lf_nodes s") (auto simp: sends_nodes_def intro: nodes_top_returns [OF _ assms(1) ctx] can_get_now)
  qed
  show "can_get cl a (\<lambda>s. lf_insts s = InstsDone) (s, w)" if "\<not> insts_hung s"
  proof (cases "sends_insts s")
    case True
    with that show ?thesis
      by (cases "lf_compute s") (auto simp: insts_hung_def
        intro: first_nodes_taken(2) [OF _ assms] waiting_takes(2) [OF _ assms] computing_takes(2) [OF _ assms])
  next
    case False
    then show ?thesis
      by (cases "lf_insts s") (auto simp: sends_insts_def intro: insts_top_returns [OF _ assms(1)] can_get_now)
  qed
  show "can_get cl a (\<lambda>s. lf_compute s = ComputeDone) (s, w)" if "\<not> compute_hung s (lf_compute s)"
    using that by (cases "lf_compute s") (auto
      intro: first_nodes_taken(3) [OF _ assms] waiting_takes(3) [OF _ assms] computing_takes(3) [OF _ assms] can_get_now)
qed

text \<open>C22. Which goroutines of a former leader end. In a reachable state in which the contexts of the watches are cancelled:
  \<^verbatim>\<open>computeWatchedNodes\<close> can return exactly if it is in its loop or the first lists it waits for have been read, for it
  does not look at \<^verbatim>\<open>stopCh\<close> while it waits for them; and a watch can return exactly if it has no list to send, or
  \<^verbatim>\<open>computeWatchedNodes\<close> can still receive it. So a watch that has read a list when \<^verbatim>\<open>computeWatchedNodes\<close> returns blocks on its
  channel for ever.\<close>

theorem leader_goroutines_return_iff:
  assumes "reach (flow_start a) (flow_step cl a) (s, w)" and "lf_nodesCtx s" and "lf_instsCtx s"
  shows "((\<exists>st. (flow_step cl a)\<^sup>*\<^sup>* (s, w) st \<and> lf_compute (fst st) = ComputeDone) \<longleftrightarrow>
      (case lf_compute s of WaitNodes \<Rightarrow> sends_nodes s \<and> sends_insts s | WaitInsts ns \<Rightarrow> sends_insts s | _ \<Rightarrow> True)) \<and>
    ((\<exists>st. (flow_step cl a)\<^sup>*\<^sup>* (s, w) st \<and> lf_nodes (fst st) = NodesDone) \<longleftrightarrow>
      (sends_nodes s \<longrightarrow> (case lf_compute s of ComputeDone \<Rightarrow> False | WaitInsts ns \<Rightarrow> sends_insts s | _ \<Rightarrow> True))) \<and>
    ((\<exists>st. (flow_step cl a)\<^sup>*\<^sup>* (s, w) st \<and> lf_insts (fst st) = InstsDone) \<longleftrightarrow>
      (sends_insts s \<longrightarrow> (case lf_compute s of ComputeDone \<Rightarrow> False | WaitNodes \<Rightarrow> sends_nodes s | _ \<Rightarrow> True)))"
proof -
  have c: "cancelled s" using assms(2,3) by (simp add: cancelled_def)
  have st: "lf_stop s" using flow.inv_reach [OF assms(1)] assms(2) by (auto simp: flow_inv_def Let_def)
  note h = flow_hung_steps [of cl a "(s, w)", simplified, OF _ c] and r = unless_hung [OF st c, unfolded can_get_def]
  have "(\<exists>st. (flow_step cl a)\<^sup>*\<^sup>* (s, w) st \<and> lf_compute (fst st) = ComputeDone) \<longleftrightarrow> \<not> compute_hung s (lf_compute s)"
    using h(1) r(3) by fastforce
  moreover have "(\<exists>st. (flow_step cl a)\<^sup>*\<^sup>* (s, w) st \<and> lf_nodes (fst st) = NodesDone) \<longleftrightarrow> \<not> nodes_hung s"
    using h(2) r(1) by (fastforce simp: hung_defs)
  moreover have "(\<exists>st. (flow_step cl a)\<^sup>*\<^sup>* (s, w) st \<and> lf_insts (fst st) = InstsDone) \<longleftrightarrow> \<not> insts_hung s"
    using h(3) r(2) by (fastforce simp: hung_defs)
  ultimately show ?thesis by (cases "lf_compute s") (simp_all add: nodes_hung_def insts_hung_def)
qed

subsection \<open>Two former leaders\<close>

text \<open>Leadership is lost while both watches have a list to send and the timer is armed.\<close>

definition busy_flow :: "nodes_pc \<Rightarrow> insts_pc \<Rightarrow> leader_watch \<Rightarrow> nat \<Rightarrow> leader_flow" where
  "busy_flow np ip l n = \<lparr>lf_nodes = np, lf_nodesIndex = 0, lf_nodesCtx = True, lf_insts = ip, lf_instsOpts = zero_opts,
     lf_instsCtx = True, lf_compute = Computing l, lf_stop = True, lf_published = n\<rparr>"

abbreviation sample_done :: leader_watch where
  "sample_done \<equiv> sample_watch\<lparr>lw_prev := Some (nodeLists sample_nodes sample_insts)\<rparr>"

lemma map_pass:
  assumes "lw_externalNodes (receive i l) = sample_nodes" and "lw_healthyInstances (receive i l) = sample_insts"
  shows "\<exists>w'. computeWatchedNodes_pass map_leader (sample_agent ''1'') i (l, w) = (sample_done, w')"
proof -
  let ?l = "(receive i l)\<lparr>lw_retryTimer := NoTimer\<rparr>"
  obtain b w' where wr: "write_lists map_leader (sample_agent ''1'') (nodeLists sample_nodes sample_insts) sample_insts
      [kv_op (sample_agent ''1'') KVDeleteTree (kvNodeListPath (sample_agent ''1'')) ''''] w = (b, w')" by fastforce
  then have b using write_lists_map by (metis fst_conv)
  moreover have "?l\<lparr>lw_prev := x\<rparr> = sample_watch\<lparr>lw_prev := x\<rparr>" for x
    using assms by (simp add: sample_watch_def)
  ultimately have "computeWatchedNodes_pass map_leader (sample_agent ''1'') i (l, w) = (sample_done, w')"
    using assms wr sample_insts_distinct(2) by (simp add: computeWatchedNodes_pass_def Let_def)
  then show ?thesis by blast
qed


text \<open>Leadership is lost at once; and a watch that has read its second list when \<^verbatim>\<open>computeWatchedNodes\<close> returns.\<close>

definition lost_flow :: "leader_flow \<Rightarrow> leader_flow" where
  "lost_flow s = s\<lparr>lf_stop := True, lf_nodesCtx := True, lf_instsCtx := True\<rparr>"

lemma reach_lost:
  assumes "reach (flow_start a) (flow_step cl a) (s, w)"
  shows "reach (flow_start a) (flow_step cl a) (lost_flow s, w)"
proof -
  let ?s = "s\<lparr>lf_stop := True\<rparr>"
  have 1: "flow_step cl a (s, w) (?s, w)" by (rule flow_stop)
  have 2: "flow_step cl a (?s, w) (?s\<lparr>lf_nodesCtx := True\<rparr>, w)" by (rule flow_cancel_nodes) simp
  have 3: "flow_step cl a (?s\<lparr>lf_nodesCtx := True\<rparr>, w) (?s\<lparr>lf_nodesCtx := True, lf_instsCtx := True\<rparr>, w)"
    by (rule flow_cancel_insts) simp
  show ?thesis using reach_step [OF reach_step [OF reach_step [OF assms 1] 2] 3] by (simp add: lost_flow_def)
qed

definition late_flow :: leader_flow where
  "late_flow = (first_flow (sample_agent ''1''))\<lparr>lf_nodes := NodesSend [], lf_insts := InstsTop,
     lf_instsOpts := zero_opts, lf_compute := ComputeDone, lf_stop := True\<rparr>"

lemma reach_late: "reach (flow_start (sample_agent ''1'')) (flow_step map_leader (sample_agent ''1'')) (late_flow, Map.empty)"
proof -
  let ?a = "sample_agent ''1''" and ?w = "Map.empty :: string \<Rightarrow> string option"
  let ?step = "flow_step map_leader ?a"
  let ?reach = "\<lambda>s. reach (flow_start ?a) (flow_step map_leader ?a) (s, ?w)"
  let ?f = "first_flow ?a"
  have ctx: "leader_ctx e False map_leader = map_leader" for e by (simp add: leader_ctx_def)
  have qn: "watchExternalNodes_pass map_leader ?a (i, ?w) = (Some [], 0, ?w)" for i
    by (simp add: watchExternalNodes_pass_def map_leader_def Let_def)
  have qi: "watchServiceInstances_pass map_leader ?a (opts, ?w) = (Some [], opts\<lparr>qo_WaitIndex := 0\<rparr>, ?w)" for opts
    by (simp add: watchServiceInstances_pass_def getServiceInstances_def map_leader_def)
  have o: "lf_instsOpts ?f = zero_opts" by code_simp
  have z: "zero_opts\<lparr>qo_WaitIndex := 0\<rparr> = zero_opts" by (simp add: zero_opts_def)
  let ?s1 = "?f\<lparr>lf_nodes := NodesSend []\<rparr>"
  let ?s2 = "?f\<lparr>lf_nodes := NodesTop False, lf_compute := WaitInsts []\<rparr>"
  let ?s3 = "?s2\<lparr>lf_insts := InstsSend [], lf_instsOpts := zero_opts\<rparr>"
  let ?s4 = "?f\<lparr>lf_nodes := NodesTop False, lf_compute := Computing (first_watch [] []), lf_instsOpts := zero_opts\<rparr>"
  let ?s5 = "?s4\<lparr>lf_nodes := NodesSend []\<rparr>"
  have 0: "?reach ?f" by (rule reach_init) (simp add: flow_start_def)
  have 1: "?step (?f, ?w) (?s1, ?w)"
    using flow_query_nodes [of ?f True _ map_leader ?a ?w "Some []" 0 ?w] qn by (simp add: first_flow_def ctx)
  have 2: "?step (?s1, ?w) (?s2, ?w)" using flow_first_nodes [of ?s1 "[]"] by (simp add: first_flow_def)
  have 3: "?step (?s2, ?w) (?s3, ?w)"
    using flow_query_insts [of ?s2 _ map_leader ?a ?w "Some []" zero_opts ?w] qi o z by (simp add: first_flow_def ctx)
  have 4: "?step (?s3, ?w) (?s4, ?w)" using flow_first_insts [of ?s3 "[]" "[]"] by (simp add: first_flow_def)
  have 5: "?step (?s4, ?w) (?s5, ?w)"
    using flow_query_nodes [of ?s4 False _ map_leader ?a ?w "Some []" 0 ?w] qn by (simp add: first_flow_def ctx)
  have 6: "?step (?s5, ?w) (?s5\<lparr>lf_stop := True\<rparr>, ?w)" by (rule flow_stop)
  have 7: "?step (?s5\<lparr>lf_stop := True\<rparr>, ?w) (late_flow, ?w)"
    using flow_compute_return [of "?s5\<lparr>lf_stop := True\<rparr>" "first_watch [] []" map_leader ?a ?w] by (simp add: first_flow_def late_flow_def)
  from 1 2 3 4 5 6 7 have "?step\<^sup>*\<^sup>* (?f, ?w) (late_flow, ?w)" by (meson converse_rtranclp_into_rtranclp rtranclp.rtrancl_refl)
  then show ?thesis using 0 by (rule reach_steps)
qed

theorem leader_goroutines_return_iff_witness:
  "\<not> (\<exists>st. (flow_step map_leader (sample_agent ''1''))\<^sup>*\<^sup>* (lost_flow (first_flow (sample_agent ''1'')), Map.empty) st \<and>
       lf_compute (fst st) = ComputeDone) \<and>
   \<not> (\<exists>st. (flow_step map_leader (sample_agent ''1''))\<^sup>*\<^sup>* (lost_flow late_flow, Map.empty) st \<and> lf_nodes (fst st) = NodesDone) \<and>
   (\<exists>st. (flow_step map_leader (sample_agent ''1''))\<^sup>*\<^sup>* (lost_flow late_flow, Map.empty) st \<and> lf_insts (fst st) = InstsDone)"
proof -
  let ?a = "sample_agent ''1''"
  have "reach (flow_start ?a) (flow_step map_leader ?a) (first_flow ?a, Map.empty)"
    by (rule reach_init) (simp add: flow_start_def)
  from leader_goroutines_return_iff [OF reach_lost [OF this]]
  have 1: "\<not> (\<exists>st. (flow_step map_leader ?a)\<^sup>*\<^sup>* (lost_flow (first_flow ?a), Map.empty) st \<and> lf_compute (fst st) = ComputeDone)"
    by (simp add: lost_flow_def first_flow_def sends_nodes_def sends_insts_def)
  note late = leader_goroutines_return_iff [OF reach_lost [OF reach_late]]
  have l: "lf_nodesCtx (lost_flow late_flow)" "lf_instsCtx (lost_flow late_flow)" "sends_nodes (lost_flow late_flow)"
    "\<not> sends_insts (lost_flow late_flow)" "lf_compute (lost_flow late_flow) = ComputeDone"
    by (simp_all add: lost_flow_def late_flow_def first_flow_def sends_nodes_def sends_insts_def)
  from 1 late [OF l(1,2)] l(3-5) show ?thesis by simp
qed

end
