(* ===== verification/Esm_Main.thy ===== *)
theory Esm_Main
  imports Agent_Watch
begin

text \<open>
  \<^verbatim>\<open>src/main.go\<close> and the construction of the agent (\<^verbatim>\<open>NewAgent\<close> of \<^verbatim>\<open>src/agent.go\<close>): command line,
  configuration, the wait for a cluster leader, the version check, the run, and the exit code.

  The client library's construction of clients and of metrics and
  the logging library are arguments.
\<close>

definition ExitCodeOK :: int where
  "ExitCodeOK = 0"

definition ExitCodeError :: int where
  "ExitCodeError = 10 + 1"

text \<open>\<^verbatim>\<open>AppendSliceValue\<close>: the value of a flag that may be given several times.\<close>

definition AppendSliceValue_String :: "string list \<Rightarrow> string" where
  "AppendSliceValue_String s = Join s '',''"

definition AppendSliceValue_Set :: "string \<Rightarrow> string list \<Rightarrow> string list" where
  "AppendSliceValue_Set value s = s @ [value]"

datatype signal = SIGINT | SIGTERM | OtherSignal

definition handleSignal :: "signal \<Rightarrow> Agent \<times> nat \<Rightarrow> Agent \<times> nat" where
  "handleSignal sig st = (if sig = SIGINT \<or> sig = SIGTERM then Shutdown st else st)"

definition handleSignals :: "signal list \<Rightarrow> Agent \<times> nat \<Rightarrow> Agent \<times> nat" where
  "handleSignals sigs st = fold handleSignal sigs st"


subsection \<open>The agent\<close>

text \<open>The wait for a leader: \<open>status k\<close> is the answer to query \<open>k\<close>. The result is the number of queries
  made, None while the loop still waits.\<close>

fun waitLeader :: "(nat \<Rightarrow> string + string) \<Rightarrow> nat \<Rightarrow> nat \<Rightarrow> nat option" where
  "waitLeader status k 0 = None"
| "waitLeader status k (Suc fuel) =
     (case status k of
        Inl err \<Rightarrow> waitLeader status (k + 1) fuel
      | Inr leader \<Rightarrow> if leader = '''' then waitLeader status (k + 1) fuel else Some (k + 1))"

definition new_agent :: "Config \<Rightarrow> Agent" where
  "new_agent cfg = \<lparr>config = cfg, agent_id = cfg_InstanceID cfg, shutdown = False, inflightPings = [],
     knownNodeStatuses = [], namespaceWildcard = '''', namespaceWildcardDetected = False\<rparr>"

definition NewAgent :: "(api_Config \<Rightarrow> string option) \<Rightarrow> (string list list \<times> string list list \<Rightarrow> string option) \<Rightarrow>
    (nat \<Rightarrow> string + string) \<Rightarrow> nat \<Rightarrow> api_Config \<Rightarrow> Config \<Rightarrow> (string + Agent) option" where
  "NewAgent NewClient InitTelemetry status fuel DefaultClient cfg =
     (case NewClient (ClientConfig cfg DefaultClient) of
        Some err \<Rightarrow> Some (Inl err)
      | None \<Rightarrow>
          (case InitTelemetry (getPrometheusDefs cfg) of
             Some err \<Rightarrow> Some (Inl err)
           | None \<Rightarrow> (case waitLeader status 0 fuel of None \<Rightarrow> None | Some k \<Rightarrow> Some (Inr (new_agent cfg)))))"


text \<open>\<^verbatim>\<open>Run\<close>: the initial registration, the goroutines, and the clean-up when all of them have returned after
  a shutdown. \<open>goroutines\<close> is what they do to the servers until then; None if they never all return.\<close>

definition Run :: "'w agent_client \<Rightarrow> (goroutine list \<Rightarrow> 'w \<Rightarrow> 'w option) \<Rightarrow> Agent \<Rightarrow> 'w \<Rightarrow> (reg_error option \<times> 'w) option" where
  "Run cl goroutines a w =
     (case Run_start cl a w of
        (Some err, w1) \<Rightarrow> Some (Some err, w1)
      | (None, w1) \<Rightarrow>
          (case goroutines (Run_goroutines a) w1 of
             None \<Rightarrow> None
           | Some w2 \<Rightarrow> Some (None, Run_cleanup cl a w2)))"


subsection \<open>The command line\<close>

text \<open>The parser of Go's \<^verbatim>\<open>flag\<close> package for the flags that \<^verbatim>\<open>main\<close> declares: \<^verbatim>\<open>-config-file\<close> and \<^verbatim>\<open>-config-dir\<close>, which append to
  the same slice, and the switches \<^verbatim>\<open>-v\<close> and \<^verbatim>\<open>-version\<close>, which set the same variable.\<close>

record cli_flags =
  fl_configFiles :: "string list"
  fl_isVersion :: bool

datatype flag_error = ErrHelp | BadFlagSyntax string | NotDefined string | InvalidBool string string | NeedsArgument string

definition ParseBool :: "string \<Rightarrow> bool option" where
  "ParseBool s =
     (if s \<in> set [''1'', ''t'', ''T'', ''TRUE'', ''true'', ''True''] then Some True
      else if s \<in> set [''0'', ''f'', ''F'', ''FALSE'', ''false'', ''False''] then Some False
      else None)"

text \<open>A flag with its value, split at the first equals sign that is not the first character.\<close>

definition split_flag :: "string \<Rightarrow> string \<times> string option" where
  "split_flag name =
     (case name of
        [] \<Rightarrow> ([], None)
      | c # cs \<Rightarrow> (case dropWhile (\<lambda>x. x \<noteq> CHR ''='') cs of
           [] \<Rightarrow> (name, None)
         | _ # v \<Rightarrow> (c # takeWhile (\<lambda>x. x \<noteq> CHR ''='') cs, Some v)))"

datatype flag_step = FlagsDone | FlagFail flag_error | FlagSeen cli_flags "string list"

definition setFlag :: "string \<Rightarrow> string option \<Rightarrow> string list \<Rightarrow> cli_flags \<Rightarrow> flag_step" where
  "setFlag name val args fl =
     (if name = ''v'' \<or> name = ''version'' then
        (let v = (case val of None \<Rightarrow> ''true'' | Some v \<Rightarrow> v) in
         case ParseBool v of
           None \<Rightarrow> FlagFail (InvalidBool v name)
         | Some b \<Rightarrow> FlagSeen (fl\<lparr>fl_isVersion := b\<rparr>) args)
      else if name = ''config-file'' \<or> name = ''config-dir'' then
        (case (val, args) of
           (Some v, _) \<Rightarrow> FlagSeen (fl\<lparr>fl_configFiles := AppendSliceValue_Set v (fl_configFiles fl)\<rparr>) args
         | (None, v # rest) \<Rightarrow> FlagSeen (fl\<lparr>fl_configFiles := AppendSliceValue_Set v (fl_configFiles fl)\<rparr>) rest
         | (None, []) \<Rightarrow> FlagFail (NeedsArgument name))
      else if name = ''help'' \<or> name = ''h'' then FlagFail ErrHelp
      else FlagFail (NotDefined name))"

definition parseOne :: "string list \<Rightarrow> cli_flags \<Rightarrow> flag_step" where
  "parseOne args fl =
     (case args of
        [] \<Rightarrow> FlagsDone
      | s # rest \<Rightarrow>
          if length s < 2 \<or> hd s \<noteq> CHR ''-'' then FlagsDone
          else if s = ''--'' then FlagsDone
          else
            (let name = (if s ! 1 = CHR ''-'' then drop 2 s else drop 1 s) in
             if name = [] \<or> hd name = CHR ''-'' \<or> hd name = CHR ''='' then FlagFail (BadFlagSyntax s)
             else (case split_flag name of (n, val) \<Rightarrow> setFlag n val rest fl)))"

lemma parseOne_shorter: "parseOne args fl = FlagSeen fl' rest \<Longrightarrow> length rest < length args"
  by (auto simp: parseOne_def setFlag_def Let_def split: list.splits if_splits prod.splits option.splits)

function Parse :: "string list \<Rightarrow> cli_flags \<Rightarrow> flag_error + cli_flags" where
  "Parse args fl =
     (case parseOne args fl of
        FlagsDone \<Rightarrow> Inr fl
      | FlagFail err \<Rightarrow> Inl err
      | FlagSeen fl' rest \<Rightarrow> Parse rest fl')"
  by pat_completeness auto
termination by (relation "measure (\<lambda>(args, fl). length args)") (auto intro: parseOne_shorter)

declare Parse.simps [simp del]


subsection \<open>The program\<close>

datatype main_result = Exit int | Panic

text \<open>\<^verbatim>\<open>main\<close> up to the call of \<^verbatim>\<open>Run\<close>: the program ends, or the agent starts. None is a program that still waits for
  Consul.\<close>

datatype 'w startup = StartExit main_result 'w | StartAgent Agent 'w

definition main_start :: "(string list \<Rightarrow> string + Config) \<Rightarrow> (Config \<Rightarrow> string option) \<Rightarrow>
    (Config \<Rightarrow> (string + Agent) option) \<Rightarrow> (Agent \<Rightarrow> 'w \<Rightarrow> (string option \<times> 'w) res option) \<Rightarrow>
    string list \<Rightarrow> 'w \<Rightarrow> 'w startup option" where
  "main_start Build Logging New Verify args w =
     (case Parse args \<lparr>fl_configFiles = [], fl_isVersion = False\<rparr> of
        Inl err \<Rightarrow> Some (StartExit (Exit ExitCodeError) w)
      | Inr flags \<Rightarrow>
          if fl_isVersion flags then Some (StartExit (Exit ExitCodeOK) w)
          else
            (case Build (fl_configFiles flags) of
               Inl err \<Rightarrow> Some (StartExit (Exit ExitCodeError) w)
             | Inr cfg \<Rightarrow>
                 (case Logging cfg of
                    Some err \<Rightarrow> Some (StartExit (Exit ExitCodeError) w)
                  | None \<Rightarrow>
                      (case New cfg of
                         None \<Rightarrow> None
                       | Some (Inl err) \<Rightarrow> Some (StartExit Panic w)
                       | Some (Inr agent) \<Rightarrow>
                           (case Verify agent w of
                              None \<Rightarrow> None
                            | Some (Inl fault) \<Rightarrow> Some (StartExit Panic w)
                            | Some (Inr (Some err, w1)) \<Rightarrow> Some (StartExit (Exit ExitCodeError) w1)
                            | Some (Inr (None, w1)) \<Rightarrow> Some (StartAgent agent w1))))))"

text \<open>The whole start of the program: the constraint on the versions of Consul is parsed first, and \<^verbatim>\<open>log.Fatalf\<close> ends the program
  with code 1 if it cannot be.\<close>

definition program_start :: "(string \<Rightarrow> string + 'c) \<Rightarrow> (string list \<Rightarrow> string + Config) \<Rightarrow> (Config \<Rightarrow> string option) \<Rightarrow>
    (Config \<Rightarrow> (string + Agent) option) \<Rightarrow> ('c \<Rightarrow> Agent \<Rightarrow> 'w \<Rightarrow> (string option \<times> 'w) res option) \<Rightarrow>
    string list \<Rightarrow> 'w \<Rightarrow> 'w startup option" where
  "program_start NewConstraint Build Logging New Verify args w =
     (case version_init NewConstraint of
        Inl msg \<Rightarrow> Some (StartExit (Exit 1) w)
      | Inr consulConstraints \<Rightarrow> main_start Build Logging New (Verify consulConstraints) args w)"

definition main_esm :: "(string list \<Rightarrow> string + Config) \<Rightarrow> (Config \<Rightarrow> string option) \<Rightarrow>
    (Config \<Rightarrow> (string + Agent) option) \<Rightarrow> (Agent \<Rightarrow> 'w \<Rightarrow> (string option \<times> 'w) res option) \<Rightarrow>
    (Agent \<Rightarrow> 'w \<Rightarrow> (reg_error option \<times> 'w) option) \<Rightarrow> string list \<Rightarrow> 'w \<Rightarrow> (main_result \<times> 'w) option" where
  "main_esm Build Logging New Verify RunAgent args w =
     (case main_start Build Logging New Verify args w of
        None \<Rightarrow> None
      | Some (StartExit r w1) \<Rightarrow> Some (r, w1)
      | Some (StartAgent agent w1) \<Rightarrow>
          (case RunAgent agent w1 of
             None \<Rightarrow> None
           | Some (Some err, w2) \<Rightarrow> Some (Exit ExitCodeError, w2)
           | Some (None, w2) \<Rightarrow> Some (Exit ExitCodeOK, w2)))"


subsection \<open>Facts\<close>

lemma Shutdown_shut: "shutdown a \<Longrightarrow> Shutdown (a, n) = (a, n)"
  by (simp add: Shutdown_def)

lemma handleSignals_shut: "shutdown a \<Longrightarrow> handleSignals sigs (a, n) = (a, n)"
  unfolding handleSignals_def by (induction sigs) (simp_all add: handleSignal_def Shutdown_shut)

text \<open>However many signals arrive, the channel is closed once, by the first SIGINT or SIGTERM.\<close>

lemma signals_close_once:
  assumes "\<not> shutdown a"
  shows "handleSignals sigs (a, 0) =
    (if SIGINT \<in> set sigs \<or> SIGTERM \<in> set sigs then (a\<lparr>shutdown := True\<rparr>, 1) else (a, 0))"
proof (induction sigs)
  case (Cons sig sigs)
  then show ?case
    using assms handleSignals_shut [of "a\<lparr>shutdown := True\<rparr>" sigs 1]
    by (cases sig) (simp_all add: handleSignals_def handleSignal_def Shutdown_def)
qed (simp add: handleSignals_def)

text \<open>The wait ends with the first named leader.\<close>

lemma waitLeader_first:
  assumes "status (k + n) = Inr l" and "l \<noteq> ''''"
    and "\<forall>i < n. isl (status (k + i)) \<or> status (k + i) = Inr ''''" and "n < fuel"
  shows "waitLeader status k fuel = Some (k + n + 1)"
  using assms
proof (induction fuel arbitrary: k n)
  case (Suc fuel)
  show ?case
  proof (cases n)
    case 0
    with Suc.prems show ?thesis by simp
  next
    case (Suc m)
    have "\<forall>i < m. isl (status (Suc k + i)) \<or> status (Suc k + i) = Inr ''''"
      using Suc.prems(3) Suc by (metis Suc_less_eq add_Suc_shift)
    then have "waitLeader status (Suc k) fuel = Some (k + n + 1)"
      using Suc.IH [of "Suc k" m] Suc.prems Suc by simp
    moreover have "isl (status k) \<or> status k = Inr ''''" using Suc.prems(3) Suc by force
    ultimately show ?thesis by (cases "status k") auto
  qed
qed simp

subsection \<open>Reading the command line\<close>

text \<open>The options as a user may write them: with one dash or two, with the value joined by an equals sign or as
  the next argument.\<close>

datatype cli_option = ConfigFile bool bool string | ConfigDir bool bool string | VersionSwitch bool

definition dashes :: "bool \<Rightarrow> string" where
  "dashes two = (if two then ''--'' else ''-'')"

fun render :: "cli_option \<Rightarrow> string list" where
  "render (ConfigFile two joined f) =
     (if joined then [dashes two @ ''config-file='' @ f] else [dashes two @ ''config-file'', f])"
| "render (ConfigDir two joined f) =
     (if joined then [dashes two @ ''config-dir='' @ f] else [dashes two @ ''config-dir'', f])"
| "render (VersionSwitch two) = [dashes two @ ''version'']"

fun apply_option :: "cli_option \<Rightarrow> cli_flags \<Rightarrow> cli_flags" where
  "apply_option (ConfigFile two joined f) fl = fl\<lparr>fl_configFiles := fl_configFiles fl @ [f]\<rparr>"
| "apply_option (ConfigDir two joined f) fl = fl\<lparr>fl_configFiles := fl_configFiles fl @ [f]\<rparr>"
| "apply_option (VersionSwitch two) fl = fl\<lparr>fl_isVersion := True\<rparr>"

lemma parse_option: "parseOne (render opt @ args) fl = FlagSeen (apply_option opt fl) args"
  by (cases opt) (auto simp: parseOne_def split_flag_def setFlag_def dashes_def AppendSliceValue_Set_def ParseBool_def Let_def)

text \<open>Every way of writing a list of options is read back as these options, up to the first argument that is no
  flag.\<close>

lemma parse_options:
  assumes "parseOne rest (fold apply_option opts fl) = FlagsDone"
  shows "Parse (concat (map render opts) @ rest) fl = Inr (fold apply_option opts fl)"
  using assms
proof (induction opts arbitrary: fl)
  case Nil
  then show ?case by (simp add: Parse.simps)
next
  case (Cons opt opts)
  then show ?case by (simp add: Parse.simps [of "render opt @ _"] parse_option)
qed

subsection \<open>Starting an agent\<close>

lemma waitLeader_named: "waitLeader status k fuel = Some n \<Longrightarrow> \<exists>l. status (n - 1) = Inr l \<and> l \<noteq> ''''"
  by (induction status k fuel rule: waitLeader.induct) (auto split: sum.splits if_splits)

definition server_versions :: "CatalogService list \<Rightarrow> string set" where
  "server_versions svs = {v. \<exists>s \<in> set svs. gm_load (cs_ServiceMeta s) ''version'' = Some v}"

lemma fold_addVersion:
  assumes "\<forall>v. gm_load u v = Some True \<longleftrightarrow> v \<in> set vs"
  shows "set (fst (fold addVersion svs (vs, u, f))) = set vs \<union> server_versions svs"
  using assms
proof (induction svs arbitrary: vs u f)
  case (Cons s svs)
  show ?case
  proof (cases "gm_load (cs_ServiceMeta s) ''version''")
    case None
    with Cons show ?thesis by (simp add: addVersion_def server_versions_def)
  next
    case (Some v)
    have "server_versions (s # svs) = insert v (server_versions svs)" using Some by (auto simp: server_versions_def)
    moreover have "\<forall>x. gm_load (gm_store v True u) x = Some True \<longleftrightarrow> x \<in> set (vs @ [v])" using Cons.prems by auto
    ultimately show ?thesis using Cons.IH [of u vs True] Cons.IH [of "gm_store v True u" "vs @ [v]" True] Cons.prems Some
      by (auto simp: addVersion_def)
  qed
qed (simp add: server_versions_def)

lemma verified_versions:
  assumes "\<forall>v. Check (Some v) = Inr (sat v)"
    and "VerifyConsulCompatibility (CheckConsulVersions NewSemver Check V) cl (\<lambda>_. False) fuel w = Some (Inr (None, w'))"
  shows "\<exists>info agentVersion svs. fst (Agent_Self cl w) = Inr info \<and> self_version info = Some (SelfString agentVersion) \<and>
    queryServers cl (\<lambda>_. False) 0 fuel (snd (Agent_Self cl w)) = Some (QueryServices svs, w') \<and>
    (\<forall>v \<in> insert agentVersion (server_versions svs). \<exists>x. NewSemver (trimPrerelease v) = Some x \<and> sat x)"
proof -
  have q: "queryServers cl (\<lambda>_. False) k n w1 \<noteq> Some (QueryShutdown, w2)" for k n w1 w2
    by (induction n arbitrary: k w1) (auto split: sum.splits prod.splits)
  obtain info w1 av svs where s: "Agent_Self cl w = (Inr info, w1)" "self_version info = Some (SelfString av)"
    "queryServers cl (\<lambda>_. False) 0 fuel w1 = Some (QueryServices svs, w')"
    and c: "CheckConsulVersions NewSemver Check V (fst (fold addVersion svs ([av], [(av, True)], False))) = Inr None"
    using assms(2) q
    by (auto simp: VerifyConsulCompatibility_def bindR_eq_Inr Let_def
        split: prod.splits sum.splits option.splits self_value.splits server_query.splits)
  have "set (fst (fold addVersion svs ([av], [(av, True)], False))) = insert av (server_versions svs)"
    by (subst fold_addVersion) (auto simp: gm_load_def)
  with checked_versions [OF assms(1), THEN conjunct1, THEN iffD1, OF c] s show ?thesis by auto
qed

text \<open>C38. An agent starts only when everything it relies on was checked: the command line was read without an error and
  asks for no version; the configuration built from its files is the agent's and is valid; the cluster named a
  leader; the local Consul agent and the servers reported their versions, and every one of them
  satisfies the constraint that the program was compiled with. Until then the program ends with an error code, panics, or waits for Consul.\<close>

theorem agent_starts_checked:
  assumes "\<forall>vc v. Check vc (Some v) = Inr (sat vc v)"
    and "program_start NewConstraint (BuildConfig uuid Visit (visitor hcl PD os_Open)) Logging
        (NewAgent NewClient InitTelemetry status fuel DefaultClient)
        (\<lambda>vc a. VerifyConsulCompatibility (CheckConsulVersions NewSemver (Check vc) V) cl (\<lambda>_. False) qfuel)
        args w = Some (StartAgent a w')"
  shows "(\<exists>files. Parse args \<lparr>fl_configFiles = [], fl_isVersion = False\<rparr> = Inr \<lparr>fl_configFiles = files, fl_isVersion = False\<rparr> \<and>
      BuildConfig uuid Visit (visitor hcl PD os_Open) files = Inr (config a)) \<and>
    HasSuffix (cfg_KVPath (config a)) ''/'' \<and> cfg_PingType (config a) \<in> {''udp'', ''socket''} \<and>
    1000000000 \<le> cfg_CoordinateUpdateInterval (config a) \<and> 0 \<le> cfg_PassingThreshold (config a) \<and>
    0 \<le> cfg_CriticalThreshold (config a) \<and> agent_id a = cfg_InstanceID (config a) \<and> \<not> shutdown a \<and>
    (\<exists>k l. status k = Inr l \<and> l \<noteq> '''') \<and>
    (\<exists>vc info agentVersion svs. NewConstraint ''>= 1.4.1'' = Inr vc \<and> fst (Agent_Self cl w) = Inr info \<and> self_version info = Some (SelfString agentVersion) \<and>
      queryServers cl (\<lambda>_. False) 0 qfuel (snd (Agent_Self cl w)) = Some (QueryServices svs, w') \<and>
      (\<forall>v \<in> insert agentVersion (server_versions svs). \<exists>x. NewSemver (trimPrerelease v) = Some x \<and> sat vc x))"
proof -
  obtain vc where vc: "version_init NewConstraint = Inr vc"
    and m: "main_start (BuildConfig uuid Visit (visitor hcl PD os_Open)) Logging
        (NewAgent NewClient InitTelemetry status fuel DefaultClient)
        (\<lambda>a. VerifyConsulCompatibility (CheckConsulVersions NewSemver (Check vc) V) cl (\<lambda>_. False) qfuel)
        args w = Some (StartAgent a w')"
    using assms(2) by (cases "version_init NewConstraint") (simp_all add: program_start_def)
  have nc: "NewConstraint ''>= 1.4.1'' = Inr vc"
    using vc by (simp add: version_init_def consulVersionConstraint_def split: sum.splits)
  have sat: "\<forall>v. Check vc (Some v) = Inr (sat vc v)" using assms(1) by simp
  obtain fl cfg where p: "Parse args \<lparr>fl_configFiles = [], fl_isVersion = False\<rparr> = Inr fl" "\<not> fl_isVersion fl"
    and b: "BuildConfig uuid Visit (visitor hcl PD os_Open) (fl_configFiles fl) = Inr cfg"
    and n: "NewAgent NewClient InitTelemetry status fuel DefaultClient cfg = Some (Inr a)"
    and v: "VerifyConsulCompatibility (CheckConsulVersions NewSemver (Check vc) V) cl (\<lambda>_. False) qfuel w = Some (Inr (None, w'))"
    using m by (auto simp: main_start_def split: sum.splits option.splits if_splits prod.splits)
  obtain k where a: "a = new_agent cfg" and l: "waitLeader status 0 fuel = Some k"
    using n by (auto simp: NewAgent_def split: option.splits)
  have 1: "\<exists>files. Parse args \<lparr>fl_configFiles = [], fl_isVersion = False\<rparr> = Inr \<lparr>fl_configFiles = files, fl_isVersion = False\<rparr> \<and>
      BuildConfig uuid Visit (visitor hcl PD os_Open) files = Inr (config a)"
    using p b by (intro exI [of _ "fl_configFiles fl"]) (simp add: a new_agent_def)
  have 2: "config a = cfg" "agent_id a = cfg_InstanceID (config a)" "\<not> shutdown a" by (simp_all add: a new_agent_def)
  have 3: "\<exists>k l. status k = Inr l \<and> l \<noteq> ''''" using waitLeader_named [OF l] by blast
  from verified_versions [OF sat v] nc have 4: "\<exists>vc info agentVersion svs. NewConstraint ''>= 1.4.1'' = Inr vc \<and>
      fst (Agent_Self cl w) = Inr info \<and> self_version info = Some (SelfString agentVersion) \<and>
      queryServers cl (\<lambda>_. False) 0 qfuel (snd (Agent_Self cl w)) = Some (QueryServices svs, w') \<and>
      (\<forall>v \<in> insert agentVersion (server_versions svs). \<exists>x. NewSemver (trimPrerelease v) = Some x \<and> sat vc x)"
    by (elim exE conjE) (intro exI conjI)
  from 1 2 3 4 built_config [OF b] show ?thesis by simp
qed

text \<open>A ready cluster: a leader, an agent of version 7, and two servers.\<close>

definition ready_client :: "unit agent_client" where
  "ready_client = \<lparr>Catalog_Service = (\<lambda>n t q w. (Inr [\<lparr>cs_ServiceID = ''s1'', cs_ServiceMeta = [(''version'', ''5-beta'')]\<rparr>,
        \<lparr>cs_ServiceID = ''s2'', cs_ServiceMeta = []\<rparr>], w)),
     Catalog_Node = (\<lambda>n q w. (Inr None, w)), Catalog_Register = (\<lambda>r q w. (None, w)), Agent_Service = (\<lambda>n q w. (None, w)),
     Agent_ServiceRegister = (\<lambda>r w. (None, w)), Agent_Services = (\<lambda>q w. (Inr [], w)),
     Agent_CheckRegister = (\<lambda>r q w. (None, w)), Agent_UpdateTTL = (\<lambda>i o' s q w. (None, w)),
     Agent_Self = (\<lambda>w. (Inr [(''Config'', [(''Version'', SelfString ''7'')])], w)),
     Catalog_DeregisterService = (\<lambda>n s p q w. (None, w)), Agent_ServiceDeregister = (\<lambda>s q w. (None, w))\<rparr>"

definition sample_client :: api_Config where
  "sample_client = \<lparr>ac_Address = ''127.0.0.1:8500'', ac_Token = '''', ac_Datacenter = '''', ac_Partition = '''', ac_CAFile = '''',
     ac_CAPath = '''', ac_CertFile = '''', ac_KeyFile = '''', ac_TLSAddress = ''''\<rparr>"

definition at_least :: "nat \<Rightarrow> nat option \<Rightarrow> bool res" where
  "at_least m v = (case v of None \<Rightarrow> Inl NilPanic | Some n \<Rightarrow> Inr (m \<le> n))"

definition ready_start :: "string list \<Rightarrow> unit startup option" where
  "ready_start args = program_start (\<lambda>s. Inr (4 :: nat)) (BuildConfig (Inr ''id'') (\<lambda>p. Inr [p]) (visitor sample_hcl no_duration sample_file)) (\<lambda>_. None)
     (NewAgent (\<lambda>_. None) (\<lambda>_. None) (\<lambda>k. if k = 0 then Inl ''500'' else Inr ''10.0.0.1:8300'') 2 sample_client)
     (\<lambda>vc a. VerifyConsulCompatibility (CheckConsulVersions digit_semver (at_least vc) ''0.11.2'') ready_client (\<lambda>_. False) 1)
     args ()"

theorem agent_starts_checked_witness:
  "\<exists>a. ready_start [''-config-file'', ''a.hcl''] = Some (StartAgent a ()) \<and> HasSuffix (cfg_KVPath (config a)) ''/'' \<and> \<not> shutdown a"
proof -
  have "case ready_start [''-config-file'', ''a.hcl''] of Some (StartAgent a w) \<Rightarrow> True | _ \<Rightarrow> False" by code_simp
  then obtain a where r: "ready_start [''-config-file'', ''a.hcl''] = Some (StartAgent a ())"
    by (auto split: option.splits startup.splits)
  have c: "\<forall>m v. at_least m (Some v) = Inr (m \<le> v)" by (simp add: at_least_def)
  from agent_starts_checked [OF c r [unfolded ready_start_def]] r show ?thesis by blast
qed

end
