(* ===== verification/Spec2Isabelle.thy ===== *)
theory Spec2Isabelle
  imports
    Batch_Flight
    Result_Reported
    Reaper
    Agent_Register
    Leader_Loop
    Ping_Flight
    Node_Pipeline
    Leader_Watch
    Esm_Main
begin

text \<open>
  A verification library for consul-esm, the Consul External Service Monitor: a daemon that runs health
  checks for nodes and services that have no Consul agent of their own, and writes the results to
  Consul's catalog.

  \<^bold>\<open>The program.\<close> Several instances of the daemon share the external nodes of a datacenter.
  \<^item> \<^verbatim>\<open>src/main.go\<close> and \<^verbatim>\<open>src/config.go\<close> read the command line and the configuration files.
  \<^item> \<^verbatim>\<open>src/agent.go\<close> registers the instance with Consul (through a local agent, or in the catalog in
    agentless mode), keeps it registered, and starts the goroutines below. The instances
    compete for a lock.
  \<^item> \<^verbatim>\<open>src/leader.go\<close>: the instance that holds the lock watches the external nodes and the healthy
    instances, deals the nodes out, and writes one list per instance to the KV store.
  \<^item> \<^verbatim>\<open>watchNodeList\<close> of every instance reads its own list; it hands the nodes to
    \<^verbatim>\<open>watchHealthChecks\<close> and the nodes to ping to \<^verbatim>\<open>updateCoords\<close>.
  \<^item> \<^verbatim>\<open>src/check.go\<close>: \<^verbatim>\<open>watchHealthChecks\<close> gives the checks of the nodes to the check runner, which starts
    and stops checkers (\<^verbatim>\<open>UpdateChecks\<close>), takes their results (\<^verbatim>\<open>UpdateCheck\<close>), and writes changed statuses to the
    catalog, one by one or, in agentless mode, in batches.
  \<^item> \<^verbatim>\<open>src/batcher.go\<close> collects the updates of a batch and flushes it when it is full or a timer fires.
  \<^item> \<^verbatim>\<open>src/coordinate.go\<close> pings nodes, keeps their health check and network coordinate, and
    deregisters nodes that stay unreachable.
  \<^item> \<^verbatim>\<open>src/version/version.go\<close> refuses unsupported Consul versions at startup.

  \<^bold>\<open>The theories.\<close>
  \<^item> \<open>Esm_Prelude\<close>: Go maps as association lists and their laws (the locale \<open>map_interface\<close>, interpreted on the
    model's map operations), Go's \<^verbatim>\<open>range\<close> over a map as an arbitrary reordering (\<open>visits\<close>), panics and
    self-deadlocks as values (\<open>fault\<close>), the string functions the source uses, and the locale
    \<open>inductive_invariant\<close> for reachable states.
  \<^item> \<open>Consul_Api\<close>: the data types of Consul's API, and the client as a record of functions on an
    arbitrary state of the servers. The client library is not part of the repository; every
    definition that calls it takes it as an argument, so that the theorems hold for
    every behaviour of the servers unless a hypothesis says otherwise.
  \<^item> \<open>Batcher\<close>: \<^verbatim>\<open>CheckUpdateBatcher\<close> and its operations; the locale \<open>coalescing_queue\<close> states what a queue
    with one entry per key promises.
  \<^item> \<open>Check_Runner\<close>: the state of the check runner (an explicit heap of \<^verbatim>\<open>esmHealthCheck\<close> objects,
    because a stored check shares its object with running timers) and \<^verbatim>\<open>UpdateChecks\<close>.
    \<open>Check_Sync\<close> has the invariant of the runner and the effect of every round of that loop;
    \<open>Check_Catalog\<close> the properties of \<^verbatim>\<open>UpdateChecks\<close> as a whole.
  \<^item> \<open>Check_Update\<close>: results, thresholds, deferred updates, single and batched transactions, retries,
    reverts, reaping. Mutexes are explicit: locking a mutex that the same goroutine holds is the
    fault \<open>MutexBlocked\<close>. \<open>Check_Results\<close> has what each of these operations leaves alone, the step relation
    \<open>runner_step\<close> of the whole runner and its invariant; \<open>Check_Claims\<close> the properties. \<open>Check_Races\<close> splits a
    result where the code does, between loading a check and locking it (\<open>racing_step\<close>), and follows a critical
    time that outlives its cause and a rollback to a state the catalog never had. \<open>Batch_Flight\<close> also splits a flush where the
    code does, between draining a batch and processing it (\<open>flying_step\<close>), so that batches overlap. \<open>Batch_Writes\<close> says what a batch writes
    when Consul answers, \<open>Catalog_Follows\<close> that the catalog then follows the runner (\<open>calm_step\<close>),
    and \<open>Result_Reported\<close> that a new status reaches it after the right number of results. \<open>Reaper\<close> is the timer loop around reaping.
  \<^item> \<open>Config\<close>: \<^verbatim>\<open>Config\<close>, \<^verbatim>\<open>HumanConfig\<close>, merging, validation, \<^verbatim>\<open>BuildConfig\<close>. The HCL parser and mapstructure are arguments.
  \<^item> \<open>Version\<close>: the version check. \<open>Json\<close>: \<^verbatim>\<open>encoding/json\<close> for \<^verbatim>\<open>NodeWatchList\<close>, with a full JSON parser.
  \<^item> \<open>Agent_Core\<close>, \<open>Agent_Watch\<close>: \<^verbatim>\<open>src/agent.go\<close>; \<open>Agent_Claims\<close> and \<open>Agent_Register\<close> their properties. \<open>Node_Pipeline\<close>: the goroutines
    of \<^verbatim>\<open>watchNodeList\<close>, \<^verbatim>\<open>watchHealthChecks\<close> and \<^verbatim>\<open>updateCoords\<close> with the channels between them (\<open>pipe_step\<close>).
  \<^item> \<open>Esm_Main\<close>: \<^verbatim>\<open>src/main.go\<close> with Go's flag parser for its four flags, \<^verbatim>\<open>NewAgent\<close>, and \<^verbatim>\<open>Run\<close> as a whole.
  \<^item> \<open>Leader\<close>: \<^verbatim>\<open>src/leader.go\<close> without its lock; \<open>Leader_Lists\<close> the distribution of nodes and its
    way through the KV store; \<open>Leader_Loop\<close> the lock loops as a step relation; \<open>Takeover\<close> a
    cluster of instances that lead, stop leading, read their lists and restart (\<open>cluster_step\<close>); \<open>Leader_Watch\<close> the goroutines
    of one leadership, \<^verbatim>\<open>computeWatchedNodes\<close> with its two watches, and what becomes of them when it is lost (\<open>flow_step\<close>).
  \<^item> \<open>Coordinate\<close>: \<^verbatim>\<open>src/coordinate.go\<close>; \<open>Coordinate_Claims\<close> its properties; \<open>Ping_Flight\<close> the pinger with its
    goroutines as a step relation (\<open>flight_step\<close>).
  \<^item> This theory: the property that spans them all.

  \<^bold>\<open>What is shown.\<close>
  \<^item> The runner matches the catalog after every update, restarts nothing when nothing changed, keeps the
    anti-flapping counters, and keeps its invariant in every reachable state, also when results
    lock their check late and batches overlap.
  \<^item> A status changes only after the configured number of results; handling a result always returns unless
    a result fills a batch while Consul is unreachable, in which case it blocks on its own mutex;
    as long as Consul answers, the catalog or the batch has the state the runner holds, and a new status that lasts is in the
    catalog after the threshold, one more result and a flush;
    updates that were not written are taken back; batches are bounded and complete; exactly the
    services with a critical time that is old enough are deregistered, within half a minute, which includes
    healthy ones whose critical time was never cleared.
  \<^item> The batcher sends every update once, the last one per check, in well-formed batches.
  \<^item> The leader's lists are a balanced partition of the nodes; a pass of the leader leaves the old lists, or the new ones of
    all or of the first instances, never a mixture; the lists are read back by exactly one instance per node; the last pass of any leader decides, so that a takeover
    converges, and a former leader publishes at most three times more, although its goroutines need not all end. Inside an instance the lists reach their users complete and in order. The lock loops never hold more
    than one lock, lead only while they hold it, and end on shutdown; the node list watch ends on shutdown exactly when it has
    seen a list and its readers are still there.
  \<^item> An instance ID is registered once, and a lost registration is restored.
  \<^item> The pinger visits every node in each round and has at most one ping per node under way, a node that stays unreachable is tracked and then
    deregistered, and statuses are written when they change or expire.
  \<^item> An agent starts only with a valid configuration, a leader and versions that satisfy the constraint in the program. Built
    configurations are valid, later files win, and versions are accepted exactly when they satisfy the constraint.
  \<^item> Where the program does not do what its documentation or its own comments say, a theorem states what it
    does instead.

  \<^bold>\<open>Steps, time, bounds.\<close> One operation is one atomic step of the state it works on; interleaving is the order
  of steps. Code after a channel receive is a definition for one pass of its loop. Times are integers
  in nanoseconds, given to each step. \<^verbatim>\<open>int\<close> counters of results are unbounded integers: they are
  bounded by the thresholds. The fuel of the JSON parser is the length of the document, which is enough
  because every call consumes a character; the fuel of \<open>queryServers\<close> and \<open>waitLeader\<close> bounds the number of retries,
  and None means that the loop still runs. A pending update is a snapshot of its check: only fields
  that never change are read from it.

  \<^bold>\<open>Not modelled.\<close> Logging; the HTTP server for metrics and profiling (its address, routes and shutdown are modelled); the metrics sinks (the
  names and values of the gauges are modelled);
  the checkers themselves, which are Consul's; the decoding hooks of the library (the
  one of the repository is modelled); the text of the usage message; the test support under \<^verbatim>\<open>src/testutils\<close>. What is left out is code of other
  packages, text, or not part of the program.

  \<^bold>\<open>Limits.\<close> The pass of a leader that needs several transactions is one step of \<open>flow_step\<close> and \<open>cluster_step\<close>; \<open>write_lists_partial\<close> says what
  the store holds between them. The catalog lists of \<open>calm_step\<close> arrive while no update waits in the batch;
  \<open>runner_step\<close> and \<open>flying_step\<close> have them at any time, for the invariant of the runner. Which ready case a \<^verbatim>\<open>select\<close> takes is
  open, and timers may fire late: no theorem rests on fairness or on the speed of a goroutine.
\<close>

subsection \<open>From the leader to the running checkers\<close>

text \<open>C1. Every check of an external node runs on exactly one instance. The leader publishes its
  distribution; every healthy instance reads and decodes its list and passes the nodes to its
  check watch, whose fresh check runner is updated from the catalog. Then a runnable check
  of an external node has a checker on exactly one of the instances. (Checks have
  distinct hashes, nodes distinct ASCII names.)\<close>

theorem each_check_runs_once:
  assumes "kv_semantics cl kv" and "computeWatchedNodes_pass cl a i (s, w) = (s', w')"
    and "lw_retryTimer s' = NoTimer" and "lw_healthyInstances s' \<noteq> []"
    and "distinct_insts (lw_healthyInstances s')"
    and "distinct (map nd_Node (lw_externalNodes s'))" and "\<forall>x \<in> set (lw_externalNodes s'). ascii (nd_Node x)"
    and "reads rcl kv"
    and "\<forall>j < length (lw_healthyInstances s'). serviceID (agents j) = inst_id (lw_healthyInstances s') j \<and>
      kvNodeListPath (agents j) = kvNodeListPath a"
    and "catalog_has rcl cs li" and "visits ord"
    and "\<forall>k \<in> set cs. single_protocol (hc_Definition k)" and "distinct_hashes cs"
    and "k \<in> set cs" and "runnable k" and "x \<in> set (lw_externalNodes s')" and "hc_Node k = nd_Node x"
  shows "\<exists>!j. j < length (lw_healthyInstances s') \<and>
    (\<exists>nodes pings. fst (watchNodeList_pass rcl (agents j) (st, w')) = Some (nodes, pings) \<and>
       hashCheck k \<in> dom (ref_at (fst (snd (watchHealthChecks_pass ord acl rcl (Some nodes)
         (cw, agent_runner (agents j) tls, agents j, w''))))))"
proof -
  have "hashCheck k \<in> hashes (ours nodes cs) \<longleftrightarrow> gm_load nodes (nd_Node x) = Some True" for nodes
  proof
    assume "hashCheck k \<in> hashes (ours nodes cs)"
    then obtain k' where k': "k' \<in> set (ours nodes cs)" "runnable k'" "hashCheck k' = hashCheck k"
      by (auto simp: hashes_def)
    then have "k' \<in> set (filter runnable cs)" "k \<in> set (filter runnable cs)"
      using assms(14,15) by (simp_all add: ours_def)
    then have "k' = k"
      using assms(13) k'(3) by (auto simp: distinct_hashes_def distinct_map dest: inj_onD)
    then show "gm_load nodes (nd_Node x) = Some True" using k'(1) assms(17) by (simp add: ours_def)
  next
    assume "gm_load nodes (nd_Node x) = Some True"
    then have "k \<in> set (ours nodes cs)" using assms(14,17) by (simp add: ours_def)
    then show "hashCheck k \<in> hashes (ours nodes cs)" using assms(15) by (rule in_hashesI)
  qed
  then show ?thesis
    unfolding fresh_synced [OF assms(10-12)] using watched_once [OF assms(1-9,16)] by simp
qed

text \<open>Two instances, three nodes, a TCP check on the second node.\<close>

definition store_client :: "(string \<Rightarrow> string option) watch_client" where
  "store_client = map_reader\<lparr>Health_State := (\<lambda>s q w. (Inr ([sample_check\<lparr>hc_Node := ''b''\<rparr>], 7), w))\<rparr>"

lemma store_client_laws:
  "reads store_client (\<lambda>w. w)" "catalog_has store_client [sample_check\<lparr>hc_Node := ''b''\<rparr>] 7"
  using reads_map by (simp_all add: store_client_def reads_def catalog_has_def)

theorem each_check_runs_once_witness:
  "\<exists>s' w'. computeWatchedNodes_pass map_leader (sample_agent ''1'') RetryFired (sample_watch, Map.empty) = (s', w') \<and>
     (\<forall>acl. \<exists>!j :: nat. j < 2 \<and>
       (\<exists>nodes pings. fst (watchNodeList_pass store_client (sample_agent (if j = 0 then ''1'' else ''2''))
            (\<lparr>nwt_firstRun = True, nwt_WaitIndex = 0\<rparr>, w')) = Some (nodes, pings) \<and>
          hashCheck (sample_check\<lparr>hc_Node := ''b''\<rparr>) \<in> dom (ref_at (fst (snd (watchHealthChecks_pass rev acl
            store_client (Some nodes) (idle_watch, agent_runner (sample_agent (if j = 0 then ''1'' else ''2''))
              \<lparr>tls_InsecureSkipVerify = False, tls_ServerName = ''''\<rparr>,
              sample_agent (if j = 0 then ''1'' else ''2''), Map.empty)))))))"
proof -
  let ?ag = "\<lambda>j :: nat. sample_agent (if j = 0 then ''1'' else ''2'')"
  let ?k = "sample_check\<lparr>hc_Node := ''b''\<rparr>"
  obtain w' where p: "computeWatchedNodes_pass map_leader (sample_agent ''1'') RetryFired (sample_watch, Map.empty) =
    (sample_watch\<lparr>lw_prev := Some (nodeLists sample_nodes sample_insts)\<rparr>, w')" by (rule sample_pass)
  have ids: "serviceID (sample_agent ''1'') = inst_id sample_insts 0" "serviceID (sample_agent ''2'') = inst_id sample_insts 1"
    "kvNodeListPath (sample_agent ''2'') = kvNodeListPath (sample_agent ''1'')" by code_simp+
  have ags: "\<forall>j < 2. serviceID (?ag j) = inst_id sample_insts j \<and> kvNodeListPath (?ag j) = kvNodeListPath (sample_agent ''1'')"
    using ids by (auto simp: less_2_cases_iff)
  have b: "sample_node ''b'' True \<in> set sample_nodes" "nd_Node (sample_node ''b'' True) = ''b''"
    by (simp_all add: sample_nodes_def sample_node_def)
  have k: "single_protocol (hc_Definition ?k)" "distinct_hashes [?k]" "runnable ?k"
    using single_protocol_sample sample_runnable by (simp_all add: distinct_hashes_def runnable_def)
  note one = each_check_runs_once [OF kv_semantics_map p _ _ _ _ _ store_client_laws(1) _ store_client_laws(2)
      visits_rev, of ?ag ?k "sample_node ''b'' True" "\<lparr>nwt_firstRun = True, nwt_WaitIndex = 0\<rparr>"]
  show ?thesis
    by (intro exI conjI allI, rule p, insert one ags b k)
      (simp add: sample_watch_def sample_insts_distinct sample_nodes_distinct)
qed

end
